(* ===== verification/Opc_Prelude.thy ===== *)
theory Opc_Prelude
  imports Main "HOL-Library.Word"
begin

text \<open>
  Shared vocabulary of the development: the outcome of a fallible Rust computation
  (a \<^verbatim>\<open>Result\<close> value or a panic), checked machine arithmetic on 64-bit \<^verbatim>\<open>usize\<close> and
  \<^verbatim>\<open>u64\<close> values, byte strings with guarded indexing and slicing, and the big-endian
  conversions of \<^verbatim>\<open>u16\<close> and \<^verbatim>\<open>u32\<close>. The generic lemmas on them carry the proofs of the
  components.
\<close>

unbundle bit_operations_syntax

named_theorems outcome_simps \<open>how a composed computation succeeds, fails or panics\<close>
named_theorems wire_simps \<open>byte-level facts on encoders and decoders\<close>

section \<open>Outcomes of fallible computations\<close>

text \<open>
  \<open>Ok\<close> and \<open>Err\<close> are the constructors of Rust's \<^verbatim>\<open>Result\<close>; \<open>Panic\<close> stands for an
  unwinding computation (an index or a slice out of range, a failed \<^verbatim>\<open>assert!\<close>,
  \<^verbatim>\<open>unreachable!\<close>).
\<close>

datatype (ok_set: 'a, err_set: 'e) result = Ok 'a | Err 'e | Panic

fun and_then :: "('a, 'e) result \<Rightarrow> ('a \<Rightarrow> ('b, 'e) result) \<Rightarrow> ('b, 'e) result" where
  "and_then (Ok x) f = f x"
| "and_then (Err e) f = Err e"
| "and_then Panic f = Panic"

fun map_err :: "('e \<Rightarrow> 'f) \<Rightarrow> ('a, 'e) result \<Rightarrow> ('a, 'f) result" where
  "map_err g (Ok x) = Ok x"
| "map_err g (Err e) = Err (g e)"
| "map_err g Panic = Panic"

fun ok_or :: "'e \<Rightarrow> 'a option \<Rightarrow> ('a, 'e) result" where
  "ok_or e None = Err e"
| "ok_or e (Some x) = Ok x"

definition guard_err :: "bool \<Rightarrow> 'e \<Rightarrow> (unit, 'e) result" where
  "guard_err b e = (if b then Err e else Ok ())"

lemma and_then_Ok_iff [outcome_simps]:
  "and_then m f = Ok y \<longleftrightarrow> (\<exists>x. m = Ok x \<and> f x = Ok y)"
  by (cases m) auto

lemma and_then_Err_iff [outcome_simps]:
  "and_then m f = Err e \<longleftrightarrow> m = Err e \<or> (\<exists>x. m = Ok x \<and> f x = Err e)"
  by (cases m) auto

lemma and_then_Panic_iff [outcome_simps]:
  "and_then m f = Panic \<longleftrightarrow> m = Panic \<or> (\<exists>x. m = Ok x \<and> f x = Panic)"
  by (cases m) auto

lemma map_err_Ok_iff [outcome_simps]: "map_err g m = Ok y \<longleftrightarrow> m = Ok y"
  by (cases m) auto

lemma map_err_Err_iff [outcome_simps]: "map_err g m = Err e \<longleftrightarrow> (\<exists>d. m = Err d \<and> e = g d)"
  by (cases m) auto

lemma map_err_Panic_iff [outcome_simps]: "map_err g m = Panic \<longleftrightarrow> m = Panic"
  by (cases m) auto

lemma ok_or_Ok_iff [outcome_simps]: "ok_or e v = Ok x \<longleftrightarrow> v = Some x"
  by (cases v) auto

lemma ok_or_Err_iff [outcome_simps]: "ok_or e v = Err d \<longleftrightarrow> v = None \<and> d = e"
  by (cases v) auto

lemma ok_or_not_Panic [simp]: "ok_or e v \<noteq> Panic"
  by (cases v) auto

lemma guard_err_Ok_iff [outcome_simps]: "guard_err b e = Ok u \<longleftrightarrow> \<not> b"
  by (simp add: guard_err_def)

lemma guard_err_Err_iff [outcome_simps]: "guard_err b e = Err d \<longleftrightarrow> b \<and> d = e"
  by (auto simp: guard_err_def)

lemma guard_err_not_Panic [simp]: "guard_err b e \<noteq> Panic"
  by (simp add: guard_err_def)

lemma if_Err_Ok_iff [outcome_simps]: "(if b then Err e else m) = Ok y \<longleftrightarrow> \<not> b \<and> m = Ok y"
  by simp

lemma if_Err_Panic_iff [outcome_simps]: "(if b then Err e else m) = Panic \<longleftrightarrow> \<not> b \<and> m = Panic"
  by simp

lemma guard_err_simps [simp]: "guard_err False e = Ok ()" "guard_err True e = Err e"
  by (simp_all add: guard_err_def)

lemma and_then_cong [fundef_cong]:
  "m = m' \<Longrightarrow> (\<And>x. m' = Ok x \<Longrightarrow> f x = g x) \<Longrightarrow> and_then m f = and_then m' g"
  by (cases m') auto

lemma and_then_assoc: "and_then (and_then m f) g = and_then m (\<lambda>x. and_then (f x) g)"
  by (cases m) auto

section \<open>Machine arithmetic\<close>

text \<open>
  \<^verbatim>\<open>usize\<close> and \<^verbatim>\<open>u64\<close> are 64 bits wide on the supported platform. A value is a \<open>nat\<close>
  below \<open>2 ^ 64\<close>; the checked operations return \<open>None\<close> where Rust's do.
\<close>

type_synonym usize = nat

definition max_u64 :: nat where
  "max_u64 = 2 ^ 64 - 1"

definition checked_add :: "usize \<Rightarrow> usize \<Rightarrow> usize option" where
  "checked_add a b = (if a + b \<le> max_u64 then Some (a + b) else None)"

definition checked_sub :: "usize \<Rightarrow> usize \<Rightarrow> usize option" where
  "checked_sub a b = (if b \<le> a then Some (a - b) else None)"

definition checked_mul :: "usize \<Rightarrow> usize \<Rightarrow> usize option" where
  "checked_mul a b = (if a * b \<le> max_u64 then Some (a * b) else None)"

definition saturating_add :: "nat \<Rightarrow> nat \<Rightarrow> nat" where
  "saturating_add a b = min (a + b) max_u64"

text \<open>The plain operator \<^verbatim>\<open>+\<close>, whose overflow check panics.\<close>

definition add_or_panic :: "usize \<Rightarrow> usize \<Rightarrow> (usize, 'e) result" where
  "add_or_panic a b = (if a + b \<le> max_u64 then Ok (a + b) else Panic)"

lemma add_or_panic_iff [outcome_simps]:
  "add_or_panic a b = Ok c \<longleftrightarrow> c = a + b \<and> a + b \<le> max_u64"
  "add_or_panic a b \<noteq> Err e"
  "add_or_panic a b = Panic \<longleftrightarrow> max_u64 < a + b"
  by (auto simp: add_or_panic_def)

lemma checked_add_Some_iff [outcome_simps]:
  "checked_add a b = Some c \<longleftrightarrow> c = a + b \<and> a + b \<le> max_u64"
  by (auto simp: checked_add_def)

lemma checked_add_None_iff [outcome_simps]: "checked_add a b = None \<longleftrightarrow> max_u64 < a + b"
  by (auto simp: checked_add_def)

lemma checked_sub_Some_iff [outcome_simps]: "checked_sub a b = Some c \<longleftrightarrow> b \<le> a \<and> c = a - b"
  by (auto simp: checked_sub_def)

lemma checked_sub_None_iff [outcome_simps]: "checked_sub a b = None \<longleftrightarrow> a < b"
  by (auto simp: checked_sub_def)

lemma checked_mul_Some_iff [outcome_simps]:
  "checked_mul a b = Some c \<longleftrightarrow> c = a * b \<and> a * b \<le> max_u64"
  by (auto simp: checked_mul_def)

lemma saturating_add_le_max: "saturating_add a b \<le> max_u64"
  by (simp add: saturating_add_def)

section \<open>Byte strings\<close>

type_synonym u8 = "8 word"
type_synonym u16 = "16 word"
type_synonym u32 = "32 word"
type_synonym bytes = "u8 list"

definition byte_at :: "'a list \<Rightarrow> usize \<Rightarrow> ('a, 'e) result" where
  "byte_at xs i = (if i < length xs then Ok (xs ! i) else Panic)"

definition subslice :: "'a list \<Rightarrow> usize \<Rightarrow> usize \<Rightarrow> ('a list, 'e) result" where
  "subslice xs a b = (if a \<le> b \<and> b \<le> length xs then Ok (take (b - a) (drop a xs)) else Panic)"

lemma byte_at_Ok_iff [outcome_simps]: "byte_at xs i = Ok x \<longleftrightarrow> i < length xs \<and> x = xs ! i"
  by (auto simp: byte_at_def)

lemma byte_at_Panic_iff [outcome_simps]: "byte_at xs i = Panic \<longleftrightarrow> length xs \<le> i"
  by (auto simp: byte_at_def)

lemma byte_at_not_Err [simp]: "byte_at xs i \<noteq> Err e"
  by (simp add: byte_at_def)

lemma byte_at_in_range [simp]: "i < length xs \<Longrightarrow> byte_at xs i = Ok (xs ! i)"
  by (simp add: byte_at_def)

lemma subslice_Ok_iff [outcome_simps]:
  "subslice xs a b = Ok ys \<longleftrightarrow> a \<le> b \<and> b \<le> length xs \<and> ys = take (b - a) (drop a xs)"
  by (auto simp: subslice_def)

lemma subslice_Panic_iff [outcome_simps]:
  "subslice xs a b = Panic \<longleftrightarrow> \<not> (a \<le> b \<and> b \<le> length xs)"
  by (auto simp: subslice_def)

lemma subslice_not_Err [simp]: "subslice xs a b \<noteq> Err e"
  by (simp add: subslice_def)

lemma subslice_in_range [simp]:
  "a \<le> b \<Longrightarrow> b \<le> length xs \<Longrightarrow> subslice xs a b = Ok (take (b - a) (drop a xs))"
  by (simp add: subslice_def)

text \<open>Adjacent pieces of a byte string put together again.\<close>

lemma take_drop_split: "a \<le> b \<Longrightarrow> take a xs @ take (b - a) (drop a xs) = take b xs"
  by (metis le_add_diff_inverse take_add)

lemma take_Suc_drop: "i < length xs \<Longrightarrow> take i xs @ [xs ! i] = take (Suc i) xs"
  by (simp add: take_Suc_conv_app_nth)

lemma nth_take_drop: "i < n \<Longrightarrow> a + i < length xs \<Longrightarrow> take n (drop a xs) ! i = xs ! (a + i)"
  by simp

subsection \<open>Big-endian integers\<close>

definition be16 :: "u8 \<Rightarrow> u8 \<Rightarrow> u16" where
  "be16 a b = word_of_nat (unat a * 256 + unat b)"

definition be32 :: "u8 \<Rightarrow> u8 \<Rightarrow> u8 \<Rightarrow> u8 \<Rightarrow> u32" where
  "be32 a b c d = word_of_nat (((unat a * 256 + unat b) * 256 + unat c) * 256 + unat d)"

definition u16_bytes :: "u16 \<Rightarrow> bytes" where
  "u16_bytes w = [word_of_nat (unat w div 256), word_of_nat (unat w mod 256)]"

definition u32_bytes :: "u32 \<Rightarrow> bytes" where
  "u32_bytes w = [word_of_nat (unat w div 256 div 256 div 256), word_of_nat (unat w div 256 div 256 mod 256),
     word_of_nat (unat w div 256 mod 256), word_of_nat (unat w mod 256)]"

lemma unat_u8_less: "unat (a :: u8) < 256"
  using unsigned_less [of a] by simp

lemma unat_of_nat8: "unat (word_of_nat n :: u8) = n mod 256"
  by (simp add: unsigned_of_nat take_bit_eq_mod)

lemma unat_of_nat16: "unat (word_of_nat n :: u16) = n mod 65536"
  by (simp add: unsigned_of_nat take_bit_eq_mod)

lemma unat_of_nat32: "unat (word_of_nat n :: u32) = n mod 4294967296"
  by (simp add: unsigned_of_nat take_bit_eq_mod)

lemma word_of_nat_unat: "n = unat (a :: 'a :: len word) \<Longrightarrow> word_of_nat n = a"
  by simp

lemma low_digit: "(y::nat) < 256 \<Longrightarrow> (x * 256 + y) mod 256 = y"
  by simp

lemma high_digit: "(y::nat) < 256 \<Longrightarrow> (x * 256 + y) div 256 = x"
  by simp

lemma digit_pair_less: "(x::nat) < n \<Longrightarrow> (y::nat) < 256 \<Longrightarrow> x * 256 + y < n * 256"
  by linarith

lemma unat_be16 [wire_simps]: "unat (be16 a b) = unat a * 256 + unat b"
proof -
  have "unat a * 256 + unat b < 256 * 256"
    by (rule digit_pair_less) (rule unat_u8_less)+
  then show ?thesis
    unfolding be16_def unat_of_nat16 by simp
qed

lemma unat_be32 [wire_simps]:
  "unat (be32 a b c d) = ((unat a * 256 + unat b) * 256 + unat c) * 256 + unat d"
proof -
  have "((unat a * 256 + unat b) * 256 + unat c) * 256 + unat d < 256 * 256 * 256 * 256"
    by (intro digit_pair_less unat_u8_less)
  then show ?thesis
    unfolding be32_def unat_of_nat32 by simp
qed

lemmas digit_simps = low_digit [OF unat_u8_less] high_digit [OF unat_u8_less]

lemma u16_bytes_be16 [simp, wire_simps]: "u16_bytes (be16 a b) = [a, b]"
  unfolding u16_bytes_def unat_be16 digit_simps by simp

lemma u32_bytes_be32 [simp, wire_simps]: "u32_bytes (be32 a b c d) = [a, b, c, d]"
  unfolding u32_bytes_def unat_be32 digit_simps by simp

lemma be16_u16_bytes: "be16 (word_of_nat (unat w div 256)) (word_of_nat (unat w mod 256)) = w"
proof (rule word_unat_eq_iff [THEN iffD2])
  have "unat w < 256 * 256" using unsigned_less [of w] by simp
  then have "unat w div 256 < 256" by (simp add: less_mult_imp_div_less)
  then show "unat (be16 (word_of_nat (unat w div 256)) (word_of_nat (unat w mod 256))) = unat w"
    unfolding unat_be16 unat_of_nat8 by simp
qed

lemma be32_u32_bytes:
  "be32 (word_of_nat (unat w div 256 div 256 div 256)) (word_of_nat (unat w div 256 div 256 mod 256))
     (word_of_nat (unat w div 256 mod 256)) (word_of_nat (unat w mod 256)) = w"
proof (rule word_unat_eq_iff [THEN iffD2])
  have "unat w < 256 * 256 * 256 * 256" using unsigned_less [of w] by simp
  then have "unat w div 256 div 256 div 256 < 256"
    by (intro less_mult_imp_div_less) simp
  then show "unat (be32 (word_of_nat (unat w div 256 div 256 div 256))
      (word_of_nat (unat w div 256 div 256 mod 256))
      (word_of_nat (unat w div 256 mod 256)) (word_of_nat (unat w mod 256))) = unat w"
    unfolding unat_be32 unat_of_nat8 by (simp only: mod_mod_trivial mod_less div_mult_mod_eq)
qed

lemma length_u16_bytes [simp]: "length (u16_bytes w) = 2"
  by (simp add: u16_bytes_def)

lemma length_u32_bytes [simp]: "length (u32_bytes w) = 4"
  by (simp add: u32_bytes_def)

subsection \<open>Ordered sets\<close>

text \<open>An ordered set (\<^verbatim>\<open>BTreeSet\<close>, \<^verbatim>\<open>imbl::OrdSet\<close>) is its increasing list of elements.\<close>

fun set_insert :: "('a :: linorder) \<Rightarrow> 'a list \<Rightarrow> 'a list" where
  "set_insert x [] = [x]"
| "set_insert x (y # ys) =
     (if x < y then x # y # ys else if x = y then y # ys else y # set_insert x ys)"

lemma set_set_insert [simp]: "set (set_insert x ys) = insert x (set ys)"
  by (induction ys) auto

lemma set_insert_not_Nil [simp]: "set_insert x ys \<noteq> []"
  by (cases ys) auto

lemma sorted_set_insert: "sorted_wrt (<) ys \<Longrightarrow> sorted_wrt (<) (set_insert x ys)"
  by (induction ys) auto

lemma sorted_removeAll: "sorted_wrt (<) ys \<Longrightarrow> sorted_wrt (<) (removeAll x ys)"
  by (simp add: removeAll_filter_not_eq sorted_wrt_filter)

lemma sorted_wrt_less_unique:
  fixes xs ys :: "('a :: linorder) list"
  shows "sorted_wrt (<) xs \<Longrightarrow> sorted_wrt (<) ys \<Longrightarrow> set xs = set ys \<Longrightarrow> xs = ys"
  by (intro sorted_distinct_set_unique) (simp_all add: strict_sorted_iff)

lemma set_insert_absorb: "sorted_wrt (<) ys \<Longrightarrow> x \<in> set ys \<Longrightarrow> set_insert x ys = ys"
  by (rule sorted_wrt_less_unique) (auto simp: sorted_set_insert)

section \<open>Decimal text\<close>

text \<open>The decimal digits of a number, as \<^verbatim>\<open>Display\<close> prints it.\<close>

fun show_nat :: "nat \<Rightarrow> string" where
  "show_nat n =
     (if n < 10 then [char_of (48 + n)] else show_nat (n div 10) @ [char_of (48 + n mod 10)])"

declare show_nat.simps [simp del]

section \<open>Single bits\<close>

lemma less_8_cases: "(n::nat) < 8 \<Longrightarrow> n \<in> {0, 1, 2, 3, 4, 5, 6, 7}"
  by auto

lemma less_16_cases: "(n::nat) < 16 \<Longrightarrow> n \<in> {0, 1, 2, 3, 4, 5, 6, 7, 8, 9, 10, 11, 12, 13, 14, 15}"
  by (simp add: numeral_eq_Suc less_Suc_eq)

lemma u8_eq_bits: "(a::u8) = b \<longleftrightarrow> (\<forall>n\<in>{0, 1, 2, 3, 4, 5, 6, 7}. bit a n = bit b n)"
proof
  assume "\<forall>n\<in>{0, 1, 2, 3, 4, 5, 6, 7}. bit a n = bit b n"
  moreover have "n < LENGTH(8) \<Longrightarrow> n < 8" for n by simp
  ultimately show "a = b" using less_8_cases by (intro bit_word_eqI) blast
qed simp

lemma u16_eq_bits: "(a::u16) = b \<longleftrightarrow> (\<forall>n\<in>{0, 1, 2, 3, 4, 5, 6, 7, 8, 9, 10, 11, 12, 13, 14, 15}. bit a n = bit b n)"
proof
  assume "\<forall>n\<in>{0, 1, 2, 3, 4, 5, 6, 7, 8, 9, 10, 11, 12, 13, 14, 15}. bit a n = bit b n"
  moreover have "n < LENGTH(16) \<Longrightarrow> n < 16" for n by simp
  ultimately show "a = b" using less_16_cases by (intro bit_word_eqI) blast
qed simp

lemma be16_word_cat: "be16 a b = word_cat a b"
proof (rule word_unat_eq_iff [THEN iffD2])
  have "unat a * 256 + unat b < 256 * 256"
    by (rule digit_pair_less) (rule unat_u8_less)+
  moreover have "unat a * 256 < 65536" using unat_u8_less [of a] by simp
  ultimately show "unat (be16 a b) = unat (word_cat a b :: u16)"
    by (simp add: unat_be16 word_cat_eq unat_word_ariths push_bit_eq_mult unsigned_ucast_eq take_bit_eq_mod)
qed

lemma and_63_take_bit: "(x::u8) AND 63 = take_bit 6 x" 
  by (simp add: take_bit_eq_mask mask_eq_exp_minus_1)

lemma unat_and_63: "unat ((x::u8) AND 63) = unat x mod 64"
  by (simp add: and_63_take_bit take_bit_eq_mod unat_mod_distrib)

lemma and_63_le: "(x::u8) AND 63 \<le> 63"
  by (simp add: word_le_nat_alt unat_and_63)

lemma and_63_id: "(x::u8) \<le> 63 \<Longrightarrow> x AND 63 = x"
  by (simp add: word_unat_eq_iff word_le_nat_alt unat_and_63)

lemma le_63_bits: "(x::u8) \<le> 63 \<longleftrightarrow> \<not> bit x 6 \<and> \<not> bit x 7"
proof
  assume "x \<le> 63" then have "x = x AND 63" by (simp add: and_63_id)
  then show "\<not> bit x 6 \<and> \<not> bit x 7" by (simp add: u8_eq_bits bit_simps)
next
  assume "\<not> bit x 6 \<and> \<not> bit x 7" then have "x = x AND 63" by (simp add: u8_eq_bits bit_simps)
  then show "x \<le> 63" by (metis and_63_le)
qed

lemmas octet_bits = u8_eq_bits bit_simps

lemma le_7_bits: "(x :: u8) \<le> 7 \<longleftrightarrow> \<not> bit x 3 \<and> \<not> bit x 4 \<and> \<not> bit x 5 \<and> \<not> bit x 6 \<and> \<not> bit x 7"
proof -
  have "unat (take_bit 3 x) = unat x mod 8"
    by (simp add: take_bit_eq_mod unat_mod_distrib)
  then have "x \<le> 7 \<longleftrightarrow> take_bit 3 x = x"
    by (simp add: word_le_nat_alt word_unat_eq_iff mod_eq_self_iff_div_eq_0 less_Suc_eq_le [symmetric] div_eq_0_iff)
  also have "\<dots> \<longleftrightarrow> \<not> bit x 3 \<and> \<not> bit x 4 \<and> \<not> bit x 5 \<and> \<not> bit x 6 \<and> \<not> bit x 7"
    by (simp add: octet_bits)
  finally show ?thesis .
qed

lemma unat_and_3: "unat ((x::u8) AND 3) = unat x mod 4"
proof -
  have "x AND 3 = take_bit 2 x" by (simp add: take_bit_eq_mask mask_eq_exp_minus_1)
  then show ?thesis by (simp add: take_bit_eq_mod unat_mod_distrib)
qed

lemma u32_18_bits:
  assumes "(v :: u32) \<le> 0x3ffff"
  shows "be32 0 (u32_bytes v ! Suc 0 AND 3) (u32_bytes v ! 2) (u32_bytes v ! 3) = v"
proof -
  have v: "unat v < 4 * 65536" using assms by (simp add: word_le_nat_alt)
  then have top: "unat v div 256 div 256 < 4" by (simp add: less_mult_imp_div_less div_mult2_eq)
  then have zero: "unat v div 256 div 256 div 256 = 0" by simp
  have "unat (word_of_nat (unat v div 256 div 256 mod 256) AND 3 :: u8) = unat v div 256 div 256"
    using top by (simp add: unat_and_3 unat_of_nat8 del: of_nat_mod of_nat_div)
  moreover have "unat (word_of_nat (unat v div 256 div 256 mod 256) :: u8) = unat v div 256 div 256"
    using top by (simp only: unat_of_nat8) simp
  ultimately have "(word_of_nat (unat v div 256 div 256 mod 256) AND 3 :: u8) = word_of_nat (unat v div 256 div 256 mod 256)"
    by (simp only: word_unat_eq_iff)
  then show ?thesis using be32_u32_bytes [of v] unfolding u32_bytes_def zero by simp
qed

text \<open>The bytes of a field, as variables that compose back to it.\<close>

lemma u16_bytes_cases: "\<exists>a b. u16_bytes w = [a, b] \<and> be16 a b = w"
  by (simp add: u16_bytes_def be16_u16_bytes del: of_nat_mod of_nat_div)

lemma u32_bytes_cases: "\<exists>a b c d. u32_bytes w = [a, b, c, d] \<and> be32 a b c d = w"
  by (simp add: u32_bytes_def be32_u32_bytes del: of_nat_mod of_nat_div)

lemma flag_bit [wire_simps]: "drop_bit k (b :: u8) AND 1 = 0 \<longleftrightarrow> \<not> bit b k"
  by (simp add: bit_iff_odd_drop_bit even_iff_mod_2_eq_zero and_one_eq)

end
