(* ===== verification/Opc_Protocol.thy ===== *)
theory Opc_Protocol
  imports Opc_Prelude
begin

text \<open>
  The codec framework of \<^verbatim>\<open>crates/opc-protocol\<close>: decode and encode contexts with their
  limits (\<^verbatim>\<open>context.rs\<close>), the structured decode and encode errors (\<^verbatim>\<open>error.rs\<close>), and the
  contracts of the codec traits (\<^verbatim>\<open>traits.rs\<close>) as locales: a datagram codec whose decoder
  inverts its encoder, and a stream codec whose decoder also leaves the rest of the input
  untouched. The protocol components interpret them.
\<close>

section \<open>Errors\<close>

record spec_ref =
  sr_body :: string
  sr_doc :: string
  sr_section :: string
  sr_table :: "string option"

definition spec_ref_new :: "string \<Rightarrow> string \<Rightarrow> string \<Rightarrow> spec_ref" where
  "spec_ref_new body doc sect =
     \<lparr>sr_body = body, sr_doc = doc, sr_section = sect, sr_table = None\<rparr>"

datatype decode_error_code =
    Truncated
  | InvalidLength string
  | LengthOverflow
  | DepthExceeded
  | IeCountExceeded
  | MessageLengthExceeded
  | UnknownCriticalIe
  | DuplicateIe
  | InvalidEnumValue string nat
  | Structural string
  | Incomplete

datatype encode_error_code =
    CapacityExceeded usize usize
  | EncodeLengthOverflow
  | EncodeStructural string

record decode_error =
  de_code :: decode_error_code
  de_offset :: usize
  de_spec_ref :: "spec_ref option"

record encode_error =
  ee_code :: encode_error_code
  ee_spec_ref :: "spec_ref option"

definition decode_error_new :: "decode_error_code \<Rightarrow> usize \<Rightarrow> decode_error" where
  "decode_error_new code offset = \<lparr>de_code = code, de_offset = offset, de_spec_ref = None\<rparr>"

definition decode_with_spec_ref :: "spec_ref \<Rightarrow> decode_error \<Rightarrow> decode_error" where
  "decode_with_spec_ref r e = e\<lparr>de_spec_ref := Some r\<rparr>"

definition encode_error_new :: "encode_error_code \<Rightarrow> encode_error" where
  "encode_error_new code = \<lparr>ee_code = code, ee_spec_ref = None\<rparr>"

definition encode_length_overflow :: encode_error where
  "encode_length_overflow = encode_error_new EncodeLengthOverflow"

definition encode_with_spec_ref :: "spec_ref \<Rightarrow> encode_error \<Rightarrow> encode_error" where
  "encode_with_spec_ref r e = e\<lparr>ee_spec_ref := Some r\<rparr>"

section \<open>Contexts\<close>

datatype validation_level = HeaderOnly | StructuralLevel | Strict | ProcedureAware

datatype unknown_ie_policy = UnknownDrop | UnknownPreserve | UnknownReject

datatype duplicate_ie_policy = DuplicateFirst | DuplicateLast | DuplicateReject

record allocation_budget =
  decode_heap_allocations_fast_path :: usize
  decode_max_temporary_bytes :: usize
  encode_max_temporary_bytes :: usize

definition fast_path_budget :: allocation_budget where
  "fast_path_budget = \<lparr>decode_heap_allocations_fast_path = 0,
     decode_max_temporary_bytes = 1024, encode_max_temporary_bytes = 1024\<rparr>"

record decode_context =
  dc_protocol_version :: u8
  dc_max_depth :: usize
  dc_max_ies :: usize
  dc_max_message_len :: usize
  dc_unknown_ie_policy :: unknown_ie_policy
  dc_duplicate_ie_policy :: duplicate_ie_policy
  dc_validation_level :: validation_level
  dc_allocation_budget :: allocation_budget

definition decode_context_conservative :: decode_context where
  "decode_context_conservative = \<lparr>dc_protocol_version = 1, dc_max_depth = 8, dc_max_ies = 128,
     dc_max_message_len = 8192, dc_unknown_ie_policy = UnknownReject,
     dc_duplicate_ie_policy = DuplicateReject, dc_validation_level = Strict,
     dc_allocation_budget = fast_path_budget\<rparr>"

definition decode_context_default :: decode_context where
  "decode_context_default = \<lparr>dc_protocol_version = 1, dc_max_depth = 16, dc_max_ies = 256,
     dc_max_message_len = 65535, dc_unknown_ie_policy = UnknownPreserve,
     dc_duplicate_ie_policy = DuplicateLast, dc_validation_level = StructuralLevel,
     dc_allocation_budget = fast_path_budget\<rparr>"

record encode_context =
  ec_protocol_version :: u8
  ec_raw_preserving :: bool
  ec_max_message_len :: usize

definition encode_context_default :: encode_context where
  "encode_context_default =
     \<lparr>ec_protocol_version = 1, ec_raw_preserving = False, ec_max_message_len = 65535\<rparr>"

definition check_capacity :: "encode_context \<Rightarrow> usize \<Rightarrow> (unit, encode_error) result" where
  "check_capacity ctx required =
     (if required > ec_max_message_len ctx
      then Err (encode_error_new (CapacityExceeded required (ec_max_message_len ctx)))
      else Ok ())"

lemma check_capacity_Ok_iff [outcome_simps]:
  "check_capacity ctx n = Ok u \<longleftrightarrow> n \<le> ec_max_message_len ctx"
  by (auto simp: check_capacity_def)

lemma check_capacity_not_Panic [simp]: "check_capacity ctx n \<noteq> Panic"
  by (simp add: check_capacity_def)

section \<open>Codec contracts\<close>

text \<open>
  The round-trip law that \<^verbatim>\<open>traits.rs\<close> documents for canonical encoding, for codecs that
  own a whole datagram. \<open>valid\<close> names the model values the encoder accepts.
\<close>

locale datagram_codec =
  fixes enc :: "'a \<Rightarrow> (bytes, 'e) result"
    and dec :: "bytes \<Rightarrow> ('a, 'd) result"
    and valid :: "'a \<Rightarrow> bool"
  assumes enc_total: "valid x \<Longrightarrow> \<exists>w. enc x = Ok w"
    and dec_enc: "valid x \<Longrightarrow> enc x = Ok w \<Longrightarrow> dec w = Ok x"
begin

lemma enc_injective:
  assumes "valid x" "valid y" "enc x = enc y"
  shows "x = y"
proof -
  obtain w where "enc x = Ok w" using enc_total assms(1) by blast
  with assms have "dec w = Ok x" and "dec w = Ok y" by (metis dec_enc)+
  then show ?thesis by simp
qed

lemma dec_enc_ex: "valid x \<Longrightarrow> \<exists>w. enc x = Ok w \<and> dec w = Ok x"
  using enc_total dec_enc by blast

end

text \<open>
  A stream codec reads one message from the front of its input and returns the unconsumed
  tail, as \<^verbatim>\<open>BorrowDecode\<close> does. The law is stated for any tail that the decoder's length
  limit still admits; \<open>limit\<close> bounds the input.
\<close>

locale stream_codec =
  fixes enc :: "'a \<Rightarrow> (bytes, 'e) result"
    and dec :: "bytes \<Rightarrow> (bytes \<times> 'a, 'd) result"
    and valid :: "'a \<Rightarrow> bool"
    and limit :: nat
  assumes stream_enc_total: "valid x \<Longrightarrow> \<exists>w. enc x = Ok w"
    and stream_dec_enc:
      "valid x \<Longrightarrow> enc x = Ok w \<Longrightarrow> length (w @ rest) \<le> limit \<Longrightarrow> dec (w @ rest) = Ok (rest, x)"

begin

text \<open>No encoding is a proper prefix of another one: the messages are self-delimiting.\<close>

lemma enc_prefix_free:
  assumes "valid x" "valid y" "enc x = Ok w" "enc y = Ok (w @ v)" "length (w @ v) \<le> limit"
  shows "x = y \<and> v = []"
proof -
  from assms have "dec (w @ v) = Ok (v, x)" by (intro stream_dec_enc)
  moreover from assms have "dec ((w @ v) @ []) = Ok ([], y)"
    by (intro stream_dec_enc) simp_all
  ultimately show ?thesis by simp
qed

end

text \<open>
  Decoding a run of messages: the reader of a packet train calls the stream decoder on the
  tail it returned. \<open>decode_train\<close> does so \<open>n\<close> times.
\<close>

fun decode_train ::
  "(bytes \<Rightarrow> (bytes \<times> 'a, 'd) result) \<Rightarrow> nat \<Rightarrow> bytes \<Rightarrow> (bytes \<times> 'a list, 'd) result" where
  "decode_train dec 0 input = Ok (input, [])"
| "decode_train dec (Suc n) input =
     and_then (dec input) (\<lambda>(rest, x).
     and_then (decode_train dec n rest) (\<lambda>(tail, xs). Ok (tail, x # xs)))"

context stream_codec
begin

lemma decode_train_concat:
  assumes "list_all2 (\<lambda>x w. valid x \<and> enc x = Ok w) xs ws"
    and "length (concat ws @ rest) \<le> limit"
  shows "decode_train dec (length xs) (concat ws @ rest) = Ok (rest, xs)"
  using assms
proof (induction xs ws rule: list_all2_induct)
  case Nil
  then show ?case by simp
next
  case (Cons x xs w ws)
  then have "dec (w @ concat ws @ rest) = Ok (concat ws @ rest, x)"
    by (intro stream_dec_enc) simp_all
  moreover from Cons have "decode_train dec (length xs) (concat ws @ rest) = Ok (rest, xs)"
    by simp
  ultimately show ?case by simp
qed

end

end
