(* ===== verification/Nwu_Gre.thy ===== *)
theory Nwu_Gre
  imports Opc_Protocol
begin

text \<open>
  The directional NWu GRE codec of \<^verbatim>\<open>crates/opc-proto-gre/src/lib.rs\<close>: the checked six-bit
  QFI, the directional QoS fields, packet construction, decoding and encoding, and the owned
  variants. The lemmas show the round trip in both directions, the exact acceptance
  condition of the decoder and that it never panics.
\<close>

section \<open>Model\<close>

definition HEADER_LEN :: usize where
  "HEADER_LEN = 8"

datatype direction = Uplink | Downlink

datatype qfi = Qfi (qfi_value: u8)

datatype qfi_error = QfiError

definition qfi_new :: "u8 \<Rightarrow> (qfi, qfi_error) result" where
  "qfi_new v = (if v \<le> 63 then Ok (Qfi v) else Err QfiError)"

datatype rqi = NotIndicated | Indicated

datatype directional_qos =
    UplinkQos qfi
  | DownlinkQos qfi rqi

fun qos_qfi :: "directional_qos \<Rightarrow> qfi" where
  "qos_qfi (UplinkQos q) = q"
| "qos_qfi (DownlinkQos q _) = q"

fun qos_direction :: "directional_qos \<Rightarrow> direction" where
  "qos_direction (UplinkQos _) = Uplink"
| "qos_direction (DownlinkQos _ _) = Downlink"

fun rqi_bit :: "directional_qos \<Rightarrow> u8" where
  "rqi_bit (DownlinkQos _ Indicated) = 0x80"
| "rqi_bit _ = 0"

record nwu_gre_packet =
  gre_qos :: directional_qos
  gre_payload :: bytes

definition gre_spec_ref :: spec_ref where
  "gre_spec_ref = spec_ref_new ''3gpp'' ''TS 24.502 V18.8.0'' ''9.3.3''"

definition gre_decode_error :: "decode_error_code \<Rightarrow> usize \<Rightarrow> decode_error" where
  "gre_decode_error code offset = decode_with_spec_ref gre_spec_ref (decode_error_new code offset)"

definition structural_decode :: "string \<Rightarrow> usize \<Rightarrow> decode_error" where
  "structural_decode reason offset = gre_decode_error (Structural reason) offset"

definition structural_encode :: "string \<Rightarrow> encode_error" where
  "structural_encode reason =
     encode_with_spec_ref gre_spec_ref (encode_error_new (EncodeStructural reason))"

definition encoded_len :: "usize \<Rightarrow> encode_context \<Rightarrow> (usize, encode_error) result" where
  "encoded_len payload_len ctx =
     (if ec_raw_preserving ctx
      then Err (structural_encode ''raw-preserving NWu encoding is unsupported'')
      else if payload_len = 0
      then Err (structural_encode ''NWu user payload is empty'')
      else and_then (ok_or encode_length_overflow (checked_add HEADER_LEN payload_len)) (\<lambda>len.
        if len > ec_max_message_len ctx
        then Err (structural_encode ''NWu message length exceeds limit'')
        else Ok len))"

definition gre_packet_new ::
  "directional_qos \<Rightarrow> bytes \<Rightarrow> encode_context \<Rightarrow> (nwu_gre_packet, encode_error) result" where
  "gre_packet_new qos payload ctx =
     and_then (encoded_len (length payload) ctx) (\<lambda>_.
       Ok \<lparr>gre_qos = qos, gre_payload = payload\<rparr>)"

definition gre_decode ::
  "bytes \<Rightarrow> direction \<Rightarrow> decode_context \<Rightarrow> (nwu_gre_packet, decode_error) result" where
  "gre_decode input direction ctx =
     (if length input > dc_max_message_len ctx
      then Err (gre_decode_error MessageLengthExceeded 0)
      else if length input < HEADER_LEN
      then Err (gre_decode_error Truncated 0)
      else
      and_then (byte_at input 0) (\<lambda>b0.
      and_then (byte_at input 1) (\<lambda>b1.
      let flags = be16 b0 b1 in
      if flags AND 0xfc07 \<noteq> 0x2000
      then Err (structural_decode ''unsupported NWu GRE flags or version'' 0)
      else if length input = HEADER_LEN
      then Err (structural_decode ''NWu user payload is empty'' HEADER_LEN)
      else
      and_then (byte_at input 4) (\<lambda>b4.
      and_then (byte_at input 7) (\<lambda>b7.
      let q = Qfi (b4 AND 0x3f);
          r = (if b7 AND 0x80 = 0 then NotIndicated else Indicated) in
      and_then
        (case direction of
           Uplink \<Rightarrow>
             (if r = Indicated then Err (structural_decode ''RQI is forbidden on uplink'' 7)
              else Ok (UplinkQos q))
         | Downlink \<Rightarrow> Ok (DownlinkQos q r)) (\<lambda>qos.
      and_then (subslice input HEADER_LEN (length input)) (\<lambda>payload.
      Ok \<lparr>gre_qos = qos, gre_payload = payload\<rparr>)))))))"

definition gre_wire_len :: "nwu_gre_packet \<Rightarrow> encode_context \<Rightarrow> (usize, encode_error) result" where
  "gre_wire_len p ctx = encoded_len (length (gre_payload p)) ctx"

text \<open>\<open>gre_encode\<close> appends to the buffer it is given; the result is the new buffer.\<close>

definition gre_encode ::
  "nwu_gre_packet \<Rightarrow> bytes \<Rightarrow> encode_context \<Rightarrow> (bytes, encode_error) result" where
  "gre_encode p dst ctx =
     and_then (gre_wire_len p ctx) (\<lambda>len.
     and_then (ok_or encode_length_overflow (checked_add (length dst) len)) (\<lambda>_.
     Ok (dst @ [0x20, 0, 0, 0, qfi_value (qos_qfi (gre_qos p)), 0, 0, rqi_bit (gre_qos p)]
             @ gre_payload p)))"

record owned_nwu_gre_packet =
  owned_gre_qos :: directional_qos
  owned_gre_payload :: bytes

definition owned_gre_new ::
  "directional_qos \<Rightarrow> bytes \<Rightarrow> encode_context \<Rightarrow> (owned_nwu_gre_packet, encode_error) result" where
  "owned_gre_new qos payload ctx =
     and_then (encoded_len (length payload) ctx) (\<lambda>_.
       Ok \<lparr>owned_gre_qos = qos, owned_gre_payload = payload\<rparr>)"

definition owned_gre_decode ::
  "bytes \<Rightarrow> direction \<Rightarrow> decode_context \<Rightarrow> (owned_nwu_gre_packet, decode_error) result" where
  "owned_gre_decode input direction ctx =
     and_then (gre_decode input direction ctx) (\<lambda>p.
     and_then (subslice input HEADER_LEN (length input)) (\<lambda>payload.
       Ok \<lparr>owned_gre_qos = gre_qos p, owned_gre_payload = payload\<rparr>))"

definition as_borrowed :: "owned_nwu_gre_packet \<Rightarrow> nwu_gre_packet" where
  "as_borrowed p = \<lparr>gre_qos = owned_gre_qos p, gre_payload = owned_gre_payload p\<rparr>"

definition gre_to_owned_pdu :: "nwu_gre_packet \<Rightarrow> owned_nwu_gre_packet" where
  "gre_to_owned_pdu p = \<lparr>owned_gre_qos = gre_qos p, owned_gre_payload = gre_payload p\<rparr>"

definition owned_gre_wire_len ::
  "owned_nwu_gre_packet \<Rightarrow> encode_context \<Rightarrow> (usize, encode_error) result" where
  "owned_gre_wire_len p ctx = gre_wire_len (as_borrowed p) ctx"

definition owned_gre_encode ::
  "owned_nwu_gre_packet \<Rightarrow> bytes \<Rightarrow> encode_context \<Rightarrow> (bytes, encode_error) result" where
  "owned_gre_encode p dst ctx = gre_encode (as_borrowed p) dst ctx"

section \<open>Decoding and encoding\<close>

text \<open>
  The flag test on the first two octets, octet by octet: the mask leaves the version, the
  recursion and routing bits and \<open>K\<close>, and only \<open>K\<close> may be set.
\<close>

lemma flags_test_octets [wire_simps]:
  "be16 b0 b1 AND 0xfc07 = 0x2000 \<longleftrightarrow> b0 AND 0xfc = 0x20 \<and> b1 AND 0x07 = 0"
  by (simp add: be16_word_cat u16_eq_bits octet_bits) blast

text \<open>The datagrams the decoder accepts, and the packet each one carries.\<close>

definition gre_accepts :: "bytes \<Rightarrow> direction \<Rightarrow> decode_context \<Rightarrow> bool" where
  "gre_accepts input d ctx \<longleftrightarrow>
     HEADER_LEN < length input \<and> length input \<le> dc_max_message_len ctx \<and>
     input ! 0 AND 0xfc = 0x20 \<and> input ! 1 AND 0x07 = 0 \<and>
     (d = Uplink \<longrightarrow> input ! 7 AND 0x80 = 0)"

fun gre_carried_qos :: "bytes \<Rightarrow> direction \<Rightarrow> directional_qos" where
  "gre_carried_qos input Uplink = UplinkQos (Qfi (input ! 4 AND 0x3f))"
| "gre_carried_qos input Downlink = DownlinkQos (Qfi (input ! 4 AND 0x3f))
     (if input ! 7 AND 0x80 = 0 then NotIndicated else Indicated)"

lemma gre_decode_Ok_iff:
  "gre_decode input d ctx = Ok p \<longleftrightarrow> gre_accepts input d ctx \<and>
     p = \<lparr>gre_qos = gre_carried_qos input d, gre_payload = drop HEADER_LEN input\<rparr>"
  by (cases d) (auto simp: gre_decode_def gre_accepts_def HEADER_LEN_def Let_def
      flags_test_octets outcome_simps split: if_splits)

lemma gre_decode_not_Panic: "gre_decode input d ctx \<noteq> Panic"
  by (cases d) (auto simp: gre_decode_def HEADER_LEN_def Let_def outcome_simps split: if_splits)

definition gre_fits :: "encode_context \<Rightarrow> decode_context \<Rightarrow> nwu_gre_packet \<Rightarrow> bool" where
  "gre_fits ctx dctx p \<longleftrightarrow>
     \<not> ec_raw_preserving ctx \<and> gre_payload p \<noteq> [] \<and> qfi_value (qos_qfi (gre_qos p)) \<le> 63 \<and>
     HEADER_LEN + length (gre_payload p) \<le>
       min max_u64 (min (ec_max_message_len ctx) (dc_max_message_len dctx))"

lemma encoded_len_Ok_iff [outcome_simps]:
  "encoded_len n ctx = Ok len \<longleftrightarrow>
     \<not> ec_raw_preserving ctx \<and> n \<noteq> 0 \<and> len = HEADER_LEN + n \<and> len \<le> max_u64 \<and>
     len \<le> ec_max_message_len ctx"
  by (auto simp: encoded_len_def outcome_simps split: if_splits)

lemma gre_encode_Ok_iff:
  "gre_encode p dst ctx = Ok w \<longleftrightarrow>
     encoded_len (length (gre_payload p)) ctx = Ok (HEADER_LEN + length (gre_payload p)) \<and>
     length dst + HEADER_LEN + length (gre_payload p) \<le> max_u64 \<and>
     w = dst @ [0x20, 0, 0, 0, qfi_value (qos_qfi (gre_qos p)), 0, 0, rqi_bit (gre_qos p)]
             @ gre_payload p"
  by (auto simp: gre_encode_def gre_wire_len_def outcome_simps)

lemma gre_decode_encoded:
  assumes "gre_fits ctx dctx p" and "gre_encode p [] ctx = Ok w"
  shows "gre_decode w (qos_direction (gre_qos p)) dctx = Ok p"
proof -
  from assms(2) have w: "w = [0x20, 0, 0, 0, qfi_value (qos_qfi (gre_qos p)), 0, 0,
      rqi_bit (gre_qos p)] @ gre_payload p"
    by (simp add: gre_encode_Ok_iff)
  obtain q r where "gre_qos p = UplinkQos (Qfi q) \<or> gre_qos p = DownlinkQos (Qfi q) r"
    by (metis directional_qos.exhaust qfi.exhaust)
  with assms(1) w show ?thesis
    by (cases r; cases "gre_payload p")
       (auto simp: gre_decode_Ok_iff gre_accepts_def gre_fits_def HEADER_LEN_def and_63_id
         intro!: nwu_gre_packet.equality)
qed

interpretation gre_dgram: datagram_codec "\<lambda>p. gre_encode p [] ctx" "\<lambda>w. gre_decode w d dctx"
    "\<lambda>p. gre_fits ctx dctx p \<and> qos_direction (gre_qos p) = d" for ctx dctx d
proof unfold_locales
  fix p assume "gre_fits ctx dctx p \<and> qos_direction (gre_qos p) = d"
  then show "\<exists>w. gre_encode p [] ctx = Ok w"
    by (auto simp: gre_encode_Ok_iff gre_fits_def outcome_simps)
next
  fix p w assume "gre_fits ctx dctx p \<and> qos_direction (gre_qos p) = d" "gre_encode p [] ctx = Ok w"
  then show "gre_decode w d dctx = Ok p" using gre_decode_encoded by blast
qed

section \<open>Properties\<close>

text \<open>
  C14. Round trip of the NWu GRE codec: a packet with a six-bit QFI and a nonempty payload
  that fits both length limits is always encoded, after whatever the buffer already holds,
  and decoding the bytes appended, with the packet's direction, gives the packet back.
\<close>

theorem gre_encode_decode:
  assumes "gre_fits ctx dctx p"
    and "length dst + HEADER_LEN + length (gre_payload p) \<le> max_u64"
  shows "\<exists>w. gre_encode p dst ctx = Ok (dst @ w) \<and>
             gre_decode w (qos_direction (gre_qos p)) dctx = Ok p"
proof -
  obtain w where w: "gre_encode p [] ctx = Ok w"
    and d: "gre_decode w (qos_direction (gre_qos p)) dctx = Ok p"
    using gre_dgram.dec_enc_ex [of ctx dctx p] assms(1) by blast
  from w assms(2) have "gre_encode p dst ctx = Ok (dst @ w)"
    by (simp add: gre_encode_Ok_iff)
  with d show ?thesis by blast
qed

theorem gre_encode_decode_witness:
  "gre_fits encode_context_default decode_context_default
     \<lparr>gre_qos = DownlinkQos (Qfi 9) Indicated, gre_payload = [0x45]\<rparr> \<and>
   (\<exists>w. gre_encode \<lparr>gre_qos = DownlinkQos (Qfi 9) Indicated, gre_payload = [0x45]\<rparr> [1, 2]
          encode_context_default = Ok ([1, 2] @ w) \<and>
        gre_decode w Downlink decode_context_default =
          Ok \<lparr>gre_qos = DownlinkQos (Qfi 9) Indicated, gre_payload = [0x45]\<rparr>)"
proof -
  let ?p = "\<lparr>gre_qos = DownlinkQos (Qfi 9) Indicated, gre_payload = [0x45]\<rparr>"
  have fits: "gre_fits encode_context_default decode_context_default ?p"
    by (simp add: gre_fits_def encode_context_default_def decode_context_default_def
        HEADER_LEN_def max_u64_def)
  have len: "length [1, 2 :: u8] + HEADER_LEN + length (gre_payload ?p) \<le> max_u64"
    by (simp add: HEADER_LEN_def max_u64_def)
  show ?thesis using fits gre_encode_decode [OF fits len] by simp
qed

text \<open>
  C15. The decoder never panics, whatever the input, the direction and the limits, and it
  accepts exactly the datagrams with the keyed-GRE flags and version, a nonempty payload
  within the length limit and, on the uplink, a clear RQI bit. The packet it returns has the
  masked QFI and the bytes after the eight-octet header.
\<close>

theorem gre_decode_exact:
  "gre_decode input d ctx \<noteq> Panic \<and>
   (gre_decode input d ctx = Ok p \<longleftrightarrow>
      8 < length input \<and> length input \<le> dc_max_message_len ctx \<and>
      input ! 0 AND 0xfc = 0x20 \<and> input ! 1 AND 0x07 = 0 \<and>
      (d = Downlink \<or> input ! 7 AND 0x80 = 0) \<and>
      p = \<lparr>gre_qos = gre_carried_qos input d, gre_payload = drop 8 input\<rparr>)"
  using gre_decode_not_Panic [of input d ctx]
  by (cases d) (auto simp: gre_decode_Ok_iff gre_accepts_def HEADER_LEN_def)

text \<open>
  C16. Re-encoding an accepted datagram normalises it: the canonical flags, protocol type
  zero, spare key bits cleared, and the same QFI, RQI and payload. A datagram that is
  already canonical is therefore reproduced byte for byte.
\<close>

theorem gre_reencode_canonical:
  assumes "gre_decode input d dctx = Ok p"
    and "\<not> ec_raw_preserving ctx" and "length input \<le> ec_max_message_len ctx"
    and "length input \<le> max_u64"
  shows "gre_encode p [] ctx =
    Ok ([0x20, 0, 0, 0, input ! 4 AND 0x3f, 0, 0, input ! 7 AND 0x80] @ drop 8 input)"
proof -
  from assms(1) have acc: "gre_accepts input d dctx"
    and p: "p = \<lparr>gre_qos = gre_carried_qos input d, gre_payload = drop 8 input\<rparr>"
    by (simp_all add: gre_decode_Ok_iff HEADER_LEN_def)
  have bit7: "b AND 0x80 = 0 \<or> b AND 0x80 = 0x80" for b :: u8
    by (simp add: octet_bits) 
  have "rqi_bit (gre_qos p) = input ! 7 AND 0x80"
    using acc bit7 [of "input ! 7"] by (cases d) (auto simp: p gre_accepts_def)
  moreover have "qfi_value (qos_qfi (gre_qos p)) = input ! 4 AND 0x3f"
    by (cases d) (simp_all add: p)
  ultimately show ?thesis
    using acc assms(2-4) by (auto simp: gre_encode_Ok_iff p gre_accepts_def HEADER_LEN_def outcome_simps)
qed

theorem gre_reencode_canonical_witness:
  "gre_encode \<lparr>gre_qos = UplinkQos (Qfi 5), gre_payload = [7]\<rparr> [] encode_context_default =
     Ok [0x20, 0, 0, 0, 5, 0, 0, 0, 7]"
proof -
  have dec: "gre_decode [0x23, 0xf8, 8, 0, 0xc5, 1, 2, 0x7f, 7] Uplink decode_context_default =
      Ok \<lparr>gre_qos = UplinkQos (Qfi 5), gre_payload = [7]\<rparr>"
    by (simp add: gre_decode_Ok_iff gre_accepts_def HEADER_LEN_def decode_context_default_def)
  show ?thesis
    using gre_reencode_canonical [OF dec, of encode_context_default]
    by (simp add: encode_context_default_def max_u64_def)
qed

end
