(* ===== verification/Nwu_Mapping.thy ===== *)
theory Nwu_Mapping
  imports Nwu_Gre
begin

text \<open>
  The QFI-to-association mapping of \<^verbatim>\<open>crates/opc-proto-gre/src/mapping.rs\<close>: the 64-bit
  set of QFIs, the bounded association table of one PDU session and direction, the selection
  of candidates for a QFI and the iterator that yields them. The bit set is shown to
  implement a set of QFIs through an interface of the operations the selection calls.
\<close>

section \<open>Model\<close>

datatype qfi_set = QfiSet "64 word"

definition qfi_set_empty :: qfi_set where
  "qfi_set_empty = QfiSet 0"

text \<open>The shift distance is a \<open>Qfi\<close>, at most 63, so the shift never overflows.\<close>

fun qfi_set_with :: "qfi_set \<Rightarrow> qfi \<Rightarrow> qfi_set" where
  "qfi_set_with (QfiSet s) q = QfiSet (s OR push_bit (unat (qfi_value q)) 1)"

fun qfi_set_contains :: "qfi_set \<Rightarrow> qfi \<Rightarrow> bool" where
  "qfi_set_contains (QfiSet s) q \<longleftrightarrow> s AND push_bit (unat (qfi_value q)) 1 \<noteq> 0"

datatype default_fallback_intent = Ineligible | Eligible

record 't flow_association =
  fa_association :: 't
  fa_qfis :: qfi_set
  fa_fallback :: default_fallback_intent

definition flow_association_new ::
  "'t \<Rightarrow> qfi_set \<Rightarrow> default_fallback_intent \<Rightarrow> 't flow_association" where
  "flow_association_new a qs f = \<lparr>fa_association = a, fa_qfis = qs, fa_fallback = f\<rparr>"

datatype mapping_error = MappingError

datatype 't flow_mapping = FlowMapping (fm_entries: "'t flow_association list")

definition flow_mapping_new ::
  "'t flow_association list \<Rightarrow> usize \<Rightarrow> ('t flow_mapping, mapping_error) result" where
  "flow_mapping_new entries max_associations =
     (if length entries > max_associations then Err MappingError else Ok (FlowMapping entries))"

datatype selection_kind = Exact | DefaultFallback | Unmapped

record 't flow_selection =
  fs_entries :: "'t flow_association list"
  fs_qfi :: qfi
  fs_kind :: selection_kind

definition select :: "'t flow_mapping \<Rightarrow> qfi \<Rightarrow> 't flow_selection" where
  "select m q =
     \<lparr>fs_entries = fm_entries m, fs_qfi = q,
      fs_kind =
        (if list_ex (\<lambda>e. qfi_set_contains (fa_qfis e) q) (fm_entries m) then Exact
         else if list_ex (\<lambda>e. fa_fallback e = Eligible) (fm_entries m) then DefaultFallback
         else Unmapped)\<rparr>"

record 't association_candidates =
  ac_remaining :: "'t flow_association list"
  ac_qfi :: qfi
  ac_kind :: selection_kind

definition candidates :: "'t flow_selection \<Rightarrow> 't association_candidates" where
  "candidates s = \<lparr>ac_remaining = fs_entries s, ac_qfi = fs_qfi s, ac_kind = fs_kind s\<rparr>"

fun candidate_matches :: "selection_kind \<Rightarrow> qfi \<Rightarrow> 't flow_association \<Rightarrow> bool" where
  "candidate_matches Exact q e \<longleftrightarrow> qfi_set_contains (fa_qfis e) q"
| "candidate_matches DefaultFallback q e \<longleftrightarrow> fa_fallback e = Eligible"
| "candidate_matches Unmapped q e \<longleftrightarrow> False"

text \<open>
  \<^verbatim>\<open>Iterator::find\<close> on the slice iterator drops the elements up to and including the one
  it returns.
\<close>

definition candidates_next ::
  "'t association_candidates \<Rightarrow> 't flow_association option \<times> 't association_candidates" where
  "candidates_next it =
     (case dropWhile (\<lambda>e. \<not> candidate_matches (ac_kind it) (ac_qfi it) e) (ac_remaining it) of
        [] \<Rightarrow> (None, it\<lparr>ac_remaining := []\<rparr>)
      | e # rest \<Rightarrow> (Some e, it\<lparr>ac_remaining := rest\<rparr>))"

definition candidates_size_hint :: "'t association_candidates \<Rightarrow> usize \<times> usize option" where
  "candidates_size_hint it = (0, Some (length (ac_remaining it)))"

lemma candidates_next_shorter:
  "candidates_next it = (Some e, it') \<Longrightarrow> length (ac_remaining it') < length (ac_remaining it)"
  using length_dropWhile_le [of "\<lambda>e. \<not> candidate_matches (ac_kind it) (ac_qfi it) e" "ac_remaining it"]
  by (auto simp: candidates_next_def split: list.splits)

text \<open>Calling \<open>candidates_next\<close> until it returns \<open>None\<close>, as a \<^verbatim>\<open>for\<close> loop does.\<close>

function drain :: "'t association_candidates \<Rightarrow> 't flow_association list" where
  "drain it = (case candidates_next it of (None, _) \<Rightarrow> [] | (Some e, it') \<Rightarrow> e # drain it')"
  by auto
termination
  by (relation "measure (\<lambda>it. length (ac_remaining it))") (auto dest: candidates_next_shorter [OF sym])

declare drain.simps [simp del]

section \<open>A set of identifiers\<close>

locale id_set =
  fixes empty :: 's and add :: "'s \<Rightarrow> 'q \<Rightarrow> 's" and mem :: "'s \<Rightarrow> 'q \<Rightarrow> bool"
    and abs :: "'s \<Rightarrow> 'q set" and valid :: "'q \<Rightarrow> bool"
  assumes abs_empty: "abs empty = {}"
    and abs_add: "valid q \<Longrightarrow> abs (add s q) = insert q (abs s)"
    and mem_abs: "valid q \<Longrightarrow> mem s q \<longleftrightarrow> q \<in> abs s"
begin

lemma abs_fold: "\<forall>q\<in>set qs. valid q \<Longrightarrow> abs (fold (\<lambda>q s. add s q) qs s) = set qs \<union> abs s"
  by (induction qs arbitrary: s) (auto simp: abs_add)

lemma mem_fold:
  "\<forall>q\<in>set qs. valid q \<Longrightarrow> valid r \<Longrightarrow> mem (fold (\<lambda>q s. add s q) qs empty) r \<longleftrightarrow> r \<in> set qs"
  by (simp add: mem_abs abs_fold abs_empty)

lemma mem_add: "valid q \<Longrightarrow> valid r \<Longrightarrow> mem (add s q) r \<longleftrightarrow> r = q \<or> mem s r"
  by (simp add: mem_abs abs_add)

end

text \<open>The set a word stands for: the six-bit QFIs whose bit is on.\<close>

definition qfi_valid :: "qfi \<Rightarrow> bool" where
  "qfi_valid q \<longleftrightarrow> qfi_value q \<le> 63"

fun qfi_set_abs :: "qfi_set \<Rightarrow> qfi set" where
  "qfi_set_abs (QfiSet s) = {q. qfi_valid q \<and> bit s (unat (qfi_value q))}"

lemma qfi_new_valid: "qfi_new v = Ok q \<Longrightarrow> qfi_valid q"
  by (auto simp: qfi_new_def qfi_valid_def split: if_splits)

lemma gre_decode_qfi_valid: "gre_decode input d ctx = Ok p \<Longrightarrow> qfi_valid (qos_qfi (gre_qos p))"
  by (cases d) (auto simp: gre_decode_Ok_iff qfi_valid_def and_63_le)

lemma qfi_valid_unat: "qfi_valid q \<Longrightarrow> unat (qfi_value q) < 64"
  by (simp add: qfi_valid_def word_le_nat_alt)

lemma qfi_value_inj: "unat (qfi_value p) = unat (qfi_value q) \<longleftrightarrow> p = q"
  by (metis qfi.expand word_unat_eq_iff)

lemma and_push_bit_one: "(s :: 64 word) AND push_bit n 1 \<noteq> 0 \<longleftrightarrow> n < 64 \<and> bit s n"
proof
  assume "s AND push_bit n 1 \<noteq> 0"
  then obtain m where "bit (s AND push_bit n 1) m" by (metis bit_eqI bit_0_eq bot_apply bot_bool_def)
  then show "n < 64 \<and> bit s n" by (auto simp: bit_simps)
next
  assume "n < 64 \<and> bit s n"
  then have "bit (s AND push_bit n 1) n" by (simp add: bit_simps)
  then show "s AND push_bit n 1 \<noteq> 0" by auto
qed

interpretation qset: id_set qfi_set_empty qfi_set_with qfi_set_contains qfi_set_abs qfi_valid
proof unfold_locales
  show "qfi_set_abs qfi_set_empty = {}" by (simp add: qfi_set_empty_def)
next
  fix q s assume "qfi_valid q"
  then show "qfi_set_abs (qfi_set_with s q) = insert q (qfi_set_abs s)"
    by (cases s) (auto simp: bit_simps qfi_value_inj dest: qfi_valid_unat)
next
  fix q s assume "qfi_valid q"
  then show "qfi_set_contains s q \<longleftrightarrow> q \<in> qfi_set_abs s"
    by (cases s) (simp only: qfi_set_contains.simps and_push_bit_one, simp add: qfi_valid_unat)
qed

lemma filter_dropWhile: "filter P xs = filter P (dropWhile (\<lambda>x. \<not> P x) xs)"
  by (induction xs) auto

lemma drain_filter:
  "drain it = filter (candidate_matches (ac_kind it) (ac_qfi it)) (ac_remaining it)"
proof (induction it rule: drain.induct)
  case (1 it)
  let ?P = "candidate_matches (ac_kind it) (ac_qfi it)"
  have skip: "filter ?P (ac_remaining it) = filter ?P (dropWhile (\<lambda>e. \<not> ?P e) (ac_remaining it))"
    by (rule filter_dropWhile)
  show ?case
  proof (cases "dropWhile (\<lambda>e. \<not> ?P e) (ac_remaining it)")
    case Nil
    have "candidates_next it = (None, it\<lparr>ac_remaining := []\<rparr>)"
      unfolding candidates_next_def Nil by simp
    moreover have "filter ?P (ac_remaining it) = []"
      using skip unfolding Nil by simp
    ultimately show ?thesis by (simp add: drain.simps [of it])
  next
    case (Cons e rest)
    then have next_it: "candidates_next it = (Some e, it\<lparr>ac_remaining := rest\<rparr>)"
      by (simp add: candidates_next_def)
    have "?P e" using Cons by (metis dropWhile_eq_Cons_conv)
    then show ?thesis using skip Cons "1.IH" [OF next_it [symmetric]] next_it
      by (simp add: drain.simps [of it])
  qed
qed

lemma candidate_matches_fun:
  "candidate_matches Exact q = (\<lambda>e. qfi_set_contains (fa_qfis e) q)"
  "candidate_matches DefaultFallback q = (\<lambda>e. fa_fallback e = Eligible)"
  "candidate_matches Unmapped q = (\<lambda>e. False)"
  by (simp_all add: fun_eq_iff)

section \<open>Properties\<close>

text \<open>
  C17. The bit set is a set of QFIs: inserting any list of QFIs into the empty set, in any
  order and with repetitions, gives a set that contains exactly the listed ones.
\<close>

theorem qfi_set_members:
  assumes "\<forall>q\<in>set qs. qfi_valid q" and "qfi_valid r"
  shows "qfi_set_contains (fold (\<lambda>q s. qfi_set_with s q) qs qfi_set_empty) r \<longleftrightarrow> r \<in> set qs"
  using assms by (rule qset.mem_fold)

theorem qfi_set_members_witness:
  "qfi_set_contains (fold (\<lambda>q s. qfi_set_with s q) [Qfi 63, Qfi 0, Qfi 63] qfi_set_empty) (Qfi 63) \<and>
   \<not> qfi_set_contains (fold (\<lambda>q s. qfi_set_with s q) [Qfi 63, Qfi 0, Qfi 63] qfi_set_empty) (Qfi 9)"
  using qfi_set_members [of "[Qfi 63, Qfi 0, Qfi 63]" "Qfi 63"]
    qfi_set_members [of "[Qfi 63, Qfi 0, Qfi 63]" "Qfi 9"]
  by (simp add: qfi_valid_def)

text \<open>
  C18. Selection for a QFI: draining the candidate iterator yields, in table order, every
  association that holds the QFI; when there is none, every association marked as default
  fallback; and nothing only when neither exists. The reported kind says which case it is.
\<close>

theorem select_candidates:
  "drain (candidates (select (FlowMapping es) q)) =
     (let exact = filter (\<lambda>e. qfi_set_contains (fa_qfis e) q) es
      in if exact \<noteq> [] then exact else filter (\<lambda>e. fa_fallback e = Eligible) es) \<and>
   (fs_kind (select (FlowMapping es) q) = Unmapped \<longleftrightarrow>
      drain (candidates (select (FlowMapping es) q)) = []) \<and>
   (fs_kind (select (FlowMapping es) q) = Exact \<longleftrightarrow>
      (\<exists>e. e \<in> set es \<and> qfi_set_contains (fa_qfis e) q))"
  by (auto simp: drain_filter candidates_def select_def Let_def filter_empty_conv list_ex_iff
      candidate_matches_fun)

end
