(* ===== verification/Gtpu_Ext.thy ===== *)
theory Gtpu_Ext
  imports Opc_Protocol
begin

text \<open>
  GTP-U extension headers, from \<^verbatim>\<open>crates/opc-proto-gtpu/src/lib.rs\<close> and
  \<^verbatim>\<open>crates/opc-proto-gtpu/src/extension.rs\<close>: comprehension classes, the lazy iterator over
  a raw chain, the PDU Session Container, the typed extension values and the encoding of one
  header. A reference reading of a chain (\<open>parse_chain\<close>) and its inverse (\<open>chain_bytes\<close>) are
  the specification the iterator is shown to implement.
\<close>

section \<open>Extension-header types and comprehension\<close>

definition GTPU_EXT_PDU_SESSION_CONTAINER :: u8 where
  "GTPU_EXT_PDU_SESSION_CONTAINER = 0x85"

definition GTPU_EXT_UDP_PORT :: u8 where
  "GTPU_EXT_UDP_PORT = 0x40"

definition GTPU_EXT_PDCP_PDU_NUMBER :: u8 where
  "GTPU_EXT_PDCP_PDU_NUMBER = 0xc0"

lemmas ext_type_codes = GTPU_EXT_PDU_SESSION_CONTAINER_def GTPU_EXT_UDP_PORT_def
  GTPU_EXT_PDCP_PDU_NUMBER_def

datatype ext_recipient = Endpoint | Intermediate | ServingGatewayReceivingGpdu

datatype ext_comprehension =
    NotRequiredForward
  | NotRequiredDiscardByIntermediate
  | RequiredByEndpoint
  | RequiredByRecipient

fun is_required_by :: "ext_comprehension \<Rightarrow> ext_recipient \<Rightarrow> bool" where
  "is_required_by NotRequiredForward _ = False"
| "is_required_by NotRequiredDiscardByIntermediate _ = False"
| "is_required_by RequiredByEndpoint Endpoint = True"
| "is_required_by RequiredByEndpoint Intermediate = False"
| "is_required_by RequiredByEndpoint ServingGatewayReceivingGpdu = False"
| "is_required_by RequiredByRecipient _ = True"

definition intermediate_discards_content :: "ext_comprehension \<Rightarrow> bool" where
  "intermediate_discards_content c \<longleftrightarrow> c = NotRequiredDiscardByIntermediate"

datatype ext_header_type = ExtHeaderType (ext_type_value: u8)

definition comprehension :: "ext_header_type \<Rightarrow> ext_comprehension" where
  "comprehension t =
     (let bits = drop_bit 6 (ext_type_value t) in
      if bits = 0 then NotRequiredForward
      else if bits = 1 then NotRequiredDiscardByIntermediate
      else if bits = 2 then RequiredByEndpoint
      else RequiredByRecipient)"

definition is_supported_by_codec :: "ext_header_type \<Rightarrow> bool" where
  "is_supported_by_codec t \<longleftrightarrow>
     (let v = ext_type_value t in
      v = 0x03 \<or> v = 0x20 \<or> v = 0x40 \<or> (0x81 \<le> v \<and> v \<le> 0x85) \<or> v = 0xc0)"

definition is_supported_by_endpoint :: "ext_header_type \<Rightarrow> bool" where
  "is_supported_by_endpoint t \<longleftrightarrow>
     ext_type_value t = GTPU_EXT_UDP_PORT \<or> ext_type_value t = GTPU_EXT_PDU_SESSION_CONTAINER"

definition unsupported_requires_comprehension_by ::
  "ext_header_type \<Rightarrow> ext_recipient \<Rightarrow> bool" where
  "unsupported_requires_comprehension_by t recipient =
     (if ext_type_value t = GTPU_EXT_PDCP_PDU_NUMBER \<and> recipient = ServingGatewayReceivingGpdu
      then False
      else \<not> is_supported_by_endpoint t \<and> is_required_by (comprehension t) recipient)"

section \<open>One extension header and the lazy iterator\<close>

record ext_header =
  eh_type :: u8
  eh_content :: bytes
  eh_next :: u8

record ext_iter =
  it_buffer :: bytes
  it_next_type :: u8

definition ext_iter_new :: "bytes \<Rightarrow> u8 \<Rightarrow> ext_iter" where
  "ext_iter_new buffer first_ext_type = \<lparr>it_buffer = buffer, it_next_type = first_ext_type\<rparr>"

text \<open>
  \<open>ext_iter_next\<close> returns the item, if any, and the iterator after the call; the item is a
  \<open>result\<close> as in the source. A slice out of range would be an \<open>Some Panic\<close> item.
\<close>

definition ext_iter_next ::
  "ext_iter \<Rightarrow> (ext_header, decode_error) result option \<times> ext_iter" where
  "ext_iter_next it =
     (let stop = it\<lparr>it_next_type := 0\<rparr>; buf = it_buffer it in
      if it_next_type it = 0 then (None, it)
      else if buf = [] then (Some (Err (decode_error_new Truncated 0)), stop)
      else let ext_len_units = unat (buf ! 0) in
      if ext_len_units = 0
      then (Some (Err (decode_error_new (InvalidLength ''extension header units is zero'') 0)), stop)
      else case checked_mul ext_len_units 4 of
        None \<Rightarrow> (Some (Err (decode_error_new LengthOverflow 0)), stop)
      | Some ext_len_bytes \<Rightarrow>
          if length buf < ext_len_bytes
          then (Some (Err (decode_error_new Truncated 0)), stop)
          else
            (Some (and_then (subslice buf 1 (ext_len_bytes - 1)) (\<lambda>content.
                   and_then (byte_at buf (ext_len_bytes - 1)) (\<lambda>next_ext.
                   Ok \<lparr>eh_type = it_next_type it, eh_content = content, eh_next = next_ext\<rparr>))),
             \<lparr>it_buffer = drop ext_len_bytes buf, it_next_type = buf ! (ext_len_bytes - 1)\<rparr>))"

text \<open>
  A \<^verbatim>\<open>for\<close> loop over the iterator whose body starts by propagating the item's error with
  \<^verbatim>\<open>?\<close>, after \<^verbatim>\<open>map_err(g)\<close>, and may itself return early. The result is the loop state and
  the iterator as the loop leaves it.
\<close>

lemma ext_iter_new_sel [simp]:
  "it_buffer (ext_iter_new buf t) = buf" "it_next_type (ext_iter_new buf t) = t"
  by (simp_all add: ext_iter_new_def)

lemma checked_mul_u8_4 [simp]: "checked_mul (unat (b :: u8)) 4 = Some (4 * unat b)"
  using unat_u8_less [of b] by (simp add: checked_mul_def max_u64_def)

lemma ext_iter_next_shorter:
  "ext_iter_next it = (Some (Ok h), it') \<Longrightarrow> length (it_buffer it') < length (it_buffer it)"
  by (auto simp: ext_iter_next_def Let_def split: if_splits)

function ext_for_each ::
  "(decode_error \<Rightarrow> 'e) \<Rightarrow> (ext_header \<Rightarrow> 's \<Rightarrow> ('s, 'e) result) \<Rightarrow> ext_iter \<Rightarrow> 's
     \<Rightarrow> ('s \<times> ext_iter, 'e) result" where
  "ext_for_each g body it s =
     (case ext_iter_next it of
        (None, it') \<Rightarrow> Ok (s, it')
      | (Some (Ok h), it') \<Rightarrow> and_then (body h s) (\<lambda>s'. ext_for_each g body it' s')
      | (Some (Err e), _) \<Rightarrow> Err (g e)
      | (Some Panic, _) \<Rightarrow> Panic)"
  by auto
termination
  by (relation "measure (\<lambda>(g, body, it, s). length (it_buffer it))")
     (auto dest: ext_iter_next_shorter [OF sym])

declare ext_for_each.simps [simp del]

definition invalid_length :: decode_error where
  "invalid_length = decode_error_new (InvalidLength ''invalid typed GTP-U extension length'') 0"

definition validate_fixed_length :: "ext_header \<Rightarrow> (unit, decode_error) result" where
  "validate_fixed_length h =
     (let check = (\<lambda>expected. if length (eh_content h) \<noteq> expected then Err invalid_length else Ok ()) in
      if eh_type h \<in> {0x20, 0x40, 0xc0} then check 2
      else if eh_type h \<in> {0x03, 0x82} then check 6
      else Ok ())"

definition first_unsupported_required_extension ::
  "ext_iter \<Rightarrow> ext_recipient \<Rightarrow> (ext_header_type option, decode_error) result" where
  "first_unsupported_required_extension extensions recipient =
     (let raw_len = length (it_buffer extensions) in
      and_then
        (ext_for_each id
          (\<lambda>h first. and_then (validate_fixed_length h) (\<lambda>_.
             let t = ExtHeaderType (eh_type h) in
             Ok (if first = None \<and> unsupported_requires_comprehension_by t recipient
                 then Some t else first)))
          extensions None) (\<lambda>(first, it).
      if it_buffer it \<noteq> []
      then Err (decode_error_new (Structural ''bytes remain after terminal extension header'')
                  (raw_len - length (it_buffer it)))
      else Ok first))"

section \<open>PDU Session Container\<close>

datatype psc_error =
    InvalidExtensionType
  | PscTruncated
  | Misaligned
  | ReservedPduType
  | UnsupportedDownlinkConditionalFields
  | MissingPagingPolicyIndicator
  | UnsupportedDownlinkExtensionFields
  | UnsupportedUplinkConditionalFields
  | UnsupportedUplinkExtensionFields
  | QfiOutOfRange
  | PpiOutOfRange
  | UplinkPagingPolicyIndicator
  | UplinkReflectiveQosIndicator

fun psc_error_as_str :: "psc_error \<Rightarrow> string" where
  "psc_error_as_str InvalidExtensionType = ''gtpu_pdu_session_container_invalid_extension_type''"
| "psc_error_as_str PscTruncated = ''gtpu_pdu_session_container_truncated''"
| "psc_error_as_str Misaligned = ''gtpu_pdu_session_container_misaligned''"
| "psc_error_as_str ReservedPduType = ''gtpu_pdu_session_container_reserved_pdu_type''"
| "psc_error_as_str UnsupportedDownlinkConditionalFields =
     ''gtpu_pdu_session_container_unsupported_downlink_conditionals''"
| "psc_error_as_str MissingPagingPolicyIndicator =
     ''gtpu_pdu_session_container_missing_paging_policy_indicator''"
| "psc_error_as_str UnsupportedDownlinkExtensionFields =
     ''gtpu_pdu_session_container_unsupported_downlink_fields''"
| "psc_error_as_str UnsupportedUplinkConditionalFields =
     ''gtpu_pdu_session_container_unsupported_uplink_conditionals''"
| "psc_error_as_str UnsupportedUplinkExtensionFields =
     ''gtpu_pdu_session_container_unsupported_uplink_fields''"
| "psc_error_as_str QfiOutOfRange = ''gtpu_pdu_session_container_qfi_out_of_range''"
| "psc_error_as_str PpiOutOfRange = ''gtpu_pdu_session_container_ppi_out_of_range''"
| "psc_error_as_str UplinkPagingPolicyIndicator =
     ''gtpu_pdu_session_container_uplink_paging_policy_indicator''"
| "psc_error_as_str UplinkReflectiveQosIndicator =
     ''gtpu_pdu_session_container_uplink_reflective_qos_indicator''"

fun decode_reason :: "psc_error \<Rightarrow> string" where
  "decode_reason InvalidExtensionType = ''extension type is not PDU Session Container''"
| "decode_reason PscTruncated = ''PDU Session Container is truncated''"
| "decode_reason Misaligned = ''PDU Session Container is not extension-header aligned''"
| "decode_reason ReservedPduType = ''reserved PDU Session Container type''"
| "decode_reason UnsupportedDownlinkConditionalFields =
     ''DL PDU Session Container uses unsupported conditional fields''"
| "decode_reason MissingPagingPolicyIndicator =
     ''Paging Policy Indicator missing despite PPP flag''"
| "decode_reason UnsupportedDownlinkExtensionFields =
     ''unsupported DL PDU Session Container extension fields''"
| "decode_reason UnsupportedUplinkConditionalFields =
     ''UL PDU Session Container uses unsupported conditional fields''"
| "decode_reason UnsupportedUplinkExtensionFields =
     ''unsupported UL PDU Session Container extension fields''"
| "decode_reason QfiOutOfRange = ''PDU Session Container QFI exceeds six bits''"
| "decode_reason PpiOutOfRange = ''PDU Session Container PPI exceeds three bits''"
| "decode_reason UplinkPagingPolicyIndicator =
     ''UL PDU Session Container cannot carry Paging Policy Indicator''"
| "decode_reason UplinkReflectiveQosIndicator =
     ''UL PDU Session Container cannot carry Reflective QoS Indicator''"

record pdu_session_container =
  psc_pdu_type :: u8
  psc_qfi :: u8
  psc_ppi :: "u8 option"
  psc_rqi :: bool

definition psc_validate :: "pdu_session_container \<Rightarrow> (unit, psc_error) result" where
  "psc_validate c =
     (if psc_pdu_type c = 0
      then if psc_qfi c > 0x3f then Err QfiOutOfRange
           else if (case psc_ppi c of None \<Rightarrow> False | Some ppi \<Rightarrow> ppi > 0x07) then Err PpiOutOfRange
           else Ok ()
      else if psc_pdu_type c = 1
      then if psc_qfi c > 0x3f then Err QfiOutOfRange
           else if psc_ppi c \<noteq> None then Err UplinkPagingPolicyIndicator
           else if psc_rqi c then Err UplinkReflectiveQosIndicator
           else Ok ()
      else Err ReservedPduType)"

definition psc_new_downlink ::
  "u8 \<Rightarrow> u8 option \<Rightarrow> bool \<Rightarrow> (pdu_session_container, psc_error) result" where
  "psc_new_downlink qfi ppi rqi =
     (let c = \<lparr>psc_pdu_type = 0, psc_qfi = qfi, psc_ppi = ppi, psc_rqi = rqi\<rparr> in
      and_then (psc_validate c) (\<lambda>_. Ok c))"

definition psc_new_uplink :: "u8 \<Rightarrow> (pdu_session_container, psc_error) result" where
  "psc_new_uplink qfi =
     (let c = \<lparr>psc_pdu_type = 1, psc_qfi = qfi, psc_ppi = None, psc_rqi = False\<rparr> in
      and_then (psc_validate c) (\<lambda>_. Ok c))"

definition psc_decode_downlink ::
  "bytes \<Rightarrow> u8 \<Rightarrow> (pdu_session_container, psc_error \<times> usize) result" where
  "psc_decode_downlink content pdu_type =
     (if length content < 2 then Err (PscTruncated, 1)
      else
      and_then (byte_at content 0) (\<lambda>c0.
      if c0 AND 0x0e \<noteq> 0 then Err (UnsupportedDownlinkConditionalFields, 0)
      else
      and_then (byte_at content 1) (\<lambda>c1.
      let ppp = (c1 AND 0x80 \<noteq> 0); rqi = (c1 AND 0x40 \<noteq> 0); qfi = c1 AND 0x3f in
      and_then
        (if ppp
         then if length content < 3 then Err (MissingPagingPolicyIndicator, 1)
              else and_then (byte_at content 2) (\<lambda>c2.
                if c2 AND 0x03 \<noteq> 0 then Err (UnsupportedDownlinkConditionalFields, 2)
                else if length content \<noteq> 6 then Err (UnsupportedDownlinkExtensionFields, 3)
                else Ok (Some (drop_bit 5 c2)))
         else if length content \<noteq> 2 then Err (UnsupportedDownlinkExtensionFields, 2)
         else Ok None) (\<lambda>ppi.
      Ok \<lparr>psc_pdu_type = pdu_type, psc_qfi = qfi, psc_ppi = ppi, psc_rqi = rqi\<rparr>))))"

definition psc_decode_uplink ::
  "bytes \<Rightarrow> u8 \<Rightarrow> (pdu_session_container, psc_error \<times> usize) result" where
  "psc_decode_uplink content pdu_type =
     (if length content < 2 then Err (PscTruncated, 1)
      else
      and_then (byte_at content 0) (\<lambda>c0.
      and_then (byte_at content 1) (\<lambda>c1.
      if c0 AND 0x0f \<noteq> 0 \<or> c1 AND 0xc0 \<noteq> 0 then Err (UnsupportedUplinkConditionalFields, 0)
      else if length content \<noteq> 2 then Err (UnsupportedUplinkExtensionFields, 2)
      else Ok \<lparr>psc_pdu_type = pdu_type, psc_qfi = c1 AND 0x3f, psc_ppi = None,
                psc_rqi = False\<rparr>)))"

definition decode_with_reason ::
  "ext_header \<Rightarrow> (pdu_session_container, psc_error \<times> usize) result" where
  "decode_with_reason ext =
     (if eh_type ext \<noteq> GTPU_EXT_PDU_SESSION_CONTAINER then Err (InvalidExtensionType, 0)
      else let content = eh_content ext in
      if content = [] then Err (PscTruncated, 0)
      else if (case checked_add (length content) 2 of
                 None \<Rightarrow> True | Some len \<Rightarrow> len mod 4 \<noteq> 0)
      then Err (Misaligned, 0)
      else and_then (byte_at content 0) (\<lambda>c0.
      let pdu_type = drop_bit 4 c0 AND 0x0f in
      if pdu_type = 0 then psc_decode_downlink content pdu_type
      else if pdu_type = 1 then psc_decode_uplink content pdu_type
      else Err (ReservedPduType, 0)))"

definition psc_decode :: "ext_header \<Rightarrow> (pdu_session_container, decode_error) result" where
  "psc_decode ext =
     map_err (\<lambda>(reason, offset).
        decode_with_spec_ref (spec_ref_new ''3gpp'' ''TS29281'' ''5.2.2.7'')
          (decode_error_new
             (if reason = PscTruncated then Truncated else Structural (decode_reason reason)) offset))
       (decode_with_reason ext)"

definition psc_encode :: "pdu_session_container \<Rightarrow> (bytes, psc_error) result" where
  "psc_encode c =
     and_then (psc_validate c) (\<lambda>_.
     let octet2 = push_bit 4 (psc_pdu_type c);
         fields =
           (if psc_pdu_type c = 0
            then (psc_qfi c OR (if psc_ppi c \<noteq> None then 0x80 else 0)
                            OR (if psc_rqi c then 0x40 else 0))
                 # (case psc_ppi c of None \<Rightarrow> [] | Some ppi \<Rightarrow> [push_bit 5 ppi])
            else [psc_qfi c]);
         content = octet2 # fields;
         rem = (length content + 2) mod 4
     in Ok (if rem \<noteq> 0 then content @ replicate (4 - rem) 0 else content))"

section \<open>Encoding one header\<close>

datatype chain_malformed =
    ChainTruncated
  | LengthUnitsZero
  | ChainLengthOverflow
  | TrailingBytes
  | InvalidContainer psc_error

fun chain_malformed_as_str :: "chain_malformed \<Rightarrow> string" where
  "chain_malformed_as_str ChainTruncated = ''gtpu_extension_chain_truncated''"
| "chain_malformed_as_str LengthUnitsZero = ''gtpu_extension_chain_length_units_zero''"
| "chain_malformed_as_str ChainLengthOverflow = ''gtpu_extension_chain_length_overflow''"
| "chain_malformed_as_str TrailingBytes = ''gtpu_extension_chain_trailing_bytes''"
| "chain_malformed_as_str (InvalidContainer _) =
     ''gtpu_extension_chain_invalid_pdu_session_container''"

datatype chain_error =
    MissingFirstExtensionType
  | FirstExtensionTypeWithoutHeaders
  | MalformedRawChain chain_malformed
  | DuplicatePduSessionContainer
  | InvalidPduSessionContainer psc_error
  | ExtensionLengthOverflow
  | BuiltChainInvalid

fun chain_error_as_str :: "chain_error \<Rightarrow> string" where
  "chain_error_as_str MissingFirstExtensionType = ''gtpu_extension_chain_missing_first_type''"
| "chain_error_as_str FirstExtensionTypeWithoutHeaders =
     ''gtpu_extension_chain_first_type_without_headers''"
| "chain_error_as_str (MalformedRawChain _) = ''gtpu_extension_chain_malformed_raw''"
| "chain_error_as_str DuplicatePduSessionContainer =
     ''gtpu_extension_chain_duplicate_pdu_session_container''"
| "chain_error_as_str (InvalidPduSessionContainer _) =
     ''gtpu_extension_chain_invalid_pdu_session_container_model''"
| "chain_error_as_str ExtensionLengthOverflow = ''gtpu_extension_chain_length_overflow''"
| "chain_error_as_str BuiltChainInvalid = ''gtpu_extension_chain_built_chain_invalid''"

fun chain_error_display :: "chain_error \<Rightarrow> string" where
  "chain_error_display (MalformedRawChain (InvalidContainer r)) =
     chain_error_as_str (MalformedRawChain (InvalidContainer r)) @ '': '' @
     chain_malformed_as_str (InvalidContainer r) @ '': '' @ psc_error_as_str r"
| "chain_error_display (MalformedRawChain r) =
     chain_error_as_str (MalformedRawChain r) @ '': '' @ chain_malformed_as_str r"
| "chain_error_display (InvalidPduSessionContainer r) =
     chain_error_as_str (InvalidPduSessionContainer r) @ '': '' @ psc_error_as_str r"
| "chain_error_display e = chain_error_as_str e"

definition encode_extension_header :: "bytes \<Rightarrow> u8 \<Rightarrow> (bytes, chain_error) result" where
  "encode_extension_header content next_ext_type =
     and_then (ok_or ExtensionLengthOverflow (checked_add (length content) 2)) (\<lambda>len.
     if len mod 4 \<noteq> 0 then Err ExtensionLengthOverflow
     else let units = len div 4 in
     if units > 255 then Err ExtensionLengthOverflow
     else if (word_of_nat units :: u8) = 0 then Err ExtensionLengthOverflow
     else Ok (word_of_nat units # content @ [next_ext_type]))"

section \<open>Typed extension values\<close>

datatype typed_extension =
    UdpPort u16
  | PdcpPduNumber u16
  | LongPdcpPduNumber u32
  | LegacyLongPdcpPduNumber u32
  | ServiceClassIndicator u8
  | RanContainer bytes
  | XwRanContainer bytes
  | NrRanContainer bytes
  | PscExtension pdu_session_container

definition opaque_len_invalid :: "bytes \<Rightarrow> bool" where
  "opaque_len_invalid v \<longleftrightarrow> length v < 2 \<or> length v > 1018 \<or> (length v + 2) mod 4 \<noteq> 0"

definition typed_ext_decode :: "ext_header \<Rightarrow> (typed_extension option, decode_error) result" where
  "typed_ext_decode h =
     and_then (validate_fixed_length h) (\<lambda>_.
     let v = eh_content h; t = eh_type h in
     if t = 0x40 \<or> t = 0xc0
     then and_then (byte_at v 0) (\<lambda>v0. and_then (byte_at v 1) (\<lambda>v1.
          Ok (Some (if t = 0x40 then UdpPort (be16 v0 v1) else PdcpPduNumber (be16 v0 v1)))))
     else if t = 0x03 \<or> t = 0x82
     then and_then (byte_at v 0) (\<lambda>v0. and_then (byte_at v 1) (\<lambda>v1. and_then (byte_at v 2) (\<lambda>v2.
          let number = be32 0 (v0 AND 3) v1 v2 in
          Ok (Some (if t = 0x03 then LongPdcpPduNumber number
                    else LegacyLongPdcpPduNumber number)))))
     else if t = 0x20
     then and_then (byte_at v 0) (\<lambda>v0. Ok (Some (ServiceClassIndicator v0)))
     else if t = 0x81 \<or> t = 0x83 \<or> t = 0x84
     then if opaque_len_invalid v then Err invalid_length
          else Ok (Some (if t = 0x81 then RanContainer v
                         else if t = 0x83 then XwRanContainer v else NrRanContainer v))
     else if t = 0x85
     then and_then (psc_decode h) (\<lambda>c. Ok (Some (PscExtension c)))
     else Ok None)"

fun extension_type :: "typed_extension \<Rightarrow> u8" where
  "extension_type (UdpPort _) = 0x40"
| "extension_type (PdcpPduNumber _) = 0xc0"
| "extension_type (LongPdcpPduNumber _) = 0x03"
| "extension_type (LegacyLongPdcpPduNumber _) = 0x82"
| "extension_type (ServiceClassIndicator _) = 0x20"
| "extension_type (RanContainer _) = 0x81"
| "extension_type (XwRanContainer _) = 0x83"
| "extension_type (NrRanContainer _) = 0x84"
| "extension_type (PscExtension _) = 0x85"

definition typed_ext_invalid :: encode_error where
  "typed_ext_invalid = encode_error_new (EncodeStructural ''invalid typed GTP-U extension value'')"

definition long_pdcp_content :: "u32 \<Rightarrow> (bytes, encode_error) result" where
  "long_pdcp_content v =
     (if v > 0x3ffff then Err typed_ext_invalid
      else let b = u32_bytes v in Ok [b ! 1, b ! 2, b ! 3, 0, 0, 0])"

definition opaque_content :: "bytes \<Rightarrow> (bytes, encode_error) result" where
  "opaque_content v = (if opaque_len_invalid v then Err typed_ext_invalid else Ok v)"

fun typed_ext_content :: "typed_extension \<Rightarrow> (bytes, encode_error) result" where
  "typed_ext_content (UdpPort v) = Ok (u16_bytes v)"
| "typed_ext_content (PdcpPduNumber v) = Ok (u16_bytes v)"
| "typed_ext_content (LongPdcpPduNumber v) = long_pdcp_content v"
| "typed_ext_content (LegacyLongPdcpPduNumber v) = long_pdcp_content v"
| "typed_ext_content (ServiceClassIndicator v) =
     (if v > 15 then Err typed_ext_invalid else Ok [v, 0])"
| "typed_ext_content (RanContainer v) = opaque_content v"
| "typed_ext_content (XwRanContainer v) = opaque_content v"
| "typed_ext_content (NrRanContainer v) = opaque_content v"
| "typed_ext_content (PscExtension c) = map_err (\<lambda>_. typed_ext_invalid) (psc_encode c)"

definition typed_ext_encode :: "typed_extension \<Rightarrow> u8 \<Rightarrow> (bytes, encode_error) result" where
  "typed_ext_encode e next_extension_type =
     and_then (typed_ext_content e) (\<lambda>content.
     map_err (\<lambda>_. typed_ext_invalid) (encode_extension_header content next_extension_type))"

section \<open>A reference reading of a chain\<close>

text \<open>
  A chain is a list of (type, content) pairs. On the wire each header is its length in
  four-octet units, its content and the type of the next header, zero after the last.
\<close>

type_synonym chain = "(u8 \<times> bytes) list"

fun chain_first :: "chain \<Rightarrow> u8" where
  "chain_first [] = 0"
| "chain_first ((t, c) # hs) = t"

fun chain_bytes :: "chain \<Rightarrow> bytes" where
  "chain_bytes [] = []"
| "chain_bytes ((t, c) # hs) =
     word_of_nat ((length c + 2) div 4) # c @ chain_first hs # chain_bytes hs"

definition content_ok :: "bytes \<Rightarrow> bool" where
  "content_ok c \<longleftrightarrow> (length c + 2) mod 4 = 0 \<and> length c + 2 \<le> 1020"

definition chain_ok :: "chain \<Rightarrow> bool" where
  "chain_ok hs \<longleftrightarrow> list_all (\<lambda>(t, c). t \<noteq> 0 \<and> content_ok c) hs"

function parse_chain :: "u8 \<Rightarrow> bytes \<Rightarrow> (chain \<times> bytes) option" where
  "parse_chain t buf =
     (if t = 0 then Some ([], buf)
      else if buf = [] \<or> buf ! 0 = 0 \<or> length buf < 4 * unat (buf ! 0) then None
      else let len = 4 * unat (buf ! 0) in
        case parse_chain (buf ! (len - 1)) (drop len buf) of
          None \<Rightarrow> None
        | Some (hs, rest) \<Rightarrow> Some ((t, take (len - 2) (drop 1 buf)) # hs, rest))"
  by auto
termination
  by (relation "measure (\<lambda>(t, buf). length buf)") (auto simp: unat_gt_0)

declare parse_chain.simps [simp del]

lemma parse_chain_0 [simp]: "parse_chain 0 buf = Some ([], buf)"
  by (simp add: parse_chain.simps)

lemma chain_ok_simps [simp]:
  "chain_ok []"
  "chain_ok ((t, c) # hs) \<longleftrightarrow> t \<noteq> 0 \<and> content_ok c \<and> chain_ok hs"
  by (simp_all add: chain_ok_def)

text \<open>The length octet of a well-sized content.\<close>

lemma content_units:
  assumes "content_ok c"
  shows "unat (word_of_nat ((length c + 2) div 4) :: u8) = (length c + 2) div 4"
    and "4 * ((length c + 2) div 4) = length c + 2"
  using assms by (auto simp: content_ok_def unat_of_nat8)

lemma parse_chain_bytes [simp]:
  "chain_ok hs \<Longrightarrow> parse_chain (chain_first hs) (chain_bytes hs @ rest) = Some (hs, rest)"
proof (induction hs rule: chain_bytes.induct)
  case (2 t c hs)
  then have "t \<noteq> 0" "content_ok c" and IH: "parse_chain (chain_first hs) (chain_bytes hs @ rest) = Some (hs, rest)"
    by auto
  let ?u = "word_of_nat ((length c + 2) div 4) :: u8"
  have u: "4 * unat ?u = length c + 2" using content_units [OF \<open>content_ok c\<close>] by simp
  then have "?u \<noteq> 0" by auto
  with \<open>t \<noteq> 0\<close> IH u show ?case
    by (subst parse_chain.simps) (simp add: nth_append)
qed simp

lemma header_split:
  assumes "buf \<noteq> []" "2 \<le> n" "n \<le> length buf"
  shows "buf = buf ! 0 # take (n - 2) (drop 1 buf) @ buf ! (n - 1) # drop n buf"
proof -
  have "drop 1 buf = take (n - 2) (drop 1 buf) @ drop (n - 2) (drop 1 buf)"
    by (simp only: append_take_drop_id)
  also have "drop (n - 2) (drop 1 buf) = drop (n - 1) buf"
    using assms by (simp add: drop_drop Suc_diff_Suc numeral_2_eq_2)
  also have "drop (n - 1) buf = buf ! (n - 1) # drop n buf"
    using assms Cons_nth_drop_Suc [of "n - 1" buf] by simp
  finally show ?thesis using assms(1) by (cases buf) simp_all
qed

lemma parse_chain_SomeD:
  "parse_chain t buf = Some (hs, rest) \<Longrightarrow> buf = chain_bytes hs @ rest \<and> chain_first hs = t \<and> chain_ok hs"
proof (induction t buf arbitrary: hs rule: parse_chain.induct)
  case (1 t buf)
  show ?case
  proof (cases "t = 0")
    case True
    with 1 show ?thesis by auto
  next
    case False
    let ?len = "4 * unat (buf ! 0)"
    from False "1.prems" obtain hs' where c: "buf \<noteq> []" "buf ! 0 \<noteq> 0" "?len \<le> length buf"
      and p: "parse_chain (buf ! (?len - 1)) (drop ?len buf) = Some (hs', rest)"
      and hs: "hs = (t, take (?len - 2) (drop 1 buf)) # hs'"
      by (auto simp: parse_chain.simps [of t] Let_def split: if_splits option.splits)
    have IH: "drop ?len buf = chain_bytes hs' @ rest" "chain_first hs' = buf ! (?len - 1)" "chain_ok hs'"
      using "1.IH" [OF False _ refl p] c by auto
    have len: "4 \<le> ?len" "?len \<le> 1020" using c unat_u8_less [of "buf ! 0"]
      by (auto simp: unat_gt_0 Suc_le_eq)
    then have clen: "length (take (?len - 2) (drop 1 buf)) = ?len - 2" using c by simp
    have "buf = buf ! 0 # take (?len - 2) (drop 1 buf) @ buf ! (?len - 1) # drop ?len buf"
      using header_split [OF c(1), of ?len] len c by simp
    moreover have len2: "?len - 2 + 2 = ?len" using len by linarith
    then have "word_of_nat ((?len - 2 + 2) div 4) = buf ! 0" by simp
    moreover have "content_ok (take (?len - 2) (drop 1 buf))"
      unfolding content_ok_def clen len2 using len by simp
    ultimately show ?thesis using IH hs False clen by simp
  qed
qed

section \<open>Container and typed values\<close>

lemma octet_flags:
  assumes "(x :: u8) \<le> 0x3f"
  shows "x AND 0x3f = x" "(x OR 0x80) AND 0x3f = x" "(x OR 0x40) AND 0x3f = x" "(x OR 0xc0) AND 0x3f = x"
    "x AND 0x80 = 0" "(x OR 0x80) AND 0x80 = 0x80" "(x OR 0x40) AND 0x80 = 0" "(x OR 0xc0) AND 0x80 = 0x80"
    "x AND 0x40 = 0" "(x OR 0x80) AND 0x40 = 0" "(x OR 0x40) AND 0x40 = 0x40" "(x OR 0xc0) AND 0x40 = 0x40"
    "x AND 0xc0 = 0"
  using assms by (simp_all add: octet_bits le_63_bits)

lemma ppi_field: "(x :: u8) \<le> 7 \<Longrightarrow> push_bit 5 x AND 0x03 = 0 \<and> drop_bit 5 (push_bit 5 x) = x"
    by (simp add: octet_bits le_7_bits)

lemma psc_decode_encode_lem:
  assumes "psc_encode c = Ok w"
  shows "decode_with_reason \<lparr>eh_type = GTPU_EXT_PDU_SESSION_CONTAINER, eh_content = w, eh_next = n\<rparr> = Ok c"
proof -
  obtain t q ppi r where c: "c = \<lparr>psc_pdu_type = t, psc_qfi = q, psc_ppi = ppi, psc_rqi = r\<rparr>"
    by (cases c)
  from assms have v: "psc_validate c = Ok ()" by (auto simp: psc_encode_def outcome_simps)
  then consider (dl) "t = 0" "q \<le> 0x3f" "ppi = None" | (ppp) p where "t = 0" "q \<le> 0x3f" "ppi = Some p" "p \<le> 7"
    | (ul) "t = 1" "q \<le> 0x3f" "ppi = None" "\<not> r"
    by (auto simp: c psc_validate_def not_less split: if_splits option.splits)
  then show ?thesis
  proof cases
    case dl
    then show ?thesis using assms v
      by (cases r) (auto simp: c psc_encode_def decode_with_reason_def psc_decode_downlink_def
        checked_add_def max_u64_def octet_flags)
  next
    case (ppp p)
    with ppi_field [of p] show ?thesis using assms v
      by (cases r) (auto simp: c psc_encode_def decode_with_reason_def psc_decode_downlink_def
        checked_add_def max_u64_def octet_flags or.assoc)
  next
    case ul
    then show ?thesis using assms v
      by (auto simp: c psc_encode_def decode_with_reason_def psc_decode_uplink_def
        checked_add_def max_u64_def octet_flags)
  qed
qed

lemma field_ranges:
  "\<not> 7 < drop_bit 5 (x :: u8)" "\<not> 0x3f < (x :: u8) AND 0x3f"
proof -
  have "drop_bit 5 x \<le> 7" by (auto simp: octet_bits le_7_bits dest: bit_imp_le_length)
  then show "\<not> 7 < drop_bit 5 x" by (simp add: not_less)
  show "\<not> 0x3f < x AND 0x3f" using and_63_le [of x] by (simp add: not_less)
qed

lemma psc_decode_validate: "decode_with_reason h = Ok c \<Longrightarrow> psc_validate c = Ok ()"
  by (auto simp: decode_with_reason_def psc_decode_downlink_def psc_decode_uplink_def Let_def
      psc_validate_def field_ranges outcome_simps split: if_splits)

lemma psc_decode_not_Panic [simp]: "decode_with_reason h \<noteq> Panic"
  by (auto simp: decode_with_reason_def psc_decode_downlink_def psc_decode_uplink_def Let_def
      outcome_simps split: if_splits)

lemma psc_validate_not_Panic [simp]: "psc_validate c \<noteq> Panic"
  by (auto simp: psc_validate_def)

lemma psc_encode_Ok_iff: "(\<exists>w. psc_encode c = Ok w) \<longleftrightarrow> psc_validate c = Ok ()"
  by (cases "psc_validate c") (auto simp: psc_encode_def)

lemma psc_encode_content_ok: "psc_encode c = Ok w \<Longrightarrow> content_ok w"
  by (auto simp: psc_encode_def content_ok_def Let_def outcome_simps split: if_splits option.splits)

section \<open>The iterator reads the chain\<close>

fun chain_headers :: "chain \<Rightarrow> ext_header list" where
  "chain_headers [] = []"
| "chain_headers ((t, c) # hs) =
     \<lparr>eh_type = t, eh_content = c, eh_next = chain_first hs\<rparr> # chain_headers hs"

fun try_fold :: "('a \<Rightarrow> 's \<Rightarrow> ('s, 'e) result) \<Rightarrow> 'a list \<Rightarrow> 's \<Rightarrow> ('s, 'e) result" where
  "try_fold body [] s = Ok s"
| "try_fold body (x # xs) s = and_then (body x s) (try_fold body xs)"

lemma ext_iter_next_header:
  assumes "t \<noteq> 0" "buf \<noteq> []" "buf ! 0 \<noteq> 0" "4 * unat (buf ! 0) \<le> length buf"
  shows "ext_iter_next (ext_iter_new buf t) =
    (let len = 4 * unat (buf ! 0) in
     (Some (Ok \<lparr>eh_type = t, eh_content = take (len - 2) (drop 1 buf), eh_next = buf ! (len - 1)\<rparr>),
      ext_iter_new (drop len buf) (buf ! (len - 1))))"
proof -
  have "unat (buf ! 0) \<noteq> 0" using assms(3) by (simp add: unat_eq_0)
  then have "Suc 0 \<le> 4 * unat (buf ! 0) - Suc 0" "4 * unat (buf ! 0) - Suc 0 < length buf"
    "4 * unat (buf ! 0) - Suc 0 - Suc 0 = 4 * unat (buf ! 0) - 2"
    using assms(4) by linarith+
  with assms \<open>unat (buf ! 0) \<noteq> 0\<close> show ?thesis
    by (simp add: ext_iter_next_def ext_iter_new_def Let_def subslice_def byte_at_def)
qed

lemma ext_iter_next_malformed:
  assumes "t \<noteq> 0" "buf = [] \<or> buf ! 0 = 0 \<or> length buf < 4 * unat (buf ! 0)"
  shows "\<exists>e it. ext_iter_next (ext_iter_new buf t) = (Some (Err e), it)"
  using assms by (auto simp: ext_iter_next_def ext_iter_new_def Let_def unat_eq_0)

lemma ext_for_each_chain:
  "parse_chain t buf = Some (hs, rest) \<Longrightarrow>
   ext_for_each g body (ext_iter_new buf t) s =
     and_then (try_fold body (chain_headers hs) s) (\<lambda>s'. Ok (s', ext_iter_new rest 0))"
proof (induction t buf arbitrary: hs s rule: parse_chain.induct)
  case (1 t buf)
  show ?case
  proof (cases "t = 0")
    case True
    with 1 show ?thesis
      unfolding ext_for_each.simps [of g body "ext_iter_new buf t"]
      by (auto simp: ext_iter_next_def ext_iter_new_def)
  next
    case False
    let ?len = "4 * unat (buf ! 0)"
    from False "1.prems" obtain hs' where c: "buf \<noteq> []" "buf ! 0 \<noteq> 0" "?len \<le> length buf"
      and p: "parse_chain (buf ! (?len - 1)) (drop ?len buf) = Some (hs', rest)"
      and hs: "hs = (t, take (?len - 2) (drop 1 buf)) # hs'"
      by (auto simp: parse_chain.simps [of t] Let_def split: if_splits option.splits)
    have first: "chain_first hs' = buf ! (?len - 1)" using parse_chain_SomeD [OF p] by simp
    have IH: "ext_for_each g body (ext_iter_new (drop ?len buf) (buf ! (?len - 1))) =
        (\<lambda>s'. and_then (try_fold body (chain_headers hs') s') (\<lambda>s'. Ok (s', ext_iter_new rest 0)))"
      using "1.IH" [OF False _ refl p] c by auto
    show ?thesis
      unfolding ext_for_each.simps [of g body "ext_iter_new buf t"] ext_iter_next_header [OF False c]
      using IH by (simp add: hs first and_then_assoc Let_def)
  qed
qed

lemma ext_for_each_OkD:
  "ext_for_each g body (ext_iter_new buf t) s = Ok (s', it) \<Longrightarrow>
   \<exists>hs rest. parse_chain t buf = Some (hs, rest)"
proof (induction t buf arbitrary: s rule: parse_chain.induct)
  case (1 t buf)
  show ?case
  proof (cases "t = 0 \<or> buf = [] \<or> buf ! 0 = 0 \<or> length buf < 4 * unat (buf ! 0)")
    case True
    then show ?thesis
    proof
      assume "t = 0" then show ?thesis by simp
    next
      assume m: "buf = [] \<or> buf ! 0 = 0 \<or> length buf < 4 * unat (buf ! 0)"
      show ?thesis
      proof (cases "t = 0")
        case nz: False
        from ext_iter_next_malformed [OF nz m] "1.prems" show ?thesis
          by (auto simp: ext_for_each.simps [of g body "ext_iter_new buf t"])
      qed simp
    qed
  next
    case False
    let ?len = "4 * unat (buf ! 0)"
    from False have c: "t \<noteq> 0" "buf \<noteq> []" "buf ! 0 \<noteq> 0" "?len \<le> length buf" by auto
    from "1.prems" obtain s1 where
      "ext_for_each g body (ext_iter_new (drop ?len buf) (buf ! (?len - 1))) s1 = Ok (s', it)"
      unfolding ext_for_each.simps [of g body "ext_iter_new buf t"] ext_iter_next_header [OF c]
      by (auto simp: Let_def outcome_simps)
    from "1.IH" [OF c(1) _ refl this] c show ?thesis
      by (auto simp: parse_chain.simps [of t buf] Let_def)
  qed
qed

lemma encode_extension_header_Ok_iff:
  "encode_extension_header c n = Ok w \<longleftrightarrow>
     content_ok c \<and> w = word_of_nat ((length c + 2) div 4) # c @ [n]"
proof -
  have "(word_of_nat (len div 4) :: u8) \<noteq> 0" if "len mod 4 = 0" "len div 4 \<le> 255" "0 < len" for len
  proof -
    have "0 < len div 4" using that by presburger
    moreover have "unat (word_of_nat (len div 4) :: u8) = len div 4"
      using that by (simp only: unat_of_nat8) simp
    ultimately show ?thesis by (metis less_irrefl unat_0)
  qed
  then show ?thesis
    by (auto simp: encode_extension_header_def content_ok_def outcome_simps max_u64_def Let_def split: if_splits)
qed

lemma typed_ext_roundtrip:
  assumes "typed_ext_content e = Ok c"
  shows "content_ok c \<and> typed_ext_decode \<lparr>eh_type = extension_type e, eh_content = c, eh_next = n\<rparr> = Ok (Some e)"
  using assms
proof (cases e)
  case (PscExtension p)
  then show ?thesis using assms psc_decode_encode_lem [of p c n] psc_encode_content_ok [of p c]
    by (auto simp: typed_ext_decode_def validate_fixed_length_def psc_decode_def outcome_simps ext_type_codes)
qed (auto simp: typed_ext_decode_def validate_fixed_length_def content_ok_def u16_bytes_def be16_u16_bytes
   long_pdcp_content_def opaque_content_def opaque_len_invalid_def u32_18_bits not_less Let_def
   simp del: of_nat_mod of_nat_div split: if_splits)

lemma validate_fixed_length_not_Panic [simp]: "validate_fixed_length h \<noteq> Panic"
  by (simp add: validate_fixed_length_def Let_def)

text \<open>The content length that a known fixed-length type must have.\<close>

definition fixed_length_ok :: "u8 \<times> bytes \<Rightarrow> bool" where
  "fixed_length_ok h \<longleftrightarrow>
     (fst h \<in> {0x20, 0x40, 0xc0} \<longrightarrow> length (snd h) = 2) \<and>
     (fst h \<in> {0x03, 0x82} \<longrightarrow> length (snd h) = 6)"

lemma validate_fixed_length_Ok_iff [outcome_simps]:
  "validate_fixed_length h = Ok u \<longleftrightarrow> fixed_length_ok (eh_type h, eh_content h)"
  by (auto simp: validate_fixed_length_def fixed_length_ok_def Let_def)

lemma try_fold_first:
  "try_fold (\<lambda>h first. and_then (validate_fixed_length h) (\<lambda>_.
       let t = ExtHeaderType (eh_type h) in
       Ok (if first = None \<and> unsupported_requires_comprehension_by t r then Some t else first)))
     (chain_headers hs) first = Ok res \<longleftrightarrow>
   list_all fixed_length_ok hs \<and>
   res = (if first = None
          then find (\<lambda>t. unsupported_requires_comprehension_by t r) (map (ExtHeaderType \<circ> fst) hs)
          else first)"
  by (induction hs arbitrary: first rule: chain_headers.induct)
     (auto simp: Let_def outcome_simps split: if_splits)

section \<open>Properties\<close>

text \<open>
  C19. A PDU Session Container is encoded exactly when it passes validation, with the same
  error otherwise, and decoding the encoded content gives the container back. What the
  decoder accepts always passes validation.
\<close>

theorem psc_roundtrip:
  "(case psc_validate c of
      Ok _ \<Rightarrow> (\<exists>w. psc_encode c = Ok w \<and>
                psc_decode \<lparr>eh_type = GTPU_EXT_PDU_SESSION_CONTAINER, eh_content = w, eh_next = n\<rparr> = Ok c)
    | Err e \<Rightarrow> psc_encode c = Err e
    | Panic \<Rightarrow> False) \<and>
   (\<nexists>h d. psc_decode h = Ok d \<and> psc_validate d \<noteq> Ok ())"
proof -
  have "psc_decode h = Ok d \<Longrightarrow> psc_validate d = Ok ()" for h d
    by (auto simp: psc_decode_def outcome_simps dest: psc_decode_validate)
  moreover have "psc_encode c = Ok w \<Longrightarrow>
      psc_decode \<lparr>eh_type = GTPU_EXT_PDU_SESSION_CONTAINER, eh_content = w, eh_next = n\<rparr> = Ok c" for w
    by (simp add: psc_decode_def psc_decode_encode_lem)
  ultimately show ?thesis
    using psc_encode_Ok_iff [of c] by (cases "psc_validate c") (auto simp: psc_encode_def)
qed

text \<open>
  C20. A typed extension that the encoder accepts is read back from the wire: the iterator,
  started with its type on the encoded bytes followed by anything, yields one header and
  stops at the type that follows, and the typed decoder maps that header to the same value.
\<close>

theorem typed_extension_roundtrip:
  assumes "typed_ext_encode e n = Ok w"
  shows "\<exists>h. ext_iter_next (ext_iter_new (w @ rest) (extension_type e)) =
               (Some (Ok h), ext_iter_new rest n) \<and>
             typed_ext_decode h = Ok (Some e)"
proof -
  from assms obtain c where c: "typed_ext_content e = Ok c"
    and w: "w = word_of_nat ((length c + 2) div 4) # c @ [n]" and ok: "content_ok c"
    by (auto simp: typed_ext_encode_def outcome_simps encode_extension_header_Ok_iff)
  have t: "extension_type e \<noteq> 0" by (cases e) simp_all
  have u: "4 * unat (w ! 0) = length c + 2" using content_units [OF ok] by (simp add: w)
  then have "w ! 0 \<noteq> 0" by auto
  with u w t have "ext_iter_next (ext_iter_new (w @ rest) (extension_type e)) =
      (Some (Ok \<lparr>eh_type = extension_type e, eh_content = c, eh_next = n\<rparr>), ext_iter_new rest n)"
    by (subst ext_iter_next_header) (simp_all add: nth_append Let_def)
  with typed_ext_roundtrip [OF c] show ?thesis by blast
qed

theorem typed_extension_roundtrip_witness:
  "\<exists>h. ext_iter_next (ext_iter_new ([1, 0x12, 0x34, 0xc0] @ [9]) 0x40) =
         (Some (Ok h), ext_iter_new [9] 0xc0) \<and>
       typed_ext_decode h = Ok (Some (UdpPort 0x1234))"
proof -
  have enc: "typed_ext_encode (UdpPort 0x1234) 0xc0 = Ok [1, 0x12, 0x34, 0xc0]"
    by (simp add: typed_ext_encode_def u16_bytes_def encode_extension_header_def checked_add_def
        max_u64_def)
  show ?thesis using typed_extension_roundtrip [OF enc, of "[9]"] by simp
qed

text \<open>
  C21. The comprehension scan succeeds exactly on the chains that are well formed, are used
  up by their terminal header and respect the fixed content lengths, and it then returns the
  first type, in chain order, that the recipient would have to comprehend and does not.
\<close>

theorem first_unsupported_exact:
  "first_unsupported_required_extension (ext_iter_new buf t) r = Ok res \<longleftrightarrow>
     (\<exists>hs. chain_ok hs \<and> chain_first hs = t \<and> buf = chain_bytes hs \<and>
           list_all fixed_length_ok hs \<and>
           res = find (\<lambda>t. unsupported_requires_comprehension_by t r) (map (ExtHeaderType \<circ> fst) hs))"
    (is "?l \<longleftrightarrow> ?r")
proof
  assume l: ?l
  then obtain hs rest where p: "parse_chain t buf = Some (hs, rest)"
    by (auto simp: first_unsupported_required_extension_def Let_def outcome_simps
        dest!: ext_for_each_OkD)
  from l have "rest = [] \<and> list_all fixed_length_ok hs \<and>
      res = find (\<lambda>t. unsupported_requires_comprehension_by t r) (map (ExtHeaderType \<circ> fst) hs)"
    by (auto simp: first_unsupported_required_extension_def ext_for_each_chain [OF p] try_fold_first
        outcome_simps Let_def [of "length _"] split: if_splits)
  with parse_chain_SomeD [OF p] show ?r by auto
next
  assume ?r
  then obtain hs where hs: "chain_ok hs" "chain_first hs = t" "buf = chain_bytes hs"
    and rest: "list_all fixed_length_ok hs"
      "res = find (\<lambda>t. unsupported_requires_comprehension_by t r) (map (ExtHeaderType \<circ> fst) hs)"
    by blast
  then have p: "parse_chain t buf = Some (hs, [])" using parse_chain_bytes [of hs "[]"] by simp
  show ?l
    unfolding first_unsupported_required_extension_def ext_for_each_chain [OF p] Let_def [of "length _"]
    using rest by (auto simp: try_fold_first outcome_simps)
qed

end
