(* ===== verification/Gtpu_Chain.thy ===== *)
theory Gtpu_Chain
  imports Gtpu_Ext
begin

text \<open>
  The owned extension-chain summary of \<^verbatim>\<open>crates/opc-proto-gtpu/src/lib.rs\<close>
  (\<^verbatim>\<open>GtpuExtensionChain\<close>): validation of a raw chain, construction from typed parts, and the
  insertion or replacement of one extension. Every operation is related to the list of
  (type, content) pairs that the raw bytes stand for.
\<close>

section \<open>Model\<close>

record ext_chain =
  gc_first_type :: "u8 option"
  gc_raw_headers :: bytes
  gc_header_count :: usize
  gc_container :: "pdu_session_container option"

definition chain_none :: ext_chain where
  "chain_none = \<lparr>gc_first_type = None, gc_raw_headers = [], gc_header_count = 0,
                 gc_container = None\<rparr>"

definition has_headers :: "ext_chain \<Rightarrow> bool" where
  "has_headers c \<longleftrightarrow> gc_first_type c \<noteq> None \<or> gc_raw_headers c \<noteq> []"

definition malformed :: "chain_malformed \<Rightarrow> chain_error" where
  "malformed reason = MalformedRawChain reason"

text \<open>The loop of \<^verbatim>\<open>summarize_extension_chain\<close>: final offset, header count and container.\<close>

function summarize_walk ::
  "bytes \<Rightarrow> u8 \<Rightarrow> usize \<Rightarrow> usize \<Rightarrow> pdu_session_container option
     \<Rightarrow> (usize \<times> usize \<times> pdu_session_container option, chain_error) result" where
  "summarize_walk raw next_ext offset count psc =
     (if next_ext = 0 then Ok (offset, count, psc)
      else if offset \<ge> length raw then Err (malformed ChainTruncated)
      else
      and_then (byte_at raw offset) (\<lambda>b.
      let ext_len_units = unat b in
      if ext_len_units = 0 then Err (malformed LengthUnitsZero)
      else
      and_then (ok_or (malformed ChainLengthOverflow) (checked_mul ext_len_units 4)) (\<lambda>ext_len_bytes.
      and_then (ok_or (malformed ChainLengthOverflow) (checked_add offset ext_len_bytes)) (\<lambda>end.
      if end > length raw then Err (malformed ChainTruncated)
      else
      and_then (subslice raw (offset + 1) (end - 1)) (\<lambda>content.
      and_then (byte_at raw (end - 1)) (\<lambda>following.
      let extension = \<lparr>eh_type = next_ext, eh_content = content, eh_next = following\<rparr> in
      and_then
        (if eh_type extension = GTPU_EXT_PDU_SESSION_CONTAINER
         then if psc \<noteq> None then Err DuplicatePduSessionContainer
              else and_then (map_err (\<lambda>(reason, _). malformed (InvalidContainer reason))
                               (decode_with_reason extension)) (\<lambda>c. Ok (Some c))
         else Ok psc) (\<lambda>psc'.
      summarize_walk raw following end (saturating_add count 1) psc')))))))"
  by auto
termination
  by (relation "measure (\<lambda>(raw, next_ext, offset, count, psc). length raw - offset)")
     (auto simp: outcome_simps)

declare summarize_walk.simps [simp del]

definition summarize_extension_chain ::
  "u8 option \<Rightarrow> bytes \<Rightarrow> (ext_chain, chain_error) result" where
  "summarize_extension_chain first_extension_type raw =
     (if raw = []
      then if first_extension_type \<noteq> None then Err FirstExtensionTypeWithoutHeaders
           else Ok chain_none
      else
      and_then (ok_or MissingFirstExtensionType first_extension_type) (\<lambda>first.
      if first = 0 then Err MissingFirstExtensionType
      else
      and_then (summarize_walk raw first 0 0 None) (\<lambda>(offset, count, psc).
      if offset \<noteq> length raw then Err (malformed TrailingBytes)
      else Ok \<lparr>gc_first_type = first_extension_type, gc_raw_headers = raw,
                gc_header_count = count, gc_container = psc\<rparr>)))"

definition chain_from_raw :: "u8 option \<Rightarrow> bytes \<Rightarrow> (ext_chain, chain_error) result" where
  "chain_from_raw first_extension_type raw = summarize_extension_chain first_extension_type raw"

definition validate_consistency :: "ext_chain \<Rightarrow> (unit, chain_error) result" where
  "validate_consistency c =
     and_then (chain_from_raw (gc_first_type c) (gc_raw_headers c)) (\<lambda>observed.
     if observed = c then Ok () else Err BuiltChainInvalid)"

fun parts_capacity :: "usize \<Rightarrow> chain \<Rightarrow> (usize, chain_error) result" where
  "parts_capacity n [] = Ok n"
| "parts_capacity n ((_, content) # hs) =
     and_then (ok_or ExtensionLengthOverflow
       (case checked_add n (length content) of
          None \<Rightarrow> None | Some m \<Rightarrow> checked_add m 2)) (\<lambda>m. parts_capacity m hs)"

fun encode_parts :: "bytes \<Rightarrow> chain \<Rightarrow> (bytes, chain_error) result" where
  "encode_parts raw [] = Ok raw"
| "encode_parts raw ((_, content) # hs) =
     and_then (encode_extension_header content (case hs of [] \<Rightarrow> 0 | (t, _) # _ \<Rightarrow> t)) (\<lambda>h.
     encode_parts (raw @ h) hs)"

definition from_extension_parts :: "chain \<Rightarrow> (ext_chain, chain_error) result" where
  "from_extension_parts headers =
     (let first_extension_type = (case headers of [] \<Rightarrow> None | (t, _) # _ \<Rightarrow> Some t) in
      and_then (parts_capacity 0 headers) (\<lambda>_.
      and_then (encode_parts [] headers) (\<lambda>raw.
      chain_from_raw first_extension_type raw)))"

definition upsert_extension ::
  "ext_chain \<Rightarrow> u8 \<Rightarrow> bytes \<Rightarrow> (ext_chain, chain_error) result" where
  "upsert_extension c ext_ty replacement =
     and_then (validate_consistency c) (\<lambda>_.
     and_then (ok_or ExtensionLengthOverflow (checked_add (gc_header_count c) 1)) (\<lambda>_.
     let first_type = (case gc_first_type c of None \<Rightarrow> 0 | Some t \<Rightarrow> t) in
     and_then
       (ext_for_each (\<lambda>_. BuiltChainInvalid)
         (\<lambda>ext (headers, replaced).
            if eh_type ext = ext_ty
            then if replaced then Err BuiltChainInvalid
                 else Ok (headers @ [(eh_type ext, replacement)], True)
            else Ok (headers @ [(eh_type ext, eh_content ext)], replaced))
         (ext_iter_new (gc_raw_headers c) first_type) ([], False)) (\<lambda>((headers, replaced), _).
     from_extension_parts
       (if \<not> replaced then headers @ [(ext_ty, replacement)] else headers))))"

definition upsert_leading_extension ::
  "ext_chain \<Rightarrow> u8 \<Rightarrow> bytes \<Rightarrow> (ext_chain, chain_error) result" where
  "upsert_leading_extension c ext_ty replacement =
     and_then (validate_consistency c) (\<lambda>_.
     and_then (ok_or ExtensionLengthOverflow (checked_add (gc_header_count c) 1)) (\<lambda>_.
     let first_type = (case gc_first_type c of None \<Rightarrow> 0 | Some t \<Rightarrow> t) in
     and_then
       (ext_for_each (\<lambda>_. BuiltChainInvalid)
         (\<lambda>ext (headers, removed).
            if eh_type ext = ext_ty
            then if removed then Err BuiltChainInvalid else Ok (headers, True)
            else Ok (headers @ [(eh_type ext, eh_content ext)], removed))
         (ext_iter_new (gc_raw_headers c) first_type)
         ([(ext_ty, replacement)], False)) (\<lambda>((headers, _), _).
     from_extension_parts headers)))"

definition upsert_pdu_session_container ::
  "ext_chain \<Rightarrow> pdu_session_container \<Rightarrow> (ext_chain, chain_error) result" where
  "upsert_pdu_session_container c container =
     and_then (map_err InvalidPduSessionContainer (psc_encode container)) (\<lambda>content.
     upsert_leading_extension c GTPU_EXT_PDU_SESSION_CONTAINER content)"

definition canonicalize_pdu_session_container :: "ext_chain \<Rightarrow> (ext_chain, chain_error) result" where
  "canonicalize_pdu_session_container c =
     (case gc_container c of
        Some container \<Rightarrow> upsert_pdu_session_container c container
      | None \<Rightarrow> and_then (validate_consistency c) (\<lambda>_. Ok c))"

definition upsert_udp_port :: "ext_chain \<Rightarrow> u16 \<Rightarrow> (ext_chain, chain_error) result" where
  "upsert_udp_port c port = upsert_extension c GTPU_EXT_UDP_PORT (u16_bytes port)"

definition from_pdu_session_container ::
  "pdu_session_container \<Rightarrow> (ext_chain, chain_error) result" where
  "from_pdu_session_container container =
     and_then (upsert_pdu_session_container chain_none container) (\<lambda>chain.
     if gc_container chain = Some container then Ok chain else Err BuiltChainInvalid)"

section \<open>The summary reads the chain\<close>

fun container_scan :: "pdu_session_container option \<Rightarrow> chain \<Rightarrow> pdu_session_container option option" where
  "container_scan psc [] = Some psc"
| "container_scan psc ((t, c) # hs) =
     (if t = GTPU_EXT_PDU_SESSION_CONTAINER
      then if psc \<noteq> None then None
           else (case decode_with_reason \<lparr>eh_type = t, eh_content = c, eh_next = 0\<rparr> of
                   Ok p \<Rightarrow> container_scan (Some p) hs | _ \<Rightarrow> None)
      else container_scan psc hs)"

definition chain_summary :: "chain \<Rightarrow> pdu_session_container option \<Rightarrow> ext_chain" where
  "chain_summary hs psc =
     \<lparr>gc_first_type = (if hs = [] then None else Some (chain_first hs)),
      gc_raw_headers = chain_bytes hs, gc_header_count = length hs, gc_container = psc\<rparr>"

lemma decode_with_reason_next:
  "decode_with_reason \<lparr>eh_type = t, eh_content = c, eh_next = n\<rparr> =
   decode_with_reason \<lparr>eh_type = t, eh_content = c, eh_next = 0\<rparr>"
  by (simp add: decode_with_reason_def)

lemma summarize_walk_step:
  assumes "t \<noteq> 0" "buf = drop off raw" "buf \<noteq> []" "buf ! 0 \<noteq> 0" "4 * unat (buf ! 0) \<le> length buf"
    and "length raw \<le> max_u64"
  defines "len \<equiv> 4 * unat (buf ! 0)"
  shows "summarize_walk raw t off count psc =
    and_then
      (if t = GTPU_EXT_PDU_SESSION_CONTAINER
       then if psc \<noteq> None then Err DuplicatePduSessionContainer
            else and_then (map_err (\<lambda>(reason, _). malformed (InvalidContainer reason))
              (decode_with_reason \<lparr>eh_type = t, eh_content = take (len - 2) (drop 1 buf), eh_next = 0\<rparr>))
              (\<lambda>c. Ok (Some c))
       else Ok psc) (\<lambda>psc'.
    summarize_walk raw (buf ! (len - 1)) (off + len) (saturating_add count 1) psc')"
proof -
  have pos: "0 < unat (buf ! 0)" using assms(4) by (simp add: unat_gt_0)
  have off: "off < length raw" "buf ! 0 = raw ! off" using assms(2,3) by auto
  have fits: "off + len \<le> length raw" using assms(2,5) off by (simp add: len_def)
  have four: "4 \<le> len" using pos by (simp add: len_def)
  have content: "subslice raw (off + 1) (off + len - 1) =
      (Ok (take (len - 2) (drop 1 buf)) :: (bytes, chain_error) result)"
  proof -
    have "off + 1 \<le> off + len - 1" "off + len - 1 \<le> length raw" "off + len - 1 - (off + 1) = len - 2"
      using fits four by linarith+
    then show ?thesis unfolding subslice_def assms(2) drop_drop by (simp add: add.commute)
  qed
  have last: "byte_at raw (off + len - 1) = (Ok (buf ! (len - 1)) :: (u8, chain_error) result)"
  proof -
    have "off + len - 1 < length raw" "off + (len - 1) = off + len - 1" using fits four by linarith+
    then show ?thesis unfolding byte_at_def assms(2) by simp
  qed
  have first: "byte_at raw off = (Ok (buf ! 0) :: (u8, chain_error) result)" using off by (simp add: byte_at_def)
  have mul: "checked_mul (unat (buf ! 0)) 4 = Some len" by (simp add: len_def)
  show ?thesis
    unfolding summarize_walk.simps [of raw t] first and_then.simps mul ok_or.simps Let_def
    using assms(1,6) pos off fits content last
    by (simp add: checked_add_def decode_with_reason_next [of _ _ "buf ! (len - Suc 0)"])
qed

lemma summarize_walk_malformed:
  assumes "t \<noteq> 0" "buf = drop off raw" "off \<le> length raw" "length raw \<le> max_u64"
    and "buf = [] \<or> buf ! 0 = 0 \<or> length buf < 4 * unat (buf ! 0)"
  shows "\<exists>e. summarize_walk raw t off count psc = Err e"
  using assms by (subst summarize_walk.simps) (auto simp: byte_at_def checked_add_def unat_eq_0 Let_def)

lemma summarize_walk_Ok_iff:
  assumes "off \<le> length raw" "length raw \<le> max_u64" "count \<le> max_u64" "buf = drop off raw"
  shows "summarize_walk raw t off count psc = Ok (off', count', psc') \<longleftrightarrow>
    (\<exists>hs rest. parse_chain t buf = Some (hs, rest) \<and> off' = length raw - length rest \<and>
       count' = min (count + length hs) max_u64 \<and> container_scan psc hs = Some psc')"
  using assms
proof (induction t buf arbitrary: off count psc rule: parse_chain.induct)
  case (1 t buf)
  consider "t = 0" | (bad) "t \<noteq> 0" "buf = [] \<or> buf ! 0 = 0 \<or> length buf < 4 * unat (buf ! 0)"
    | (head) "t \<noteq> 0" "buf \<noteq> []" "buf ! 0 \<noteq> 0" "4 * unat (buf ! 0) \<le> length buf"
    by fastforce
  then show ?case
  proof cases
    case 1
    with "1.prems" show ?thesis by (auto simp: summarize_walk.simps)
  next
    case bad
    have "parse_chain t buf = None" using bad by (subst parse_chain.simps) simp
    with summarize_walk_malformed [OF bad(1) "1.prems"(4,1,2) bad(2), of count psc] show ?thesis by auto
  next
    case head
    let ?len = "4 * unat (buf ! 0)"
    have "off + ?len \<le> length raw" using head "1.prems" by simp
    moreover have "drop ?len buf = drop (off + ?len) raw" by (simp add: "1.prems" ac_simps)
    moreover have "saturating_add count 1 \<le> max_u64" by (rule saturating_add_le_max)
    ultimately have IH: "summarize_walk raw (buf ! (?len - 1)) (off + ?len) (saturating_add count 1) psc1 = Ok (off', count', psc') \<longleftrightarrow>
      (\<exists>hs rest. parse_chain (buf ! (?len - 1)) (drop ?len buf) = Some (hs, rest) \<and> off' = length raw - length rest \<and>
       count' = min (saturating_add count 1 + length hs) max_u64 \<and> container_scan psc1 hs = Some psc')" for psc1
      using "1.IH" [OF head(1) _ refl] head "1.prems"(2) by auto
    have cnt: "min (saturating_add count 1 + n) max_u64 = min (count + Suc n) max_u64" for n
      by (simp add: saturating_add_def)
    have parse: "parse_chain t buf = map_option (\<lambda>(hs, rest). ((t, take (?len - 2) (drop 1 buf)) # hs, rest))
       (parse_chain (buf ! (?len - 1)) (drop ?len buf))"
      using head by (subst parse_chain.simps) (auto simp: Let_def split: option.splits)
    show ?thesis
      unfolding summarize_walk_step [OF head(1) "1.prems"(4) head(2-4) "1.prems"(2)] parse
      by (auto simp: outcome_simps IH [unfolded One_nat_def] cnt [unfolded One_nat_def] split: result.splits if_splits)
  qed
qed

lemma chain_bytes_Nil_iff [simp]: "chain_bytes hs = [] \<longleftrightarrow> hs = []" "[] = chain_bytes hs \<longleftrightarrow> hs = []"
  by (cases hs rule: chain_bytes.cases; simp)+

lemma summarize_Ok_iff:
  assumes "length raw \<le> max_u64"
  shows "summarize_extension_chain ft raw = Ok c \<longleftrightarrow>
    (\<exists>hs psc. chain_ok hs \<and> raw = chain_bytes hs \<and> container_scan None hs = Some psc \<and>
       ft = (if hs = [] then None else Some (chain_first hs)) \<and>
       c = \<lparr>gc_first_type = ft, gc_raw_headers = raw, gc_header_count = length hs, gc_container = psc\<rparr>)"
    (is "?l \<longleftrightarrow> ?r")
proof (cases "raw = []")
  case True
  then have "?r \<longleftrightarrow> ft = None \<and> c = chain_none" by (auto simp: chain_none_def)
  then show ?thesis using True by (auto simp: summarize_extension_chain_def)
next
  case False
  have cnt: "length hs \<le> length (chain_bytes hs)" for hs
    by (induction hs rule: chain_bytes.induct) auto
  have walk: "summarize_walk raw t 0 0 None = Ok (off, count, psc) \<and> off = length raw \<longleftrightarrow>
     (\<exists>hs. chain_ok hs \<and> chain_first hs = t \<and> raw = chain_bytes hs \<and> count = length hs \<and> container_scan None hs = Some psc \<and> off = length raw)" (is "?a \<longleftrightarrow> ?b") for t off count psc
  proof
    assume ?a
    then have w: "summarize_walk raw t 0 0 None = Ok (off, count, psc)" and o: "off = length raw" by simp_all
    from w obtain hs rest where p: "parse_chain t raw = Some (hs, rest)"
      and "off = length raw - length rest" "count = min (0 + length hs) max_u64"
      and c: "container_scan None hs = Some psc"
      using summarize_walk_Ok_iff [of 0 raw 0 raw] assms by auto
    with o have off: "length raw - length rest = length raw" and c': "count = min (length hs) max_u64" by simp_all
    have hs: "raw = chain_bytes hs @ rest" "chain_first hs = t" "chain_ok hs"
      using parse_chain_SomeD [OF p] by auto
    then have "rest = []" using off False by (cases rest) auto
    moreover have "min (length hs) max_u64 = length hs" using hs(1) cnt [of hs] assms by simp
    ultimately show ?b using hs c c' o by (intro exI [of _ hs]) simp
  next
    assume ?b
    then obtain hs where hs: "chain_ok hs" "chain_first hs = t" "raw = chain_bytes hs"
      and c: "count = length hs" "container_scan None hs = Some psc" "off = length raw" by blast
    then have "parse_chain t raw = Some (hs, [])" using parse_chain_bytes [of hs "[]"] by simp
    moreover have "count = min (0 + length hs) max_u64" using c hs(3) cnt [of hs] assms by simp
    ultimately have "summarize_walk raw t 0 0 None = Ok (off, count, psc)"
      using c assms by (subst summarize_walk_Ok_iff [of 0 raw 0 raw]) simp_all
    with c show ?a by simp
  qed
  have nz: "chain_ok hs \<Longrightarrow> raw = chain_bytes hs \<Longrightarrow> hs \<noteq> [] \<and> chain_first hs \<noteq> 0" for hs
    using False by (cases hs) auto
  have "?l \<longleftrightarrow> (\<exists>t off count psc. ft = Some t \<and> t \<noteq> 0 \<and>
      (summarize_walk raw t 0 0 None = Ok (off, count, psc) \<and> off = length raw) \<and>
      c = \<lparr>gc_first_type = ft, gc_raw_headers = raw, gc_header_count = count, gc_container = psc\<rparr>)"
    using False by (auto simp: summarize_extension_chain_def outcome_simps split: if_splits)
  also have "\<dots> \<longleftrightarrow> ?r" unfolding walk
  proof
    assume ?r
    then obtain hs psc where r: "chain_ok hs" "raw = chain_bytes hs" "container_scan None hs = Some psc"
       "ft = (if hs = [] then None else Some (chain_first hs))"
       "c = \<lparr>gc_first_type = ft, gc_raw_headers = raw, gc_header_count = length hs, gc_container = psc\<rparr>"
      by blast
    with nz [OF r(1,2)] show "\<exists>t off count psc. ft = Some t \<and> t \<noteq> 0 \<and>
      (\<exists>hs. chain_ok hs \<and> chain_first hs = t \<and> raw = chain_bytes hs \<and> count = length hs \<and>
            container_scan None hs = Some psc \<and> off = length raw) \<and>
      c = \<lparr>gc_first_type = ft, gc_raw_headers = raw, gc_header_count = count, gc_container = psc\<rparr>"
      by auto
  next
    assume "\<exists>t off count psc. ft = Some t \<and> t \<noteq> 0 \<and>
      (\<exists>hs. chain_ok hs \<and> chain_first hs = t \<and> raw = chain_bytes hs \<and> count = length hs \<and>
            container_scan None hs = Some psc \<and> off = length raw) \<and>
      c = \<lparr>gc_first_type = ft, gc_raw_headers = raw, gc_header_count = count, gc_container = psc\<rparr>"
    then obtain psc hs where "ft = Some (chain_first hs)" "chain_ok hs" "raw = chain_bytes hs"
      "container_scan None hs = Some psc"
      "c = \<lparr>gc_first_type = ft, gc_raw_headers = raw, gc_header_count = length hs, gc_container = psc\<rparr>"
      by blast
    moreover from this nz have "hs \<noteq> []" by blast
    ultimately show ?r by (intro exI [of _ hs] exI [of _ psc]) simp
  qed
  finally show ?thesis .
qed

lemma encode_parts_Ok_iff:
  "encode_parts raw hs = Ok w \<longleftrightarrow> list_all (content_ok \<circ> snd) hs \<and> w = raw @ chain_bytes hs"
proof (induction raw hs arbitrary: w rule: encode_parts.induct)
  case (2 raw t content hs)
  have "(case hs of [] \<Rightarrow> 0 | (t, _) # _ \<Rightarrow> t) = chain_first hs"
    by (cases hs rule: chain_first.cases) auto
  with 2 show ?case by (auto simp: outcome_simps encode_extension_header_Ok_iff)
qed auto

lemma parts_capacity_Ok:
  "n + length (chain_bytes hs) \<le> max_u64 \<Longrightarrow> parts_capacity n hs = Ok (n + length (chain_bytes hs))"
  by (induction n hs rule: parts_capacity.induct) (auto simp: outcome_simps checked_add_def)

lemma from_extension_parts_Ok:
  assumes "chain_ok hs" "length (chain_bytes hs) \<le> max_u64" "container_scan None hs = Some psc"
  shows "from_extension_parts hs = Ok \<lparr>gc_first_type = (if hs = [] then None else Some (chain_first hs)),
     gc_raw_headers = chain_bytes hs, gc_header_count = length hs, gc_container = psc\<rparr>"
proof -
  have "(case hs of [] \<Rightarrow> None | (t, _) # _ \<Rightarrow> Some t) = (if hs = [] then None else Some (chain_first hs))"
    by (cases hs rule: chain_first.cases) auto
  moreover have "list_all (content_ok \<circ> snd) hs"
    using assms(1) by (induction hs) (auto simp: chain_ok_def)
  then have "encode_parts [] hs = Ok (chain_bytes hs)" by (simp add: encode_parts_Ok_iff)
  moreover have "summarize_extension_chain (if hs = [] then None else Some (chain_first hs)) (chain_bytes hs) =
      Ok \<lparr>gc_first_type = (if hs = [] then None else Some (chain_first hs)),
           gc_raw_headers = chain_bytes hs, gc_header_count = length hs, gc_container = psc\<rparr>"
    unfolding summarize_Ok_iff [OF assms(2)] using assms by blast
  ultimately show ?thesis
    using assms(2) parts_capacity_Ok [of 0 hs]
    by (simp only: from_extension_parts_def chain_from_raw_def) simp
qed

lemma chain_summary_sel [simp]:
  "gc_first_type (chain_summary hs psc) = (if hs = [] then None else Some (chain_first hs))"
  "gc_raw_headers (chain_summary hs psc) = chain_bytes hs"
  "gc_header_count (chain_summary hs psc) = length hs"
  "gc_container (chain_summary hs psc) = psc"
  by (simp_all add: chain_summary_def)

lemma from_raw_summary:
  "length (chain_bytes hs) \<le> max_u64 \<Longrightarrow> chain_ok hs \<Longrightarrow> container_scan None hs = Some psc \<Longrightarrow>
   chain_from_raw (if hs = [] then None else Some (chain_first hs)) (chain_bytes hs) = Ok (chain_summary hs psc)"
  unfolding chain_from_raw_def by (subst summarize_Ok_iff) (auto simp: chain_summary_def)

lemma from_raw_OkD:
  assumes "chain_from_raw ft raw = Ok c" "length raw \<le> max_u64"
  shows "\<exists>hs psc. chain_ok hs \<and> container_scan None hs = Some psc \<and> c = chain_summary hs psc \<and>
     raw = chain_bytes hs \<and> ft = (if hs = [] then None else Some (chain_first hs))"
  using assms unfolding chain_from_raw_def summarize_Ok_iff [OF assms(2)] chain_summary_def by blast

lemma validate_consistency_Ok_iff:
  assumes "length (gc_raw_headers c) \<le> max_u64"
  shows "validate_consistency c = Ok u \<longleftrightarrow>
    (\<exists>hs psc. chain_ok hs \<and> container_scan None hs = Some psc \<and> c = chain_summary hs psc)"
proof
  assume "validate_consistency c = Ok u"
  then have "chain_from_raw (gc_first_type c) (gc_raw_headers c) = Ok c"
    by (auto simp: validate_consistency_def outcome_simps split: if_splits)
  from from_raw_OkD [OF this assms] show "\<exists>hs psc. chain_ok hs \<and> container_scan None hs = Some psc \<and> c = chain_summary hs psc"
    by blast
next
  assume "\<exists>hs psc. chain_ok hs \<and> container_scan None hs = Some psc \<and> c = chain_summary hs psc"
  with assms show "validate_consistency c = Ok u"
    by (auto simp: validate_consistency_def from_raw_summary)
qed

lemma iter_first_type: "(case gc_first_type (chain_summary hs psc) of None \<Rightarrow> 0 | Some t \<Rightarrow> t) = chain_first hs"
  by (simp add: chain_summary_def)

lemma ext_for_each_bytes:
  "chain_ok hs \<Longrightarrow> ext_for_each g body (ext_iter_new (chain_bytes hs) (chain_first hs)) s =
     and_then (try_fold body (chain_headers hs) s) (\<lambda>s'. Ok (s', ext_iter_new [] 0))"
  using ext_for_each_chain [of "chain_first hs" "chain_bytes hs" hs "[]"] parse_chain_bytes [of hs "[]"] by simp

lemma length_chain_bytes_filter: "length (chain_bytes (filter P hs)) \<le> length (chain_bytes hs)"
  by (induction hs rule: chain_bytes.induct) auto

lemma chain_ok_filter: "chain_ok hs \<Longrightarrow> chain_ok (filter P hs)"
  by (auto simp: chain_ok_def list_all_iff)

lemma length_le_chain_bytes: "2 * length hs \<le> length (chain_bytes hs)"
  by (induction hs rule: chain_bytes.induct) auto

lemma container_scan_others:
  "container_scan psc (filter (\<lambda>h. fst h \<noteq> GTPU_EXT_PDU_SESSION_CONTAINER) hs) = Some psc"
  by (induction hs) auto

lemma container_scan_unique:
  "container_scan psc hs = Some psc' \<Longrightarrow>
   length (filter (\<lambda>h. fst h = GTPU_EXT_PDU_SESSION_CONTAINER) hs) \<le> (if psc = None then 1 else 0)"
  by (induction psc hs rule: container_scan.induct) (auto split: if_splits result.splits)

lemma try_fold_remove:
  "length (filter (\<lambda>h. fst h = ty) hs) \<le> (if removed then 0 else 1) \<Longrightarrow>
   try_fold (\<lambda>ext (headers, removed).
       if eh_type ext = ty then if removed then Err BuiltChainInvalid else Ok (headers, True)
       else Ok (headers @ [(eh_type ext, eh_content ext)], removed)) (chain_headers hs) (acc, removed) =
   Ok (acc @ filter (\<lambda>h. fst h \<noteq> ty) hs, removed \<or> ty \<in> fst ` set hs)"
  by (induction hs arbitrary: acc removed rule: chain_headers.induct) (auto split: if_splits)

fun replace_type :: "u8 \<Rightarrow> bytes \<Rightarrow> chain \<Rightarrow> chain" where
  "replace_type ty r [] = []"
| "replace_type ty r ((t, c) # hs) = (t, if t = ty then r else c) # replace_type ty r hs"

lemma try_fold_replace:
  "length (filter (\<lambda>h. fst h = ty) hs) \<le> (if replaced then 0 else 1) \<Longrightarrow>
   try_fold (\<lambda>ext (headers, replaced).
       if eh_type ext = ty
       then if replaced then Err BuiltChainInvalid else Ok (headers @ [(eh_type ext, r)], True)
       else Ok (headers @ [(eh_type ext, eh_content ext)], replaced)) (chain_headers hs) (acc, replaced) =
   Ok (acc @ replace_type ty r hs, replaced \<or> ty \<in> fst ` set hs)"
  by (induction hs arbitrary: acc replaced rule: chain_headers.induct) (auto split: if_splits)

lemma upsert_leading_summary:
  assumes "chain_ok hs" "container_scan None hs = Some psc" "length (chain_bytes hs) + 1024 \<le> max_u64"
    and "ty \<noteq> 0" "content_ok r" "length (filter (\<lambda>h. fst h = ty) hs) \<le> 1"
    and "container_scan None ((ty, r) # filter (\<lambda>h. fst h \<noteq> ty) hs) = Some psc'"
  shows "upsert_leading_extension (chain_summary hs psc) ty r =
    Ok (chain_summary ((ty, r) # filter (\<lambda>h. fst h \<noteq> ty) hs) psc')"
proof -
  have "validate_consistency (chain_summary hs psc) = Ok ()"
    using assms by (subst validate_consistency_Ok_iff) auto
  moreover have "length hs + 1 \<le> max_u64" using length_le_chain_bytes [of hs] assms(3) by linarith
  moreover have "length (chain_bytes ((ty, r) # filter (\<lambda>h. fst h \<noteq> ty) hs)) \<le> max_u64"
    using length_chain_bytes_filter [of "\<lambda>h. fst h \<noteq> ty" hs] assms(3,5) by (auto simp: content_ok_def)
  then have "from_extension_parts ((ty, r) # filter (\<lambda>h. fst h \<noteq> ty) hs) =
      Ok (chain_summary ((ty, r) # filter (\<lambda>h. fst h \<noteq> ty) hs) psc')"
    using from_extension_parts_Ok [OF _ _ assms(7)] assms(1,4,5)
    by (simp add: chain_ok_filter chain_summary_def)
  ultimately show ?thesis
    using try_fold_remove [of ty hs False] assms(1,6)
    by (simp add: upsert_leading_extension_def iter_first_type ext_for_each_bytes checked_add_def
        del: chain_summary_sel(1))
qed

lemma replace_type_absent: "ty \<notin> fst ` set hs \<Longrightarrow> replace_type ty r hs = hs"
  by (induction hs rule: replace_type.induct[of _ ty r]) auto

lemma replace_type_first [simp]: "chain_first (replace_type ty r hs) = chain_first hs"
  by (cases hs rule: chain_first.cases) auto

lemma length_chain_bytes_replace:
  "length (chain_bytes (replace_type ty r hs)) \<le> length (chain_bytes hs) + length (filter (\<lambda>h. fst h = ty) hs) * length r"
  by (induction ty r hs rule: replace_type.induct) auto

lemma chain_ok_replace: "chain_ok hs \<Longrightarrow> content_ok r \<Longrightarrow> chain_ok (replace_type ty r hs)"
  by (induction ty r hs rule: replace_type.induct) auto

lemma container_scan_replace:
  "ty \<noteq> GTPU_EXT_PDU_SESSION_CONTAINER \<Longrightarrow> container_scan psc (replace_type ty r hs) = container_scan psc hs"
  by (induction psc hs rule: container_scan.induct) (auto split: result.splits)

lemma container_scan_append:
  "ty \<noteq> GTPU_EXT_PDU_SESSION_CONTAINER \<Longrightarrow> container_scan psc (hs @ [(ty, r)]) = container_scan psc hs"
  by (induction psc hs rule: container_scan.induct) (auto split: result.splits)

lemma chain_ok_append: "chain_ok (hs @ ks) \<longleftrightarrow> chain_ok hs \<and> chain_ok ks"
  by (simp add: chain_ok_def)

lemma length_chain_bytes_append: "length (chain_bytes (hs @ ks)) = length (chain_bytes hs) + length (chain_bytes ks)"
  by (induction hs rule: chain_bytes.induct) auto

lemma upsert_extension_summary:
  assumes "chain_ok hs" "container_scan None hs = Some psc" "length (chain_bytes hs) + 2048 \<le> max_u64"
    and "ty \<noteq> 0" "ty \<noteq> GTPU_EXT_PDU_SESSION_CONTAINER" "content_ok r"
    and one: "length (filter (\<lambda>h. fst h = ty) hs) \<le> 1"
  defines "hs' \<equiv> if ty \<in> fst ` set hs then replace_type ty r hs else hs @ [(ty, r)]"
  shows "upsert_extension (chain_summary hs psc) ty r = Ok (chain_summary hs' psc)"
proof -
  have "validate_consistency (chain_summary hs psc) = Ok ()"
    using assms by (subst validate_consistency_Ok_iff) auto
  moreover have "length hs + 1 \<le> max_u64" using length_le_chain_bytes [of hs] assms(3) by linarith
  moreover have "from_extension_parts hs' = Ok (chain_summary hs' psc)"
    unfolding chain_summary_def
  proof (rule from_extension_parts_Ok)
    show "chain_ok hs'" using assms by (simp add: hs'_def chain_ok_replace chain_ok_append)
    show "container_scan None hs' = Some psc"
      using assms by (simp add: hs'_def container_scan_replace container_scan_append)
    have r: "length r \<le> 1018" using assms(6) by (simp add: content_ok_def)
    have "length (filter (\<lambda>h. fst h = ty) hs) * length r \<le> 1 * 1018" using one r by (rule mult_le_mono)
    then show "length (chain_bytes hs') \<le> max_u64"
      using assms(3) r length_chain_bytes_replace [of ty r hs] by (simp add: hs'_def length_chain_bytes_append)
  qed
  ultimately show ?thesis
    using try_fold_replace [of ty hs False r] one assms(1)
    by (simp add: upsert_extension_def iter_first_type ext_for_each_bytes checked_add_def hs'_def
        replace_type_absent del: chain_summary_sel(1) split: if_splits)
qed

section \<open>Properties\<close>

text \<open>
  C22. Validation of a raw chain is exact: for any bytes that fit a buffer, \<open>chain_from_raw\<close>
  succeeds if and only if they are the encoding of a well-formed list of headers that starts
  with the given type and carries at most one, valid PDU Session Container; the summary then
  records that list's length and that container.
\<close>

theorem chain_from_raw_exact:
  assumes "length raw \<le> max_u64"
  shows "chain_from_raw ft raw = Ok c \<longleftrightarrow>
    (\<exists>hs psc. chain_ok hs \<and> raw = chain_bytes hs \<and> container_scan None hs = Some psc \<and>
       ft = (if hs = [] then None else Some (chain_first hs)) \<and>
       gc_first_type c = ft \<and> gc_raw_headers c = raw \<and>
       gc_header_count c = length hs \<and> gc_container c = psc)"
  unfolding chain_from_raw_def summarize_Ok_iff [OF assms]
  by (intro arg_cong [where f = Ex] ext) auto

theorem chain_from_raw_exact_witness:
  "\<exists>c. chain_from_raw (Some 0x40) [1, 0x08, 0x68, 0] = Ok c \<and> gc_header_count c = 1 \<and> gc_container c = None"
proof -
  let ?c = "\<lparr>gc_first_type = Some 0x40, gc_raw_headers = [1, 0x08, 0x68, 0], gc_header_count = 1,
             gc_container = None\<rparr>"
  have "chain_ok [(0x40, [0x08, 0x68])] \<and> [1, 0x08, 0x68, 0] = chain_bytes [(0x40, [0x08, 0x68])] \<and>
      container_scan None [(0x40, [0x08, 0x68])] = Some None"
    by (simp add: content_ok_def ext_type_codes)
  then have "chain_from_raw (Some 0x40) [1, 0x08, 0x68, 0] = Ok ?c"
    by (subst chain_from_raw_exact)
       (simp add: max_u64_def, rule exI [of _ "[(0x40, [0x08, 0x68])]"], simp)
  then show ?thesis by auto
qed

text \<open>
  C23. Upserting a PDU Session Container into the consistent chain of any headers puts it first,
  whatever the position of a previous one, keeps every other header with its type, content and
  order, and yields a consistent chain that reports exactly that container.
\<close>

theorem upsert_container_leading:
  assumes hs: "chain_ok hs" "container_scan None hs = Some psc" and p: "psc_validate p = Ok ()"
    and len: "length (chain_bytes hs) + 1024 \<le> max_u64"
  shows "\<exists>w c'. psc_encode p = Ok w \<and>
    c' = chain_summary ((GTPU_EXT_PDU_SESSION_CONTAINER, w)
           # filter (\<lambda>h. fst h \<noteq> GTPU_EXT_PDU_SESSION_CONTAINER) hs) (Some p) \<and>
    upsert_pdu_session_container (chain_summary hs psc) p = Ok c' \<and> validate_consistency c' = Ok ()"
proof -
  let ?t = GTPU_EXT_PDU_SESSION_CONTAINER
  obtain w where w: "psc_encode p = Ok w" using p psc_encode_Ok_iff by blast
  let ?hs = "(?t, w) # filter (\<lambda>h. fst h \<noteq> ?t) hs"
  have scan: "container_scan None ?hs = Some (Some p)"
    using psc_decode_encode_lem [OF w] by (simp add: container_scan_others)
  have up: "upsert_pdu_session_container (chain_summary hs psc) p = Ok (chain_summary ?hs (Some p))"
    using upsert_leading_summary [OF hs _ _ psc_encode_content_ok [OF w] _ scan] container_scan_unique [OF hs(2)]
      len w by (simp add: upsert_pdu_session_container_def ext_type_codes)
  have "length (chain_bytes ?hs) \<le> max_u64"
    using length_chain_bytes_filter [of "\<lambda>h. fst h \<noteq> ?t" hs] len psc_encode_content_ok [OF w]
    by (simp add: content_ok_def)
  then have "validate_consistency (chain_summary ?hs (Some p)) = Ok ()"
    using hs scan psc_encode_content_ok [OF w]
    by (subst validate_consistency_Ok_iff) (auto simp: ext_type_codes chain_ok_filter intro!: exI [of _ ?hs])
  with up w show ?thesis by blast
qed

theorem upsert_container_leading_witness:
  "\<exists>w. psc_encode \<lparr>psc_pdu_type = 1, psc_qfi = 9, psc_ppi = None, psc_rqi = False\<rparr> = Ok w \<and>
     upsert_pdu_session_container (chain_summary [(0x40, [0x08, 0x68]), (0x20, [3, 0])] None)
       \<lparr>psc_pdu_type = 1, psc_qfi = 9, psc_ppi = None, psc_rqi = False\<rparr> =
     Ok (chain_summary [(0x85, w), (0x40, [0x08, 0x68]), (0x20, [3, 0])]
       (Some \<lparr>psc_pdu_type = 1, psc_qfi = 9, psc_ppi = None, psc_rqi = False\<rparr>))"
  using upsert_container_leading [of "[(0x40, [0x08, 0x68]), (0x20, [3, 0])]" None
      "\<lparr>psc_pdu_type = 1, psc_qfi = 9, psc_ppi = None, psc_rqi = False\<rparr>"]
  by (auto simp: content_ok_def ext_type_codes max_u64_def psc_validate_def)

text \<open>
  C24. Upserting the UDP port replaces the content of the one UDP Port header in place, or
  appends such a header when there is none; every other header and the summarised container
  stay as they are.
\<close>

theorem upsert_udp_port_in_place:
  assumes "chain_ok hs" and "container_scan None hs = Some psc"
    and "length (filter (\<lambda>h. fst h = GTPU_EXT_UDP_PORT) hs) \<le> 1"
    and "length (chain_bytes hs) + 2048 \<le> max_u64"
  shows "upsert_udp_port (chain_summary hs psc) port =
    Ok (chain_summary
         (if GTPU_EXT_UDP_PORT \<in> fst ` set hs
          then map (\<lambda>(t, c). (t, if t = GTPU_EXT_UDP_PORT then u16_bytes port else c)) hs
          else hs @ [(GTPU_EXT_UDP_PORT, u16_bytes port)]) psc)"
proof -
  have "replace_type ty r hs = map (\<lambda>(t, c). (t, if t = ty then r else c)) hs" for ty r
    by (induction hs) auto
  moreover have "content_ok (u16_bytes port)" by (simp add: content_ok_def)
  ultimately show ?thesis
    using upsert_extension_summary [OF assms(1,2,4) _ _ _ assms(3), of "u16_bytes port"]
    by (simp add: upsert_udp_port_def ext_type_codes)
qed

theorem upsert_udp_port_in_place_witness:
  "upsert_udp_port (chain_summary [(0x40, [0, 1]), (0x20, [3, 0])] None) 0x0868 =
     Ok (chain_summary [(0x40, [8, 0x68]), (0x20, [3, 0])] None)"
  using upsert_udp_port_in_place [of "[(0x40, [0, 1]), (0x20, [3, 0])]" None "0x0868"]
  by (simp add: content_ok_def ext_type_codes max_u64_def u16_bytes_def)

end
