(* ===== verification/Gtpu_Codec.thy ===== *)
theory Gtpu_Codec
  imports Gtpu_Chain
begin

text \<open>
  The GTP-U message codec of \<^verbatim>\<open>crates/opc-proto-gtpu/src/lib.rs\<close>: the borrowed and the owned
  message, the decoder with its extension-header walk, and the canonical and raw-preserving
  encoders. The round trips that \<^verbatim>\<open>opc-protocol\<close> documents for codecs are proved here.
\<close>

section \<open>Model\<close>

fun validation_strictness :: "validation_level \<Rightarrow> nat" where
  "validation_strictness HeaderOnly = 0"
| "validation_strictness StructuralLevel = 1"
| "validation_strictness Strict = 2"
| "validation_strictness ProcedureAware = 3"

record gtpu_header =
  h_version :: u8
  h_protocol_type :: bool
  h_reserved :: u8
  h_ext_hdr_flag :: bool
  h_seq_num_flag :: bool
  h_npdu_num_flag :: bool
  h_message_type :: u8
  h_length :: u16
  h_teid :: u32
  h_sequence_number :: "u16 option"
  h_npdu_number :: "u8 option"
  h_next_ext_type :: "u8 option"
  h_raw_sequence_number :: "u16 option"
  h_raw_npdu_number :: "u8 option"
  h_raw_next_ext_type :: "u8 option"

record gtpu_message =
  m_header :: gtpu_header
  m_raw_ext :: bytes
  m_payload :: bytes

definition gtpu_spec :: spec_ref where
  "gtpu_spec = spec_ref_new ''3gpp'' ''TS29281'' ''5.1''"

definition gtpu_err :: "decode_error_code \<Rightarrow> usize \<Rightarrow> decode_error" where
  "gtpu_err code offset = decode_with_spec_ref gtpu_spec (decode_error_new code offset)"

text \<open>
  The \<^verbatim>\<open>while\<close> loop over the extension headers of a packet. \<open>packet\<close> is the declared part of
  the input; the result is the offset after the last header.
\<close>

function ext_walk ::
  "decode_context \<Rightarrow> bytes \<Rightarrow> u8 \<Rightarrow> usize \<Rightarrow> usize \<Rightarrow> usize \<Rightarrow> (usize, decode_error) result" where
  "ext_walk ctx packet current_next offset depth ie_count =
     (if current_next = 0 then Ok offset
      else if depth + 1 > dc_max_depth ctx then Err (gtpu_err DepthExceeded offset)
      else if ie_count + 1 > dc_max_ies ctx then Err (gtpu_err IeCountExceeded offset)
      else
      and_then (ok_or (gtpu_err LengthOverflow offset) (checked_sub (length packet) offset)) (\<lambda>remaining.
      if remaining < 4 then Err (gtpu_err Truncated offset)
      else
      and_then (byte_at packet offset) (\<lambda>b.
      let ext_len_units = unat b in
      if ext_len_units = 0
      then Err (gtpu_err (InvalidLength ''extension header units is zero'') offset)
      else
      and_then (ok_or (gtpu_err LengthOverflow offset) (checked_mul ext_len_units 4)) (\<lambda>ext_len_bytes.
      if remaining < ext_len_bytes then Err (gtpu_err Truncated offset)
      else
      and_then (ok_or (gtpu_err LengthOverflow offset)
        (case checked_add offset ext_len_bytes of None \<Rightarrow> None | Some e \<Rightarrow> checked_sub e 1)) (\<lambda>next_offset.
      and_then (byte_at packet next_offset) (\<lambda>next_ext.
      and_then
        (if dc_validation_level ctx = ProcedureAware
         then and_then (subslice packet (offset + 1) next_offset) (\<lambda>content.
              map_err (\<lambda>e. decode_with_spec_ref (spec_ref_new ''3gpp'' ''TS29281'' ''5.2.2'')
                        (decode_error_new (de_code e) offset))
                (validate_fixed_length
                   \<lparr>eh_type = current_next, eh_content = content, eh_next = next_ext\<rparr>))
         else Ok ()) (\<lambda>_.
      if unsupported_requires_comprehension_by (ExtHeaderType current_next) Endpoint \<and>
         dc_unknown_ie_policy ctx = UnknownReject
      then Err (gtpu_err UnknownCriticalIe offset)
      else
      and_then
        (if dc_validation_level ctx = ProcedureAware \<and> current_next = 0x85
         then and_then (subslice packet (offset + 1) next_offset) (\<lambda>content.
              case psc_decode \<lparr>eh_type = current_next, eh_content = content, eh_next = next_ext\<rparr> of
                Err _ \<Rightarrow> Err (gtpu_err (Structural ''malformed PDU Session Container'') offset)
              | Ok _ \<Rightarrow> Ok ()
              | Panic \<Rightarrow> Panic)
         else Ok ()) (\<lambda>_.
      and_then (ok_or (gtpu_err LengthOverflow offset) (checked_add offset ext_len_bytes)) (\<lambda>offset'.
      ext_walk ctx packet next_ext offset' (depth + 1) (ie_count + 1))))))))))"
  by auto
termination
  by (relation "measure (\<lambda>(ctx, packet, n, offset, d, i). length packet - offset)")
     (auto simp: outcome_simps)

declare ext_walk.simps [simp del]

text \<open>
  The optional fields: raw sequence number, N-PDU number and next extension type, absent
  when no flag is set.
\<close>

definition decode_optional ::
  "decode_context \<Rightarrow> bytes \<Rightarrow> u16 \<Rightarrow> bool \<Rightarrow> bool \<Rightarrow> bool
     \<Rightarrow> (u16 option \<times> u8 option \<times> u8 option, decode_error) result" where
  "decode_optional ctx packet length_field ext_hdr_flag seq_num_flag npdu_num_flag =
     (if ext_hdr_flag \<or> seq_num_flag \<or> npdu_num_flag
      then if unat length_field < 4
           then Err (gtpu_err
                  (InvalidLength ''length smaller than optional fields size (4 octets)'') 8)
           else
           and_then (byte_at packet 8) (\<lambda>p8. and_then (byte_at packet 9) (\<lambda>p9.
           and_then (byte_at packet 10) (\<lambda>npdu. and_then (byte_at packet 11) (\<lambda>next_ext.
           if validation_strictness (dc_validation_level ctx) \<ge> 2 \<and> ext_hdr_flag \<and> next_ext = 0
           then Err (gtpu_err
                  (Structural ''extension header flag set but next extension header type is 0'') 11)
           else Ok (Some (be16 p8 p9), Some npdu, Some next_ext)))))
      else Ok (None, None, None))"

definition decode_ext_len ::
  "decode_context \<Rightarrow> bytes \<Rightarrow> bool \<Rightarrow> u8 option \<Rightarrow> (usize, decode_error) result" where
  "decode_ext_len ctx packet ext_hdr_flag next_ext_type =
     (if ext_hdr_flag
      then and_then (ext_walk ctx packet (case next_ext_type of None \<Rightarrow> 0 | Some t \<Rightarrow> t) 12 0 0) (\<lambda>off.
           ok_or (gtpu_err LengthOverflow off) (checked_sub off 12))
      else Ok 0)"

definition gtpu_decode ::
  "bytes \<Rightarrow> decode_context \<Rightarrow> (bytes \<times> gtpu_message, decode_error) result" where
  "gtpu_decode input ctx =
     (if length input > dc_max_message_len ctx then Err (gtpu_err MessageLengthExceeded 0)
      else if length input < 8 then Err (gtpu_err Truncated 0)
      else
      and_then (byte_at input 0) (\<lambda>b1.
      let version = drop_bit 5 b1 AND 0x07;
          protocol_type = (drop_bit 4 b1 AND 0x01 \<noteq> 0);
          reserved = drop_bit 3 b1 AND 0x01;
          ext_hdr_flag = (drop_bit 2 b1 AND 0x01 \<noteq> 0);
          seq_num_flag = (drop_bit 1 b1 AND 0x01 \<noteq> 0);
          npdu_num_flag = (b1 AND 0x01 \<noteq> 0)
      in
      if version \<noteq> 1 then Err (gtpu_err (InvalidEnumValue ''version'' (unat version)) 0)
      else if \<not> protocol_type then Err (gtpu_err (InvalidEnumValue ''protocol_type'' 0) 0)
      else if validation_strictness (dc_validation_level ctx) \<ge> 2 \<and> reserved \<noteq> 0
      then Err (gtpu_err (Structural ''reserved bit must be zero'') 0)
      else
      and_then (byte_at input 1) (\<lambda>message_type.
      and_then (byte_at input 2) (\<lambda>i2. and_then (byte_at input 3) (\<lambda>i3.
      and_then (byte_at input 4) (\<lambda>i4. and_then (byte_at input 5) (\<lambda>i5.
      and_then (byte_at input 6) (\<lambda>i6. and_then (byte_at input 7) (\<lambda>i7.
      let length_field = be16 i2 i3; teid = be32 i4 i5 i6 i7 in
      and_then (ok_or (gtpu_err LengthOverflow 2) (checked_add 8 (unat length_field))) (\<lambda>declared.
      if length input < declared then Err (gtpu_err Truncated (length input))
      else
      and_then (subslice input 0 declared) (\<lambda>packet.
      and_then (subslice input declared (length input)) (\<lambda>tail_bytes.
      let optional_fields_len = (if ext_hdr_flag \<or> seq_num_flag \<or> npdu_num_flag then 4 else 0) in
      and_then (decode_optional ctx packet length_field ext_hdr_flag seq_num_flag npdu_num_flag)
        (\<lambda>(raw_seq, raw_npdu, raw_next).
      let sequence_number = (if seq_num_flag then raw_seq else None);
          npdu_number = (if npdu_num_flag then raw_npdu else None);
          next_ext_type = (if ext_hdr_flag then raw_next else None) in
      and_then (decode_ext_len ctx packet ext_hdr_flag next_ext_type) (\<lambda>ext_headers_len.
      and_then (ok_or (gtpu_err LengthOverflow 8)
        (checked_add optional_fields_len ext_headers_len)) (\<lambda>opt_and_ext_len.
      if unat length_field < opt_and_ext_len
      then Err (gtpu_err (InvalidLength ''length smaller than optional and extensions size'') 2)
      else
      and_then (ok_or (gtpu_err LengthOverflow 8)
        (checked_sub (unat length_field) opt_and_ext_len)) (\<lambda>payload_len.
      let raw_ext_start = 8 + optional_fields_len;
          raw_ext_end = raw_ext_start + ext_headers_len in
      and_then (subslice packet raw_ext_start raw_ext_end) (\<lambda>raw_ext.
      and_then (ok_or (gtpu_err LengthOverflow raw_ext_end)
        (checked_add raw_ext_end payload_len)) (\<lambda>payload_end.
      if payload_end \<noteq> declared
      then Err (gtpu_err (Structural ''payload boundaries mismatch'') 8)
      else
      and_then (subslice packet raw_ext_end payload_end) (\<lambda>payload.
      Ok (tail_bytes,
          \<lparr>m_header =
             \<lparr>h_version = version, h_protocol_type = protocol_type, h_reserved = reserved,
              h_ext_hdr_flag = ext_hdr_flag, h_seq_num_flag = seq_num_flag,
              h_npdu_num_flag = npdu_num_flag, h_message_type = message_type,
              h_length = length_field, h_teid = teid, h_sequence_number = sequence_number,
              h_npdu_number = npdu_number, h_next_ext_type = next_ext_type,
              h_raw_sequence_number = raw_seq, h_raw_npdu_number = raw_npdu,
              h_raw_next_ext_type = raw_next\<rparr>,
           m_raw_ext = raw_ext, m_payload = payload\<rparr>))))))))))))))))))))"

text \<open>Which optional fields an encoding carries: extension, sequence number, N-PDU number.\<close>

definition encode_flags :: "gtpu_message \<Rightarrow> encode_context \<Rightarrow> bool \<times> bool \<times> bool" where
  "encode_flags m ctx =
     (let h = m_header m in
      if ec_raw_preserving ctx then (h_ext_hdr_flag h, h_seq_num_flag h, h_npdu_num_flag h)
      else (m_raw_ext m \<noteq> [] \<or> (case h_next_ext_type h of None \<Rightarrow> 0 | Some t \<Rightarrow> t) \<noteq> 0,
            h_sequence_number h \<noteq> None, h_npdu_number h \<noteq> None))"

definition gtpu_wire_len :: "gtpu_message \<Rightarrow> encode_context \<Rightarrow> (usize, encode_error) result" where
  "gtpu_wire_len m ctx =
     (let overflow = encode_with_spec_ref gtpu_spec encode_length_overflow;
          (has_ext, has_seq, has_npdu) = encode_flags m ctx in
      and_then
        (if has_ext \<or> has_seq \<or> has_npdu then ok_or overflow (checked_add 8 4) else Ok 8) (\<lambda>len.
      and_then (ok_or overflow (checked_add len (length (m_raw_ext m)))) (\<lambda>len.
      ok_or overflow (checked_add len (length (m_payload m))))))"

definition first_octet :: "gtpu_header \<Rightarrow> encode_context \<Rightarrow> bool \<times> bool \<times> bool \<Rightarrow> u8" where
  "first_octet h ctx flags =
     (let (has_ext, has_seq, has_npdu) = flags in
      (if ec_raw_preserving ctx
       then push_bit 5 (h_version h AND 0x07) OR (if h_protocol_type h then 0x10 else 0)
            OR push_bit 3 (h_reserved h AND 0x01)
       else 0x30)
      OR (if has_ext then 0x04 else 0) OR (if has_seq then 0x02 else 0)
      OR (if has_npdu then 0x01 else 0))"

text \<open>A raw field wins over the interpreted one only in the raw-preserving mode.\<close>

definition encoded_field :: "encode_context \<Rightarrow> ('b::len) word option \<Rightarrow> 'b word option \<Rightarrow> 'b word" where
  "encoded_field ctx raw interpreted =
     (let plain = (case interpreted of None \<Rightarrow> 0 | Some v \<Rightarrow> v) in
      if ec_raw_preserving ctx then (case raw of None \<Rightarrow> plain | Some v \<Rightarrow> v) else plain)"

definition optional_fields :: "gtpu_header \<Rightarrow> encode_context \<Rightarrow> bool \<times> bool \<times> bool \<Rightarrow> bytes" where
  "optional_fields h ctx flags =
     (let (has_ext, has_seq, has_npdu) = flags in
      if has_ext \<or> has_seq \<or> has_npdu
      then u16_bytes (encoded_field ctx (h_raw_sequence_number h) (h_sequence_number h))
           @ [encoded_field ctx (h_raw_npdu_number h) (h_npdu_number h),
              encoded_field ctx (h_raw_next_ext_type h) (h_next_ext_type h)]
      else [])"

text \<open>
  The encoder appends to a buffer and may fail after its first two octets have been written,
  when the length does not fit sixteen bits: the buffer is part of the result.
\<close>

definition gtpu_encode ::
  "gtpu_message \<Rightarrow> bytes \<Rightarrow> encode_context \<Rightarrow> bytes \<times> (unit, encode_error) result" where
  "gtpu_encode m dst ctx =
     (case and_then (gtpu_wire_len m ctx) (\<lambda>len. and_then (check_capacity ctx len) (\<lambda>_. Ok len)) of
        Err e \<Rightarrow> (dst, Err e)
      | Panic \<Rightarrow> (dst, Panic)
      | Ok len \<Rightarrow>
          let flags = encode_flags m ctx;
              dst1 = dst @ [first_octet (m_header m) ctx flags, h_message_type (m_header m)] in
          case checked_sub len 8 of
            None \<Rightarrow> (dst1, Err (encode_with_spec_ref gtpu_spec
                       (encode_error_new (EncodeStructural ''wire length smaller than header''))))
          | Some length_field \<Rightarrow>
              if length_field > 65535
              then (dst1, Err (encode_with_spec_ref gtpu_spec encode_length_overflow))
              else (dst1 @ u16_bytes (word_of_nat length_field) @ u32_bytes (h_teid (m_header m))
                      @ optional_fields (m_header m) ctx flags @ m_raw_ext m @ m_payload m, Ok ()))"

record owned_gtpu_message =
  o_header :: gtpu_header
  o_raw_ext :: bytes
  o_payload :: bytes

definition gtpu_to_owned_pdu :: "gtpu_message \<Rightarrow> owned_gtpu_message" where
  "gtpu_to_owned_pdu m = \<lparr>o_header = m_header m, o_raw_ext = m_raw_ext m, o_payload = m_payload m\<rparr>"

text \<open>
  The owned decoder re-slices the input buffer at the positions of the borrowed slices, so it
  keeps the same bytes.
\<close>

definition gtpu_decode_owned ::
  "bytes \<Rightarrow> decode_context \<Rightarrow> (owned_gtpu_message, decode_error) result" where
  "gtpu_decode_owned input ctx =
     and_then (gtpu_decode input ctx) (\<lambda>(_, borrowed).
     Ok \<lparr>o_header = m_header borrowed, o_raw_ext = m_raw_ext borrowed,
         o_payload = m_payload borrowed\<rparr>)"

definition owned_borrowed :: "owned_gtpu_message \<Rightarrow> gtpu_message" where
  "owned_borrowed om = \<lparr>m_header = o_header om, m_raw_ext = o_raw_ext om, m_payload = o_payload om\<rparr>"

definition owned_gtpu_wire_len ::
  "owned_gtpu_message \<Rightarrow> encode_context \<Rightarrow> (usize, encode_error) result" where
  "owned_gtpu_wire_len om ctx = gtpu_wire_len (owned_borrowed om) ctx"

definition owned_gtpu_encode ::
  "owned_gtpu_message \<Rightarrow> bytes \<Rightarrow> encode_context \<Rightarrow> bytes \<times> (unit, encode_error) result" where
  "owned_gtpu_encode om dst ctx = gtpu_encode (owned_borrowed om) dst ctx"

definition gtpu_first_ext_type :: "gtpu_message \<Rightarrow> u8 option" where
  "gtpu_first_ext_type m =
     (if h_ext_hdr_flag (m_header m) then h_next_ext_type (m_header m) else None)"

definition gtpu_extensions :: "gtpu_message \<Rightarrow> ext_iter" where
  "gtpu_extensions m =
     ext_iter_new (m_raw_ext m) (case gtpu_first_ext_type m of None \<Rightarrow> 0 | Some t \<Rightarrow> t)"

definition gtpu_first_unsupported ::
  "gtpu_message \<Rightarrow> ext_recipient \<Rightarrow> (ext_header_type option, decode_error) result" where
  "gtpu_first_unsupported m recipient =
     first_unsupported_required_extension (gtpu_extensions m) recipient"

definition chain_from_message :: "gtpu_message \<Rightarrow> (ext_chain, chain_error) result" where
  "chain_from_message m =
     chain_from_raw (case gtpu_first_ext_type m of
         None \<Rightarrow> None | Some t \<Rightarrow> if t \<noteq> 0 then Some t else None) (m_raw_ext m)"

definition chain_from_owned_message :: "owned_gtpu_message \<Rightarrow> (ext_chain, chain_error) result" where
  "chain_from_owned_message om = chain_from_message (owned_borrowed om)"

section \<open>The extension walk reads the chain\<close>

text \<open>The checks the decoder makes on one header, by validation level and policy.\<close>

definition header_ok :: "decode_context \<Rightarrow> u8 \<times> bytes \<Rightarrow> bool" where
  "header_ok ctx h \<longleftrightarrow>
     (dc_validation_level ctx = ProcedureAware \<longrightarrow>
        fixed_length_ok h \<and>
        (fst h = GTPU_EXT_PDU_SESSION_CONTAINER \<longrightarrow>
           (\<exists>p. decode_with_reason \<lparr>eh_type = fst h, eh_content = snd h, eh_next = 0\<rparr> = Ok p))) \<and>
     (dc_unknown_ie_policy ctx = UnknownReject \<longrightarrow>
        \<not> unsupported_requires_comprehension_by (ExtHeaderType (fst h)) Endpoint)"

definition walk_limits :: "decode_context \<Rightarrow> nat \<Rightarrow> nat \<Rightarrow> chain \<Rightarrow> bool" where
  "walk_limits ctx depth ie_count hs \<longleftrightarrow>
     hs \<noteq> [] \<longrightarrow> depth + length hs \<le> dc_max_depth ctx \<and> ie_count + length hs \<le> dc_max_ies ctx"

lemma psc_decode_Ok_iff [outcome_simps]: "psc_decode h = Ok c \<longleftrightarrow> decode_with_reason h = Ok c"
  by (simp add: psc_decode_def outcome_simps)

lemma psc_decode_not_Panic' [simp]: "psc_decode h \<noteq> Panic"
  by (simp add: psc_decode_def outcome_simps)

lemma psc_check_Ok_iff [outcome_simps]:
  "(case psc_decode h of Err x \<Rightarrow> Err e | Ok y \<Rightarrow> Ok () | Panic \<Rightarrow> Panic) = Ok u \<longleftrightarrow>
   (\<exists>c. decode_with_reason h = Ok c)"
  by (auto simp: psc_decode_def split: result.splits) (auto simp: outcome_simps)

lemma psc_check_not_Panic:
  "(case psc_decode h of Err x \<Rightarrow> Err e | Ok y \<Rightarrow> Ok () | Panic \<Rightarrow> Panic) \<noteq> Panic"
  using psc_decode_not_Panic' [of h] by (auto split: result.splits)

lemma ext_walk_step:
  assumes "t \<noteq> 0" "buf = drop off packet" "buf \<noteq> []" "buf ! 0 \<noteq> 0" "4 * unat (buf ! 0) \<le> length buf"
    and "length packet \<le> max_u64"
  defines "len \<equiv> 4 * unat (buf ! 0)"
  shows "ext_walk ctx packet t off d i = Ok r \<longleftrightarrow>
    d + 1 \<le> dc_max_depth ctx \<and> i + 1 \<le> dc_max_ies ctx \<and>
    header_ok ctx (t, take (len - 2) (drop 1 buf)) \<and>
    ext_walk ctx packet (buf ! (len - 1)) (off + len) (d + 1) (i + 1) = Ok r"
    and "ext_walk ctx packet t off d i = Panic \<Longrightarrow>
      ext_walk ctx packet (buf ! (len - 1)) (off + len) (d + 1) (i + 1) = Panic"
proof -
  have pos: "0 < unat (buf ! 0)" using assms(4) by (simp add: unat_gt_0)
  have off: "off < length packet" "buf ! 0 = packet ! off" using assms(2,3) by auto
  have fits: "off + len \<le> length packet" using assms(2,5) off by (simp add: len_def)
  have four: "4 \<le> len" using pos by (simp add: len_def)
  have sub: "checked_sub (length packet) off = Some (length packet - off)" using off by (simp add: checked_sub_def)
  have nxt: "checked_sub (off + len) 1 = Some (off + len - 1)"
    using four by (simp add: checked_sub_def)
  have add: "checked_add off len = Some (off + len)" using fits assms(6) by (simp add: checked_add_def)
  have content: "subslice packet (off + 1) (off + len - 1) =
      (Ok (take (len - 2) (drop 1 buf)) :: (bytes, decode_error) result)"
  proof -
    have "off + 1 \<le> off + len - 1" "off + len - 1 \<le> length packet" "off + len - 1 - (off + 1) = len - 2"
      using fits four by linarith+
    then show ?thesis unfolding subslice_def assms(2) drop_drop by (simp add: add.commute)
  qed
  have last: "byte_at packet (off + len - 1) = (Ok (buf ! (len - 1)) :: (u8, decode_error) result)"
  proof -
    have "off + len - 1 < length packet" "off + (len - 1) = off + len - 1" using fits four by linarith+
    then show ?thesis unfolding byte_at_def assms(2) by simp
  qed
  have first: "byte_at packet off = (Ok (buf ! 0) :: (u8, decode_error) result)" using off by (simp add: byte_at_def)
  have mul: "checked_mul (unat (buf ! 0)) 4 = Some len" by (simp add: len_def)
  have rem: "\<not> length packet - off < 4" "\<not> length packet - off < len" using fits four by linarith+
  note walk = ext_walk.simps [of ctx packet t] sub ok_or.simps and_then.simps first Let_def mul nxt
    last content add option.case
  show "ext_walk ctx packet t off d i = Panic \<Longrightarrow>
      ext_walk ctx packet (buf ! (len - 1)) (off + len) (d + 1) (i + 1) = Panic"
    unfolding walk using pos rem
    by (auto simp: outcome_simps psc_check_not_Panic split: if_splits)
  show "ext_walk ctx packet t off d i = Ok r \<longleftrightarrow>
    d + 1 \<le> dc_max_depth ctx \<and> i + 1 \<le> dc_max_ies ctx \<and>
    header_ok ctx (t, take (len - 2) (drop 1 buf)) \<and>
    ext_walk ctx packet (buf ! (len - 1)) (off + len) (d + 1) (i + 1) = Ok r"
    unfolding walk using assms(1) pos rem
    by (auto simp: outcome_simps header_ok_def ext_type_codes not_le decode_with_reason_next [of _ _ "buf ! (len - Suc 0)"] Suc_le_eq)
qed

lemma ext_walk_malformed:
  assumes "t \<noteq> 0" "buf = drop off packet" "off \<le> length packet" "length packet \<le> max_u64"
    and "buf = [] \<or> buf ! 0 = 0 \<or> length buf < 4 * unat (buf ! 0)"
  shows "ext_walk ctx packet t off d i \<noteq> Ok r \<and> ext_walk ctx packet t off d i \<noteq> Panic"
  unfolding ext_walk.simps [of ctx packet t off d i]
  using assms by (auto simp: outcome_simps unat_eq_0 Let_def)

lemma ext_walk_Ok_iff:
  assumes "off \<le> length packet" "length packet \<le> max_u64" "buf = drop off packet"
  shows "ext_walk ctx packet t off d i = Ok r \<longleftrightarrow>
    (\<exists>hs rest. parse_chain t buf = Some (hs, rest) \<and> r = length packet - length rest \<and>
       list_all (header_ok ctx) hs \<and> walk_limits ctx d i hs)"
  using assms
proof (induction t buf arbitrary: off d i rule: parse_chain.induct)
  case (1 t buf)
  consider (zero) "t = 0" | (bad) "t \<noteq> 0" "buf = [] \<or> buf ! 0 = 0 \<or> length buf < 4 * unat (buf ! 0)"
    | (head) "t \<noteq> 0" "buf \<noteq> []" "buf ! 0 \<noteq> 0" "4 * unat (buf ! 0) \<le> length buf"
    by fastforce
  then show ?case
  proof cases
    case zero
    with "1.prems" show ?thesis by (auto simp: ext_walk.simps walk_limits_def)
  next
    case bad
    have "parse_chain t buf = None" using bad by (subst parse_chain.simps) simp
    with ext_walk_malformed [OF bad(1) "1.prems"(3,1,2) bad(2), of ctx d i r] show ?thesis by auto
  next
    case head
    let ?len = "4 * unat (buf ! 0)"
    have "off + ?len \<le> length packet" using head "1.prems" by simp
    moreover have "drop ?len buf = drop (off + ?len) packet" by (simp add: "1.prems" ac_simps)
    ultimately have IH: "ext_walk ctx packet (buf ! (?len - 1)) (off + ?len) (d + 1) (i + 1) = Ok r \<longleftrightarrow>
      (\<exists>hs rest. parse_chain (buf ! (?len - 1)) (drop ?len buf) = Some (hs, rest) \<and> r = length packet - length rest \<and>
       list_all (header_ok ctx) hs \<and> walk_limits ctx (d + 1) (i + 1) hs)"
      using "1.IH" [OF head(1) _ refl] head "1.prems"(2) by auto
    have parse: "parse_chain t buf = map_option (\<lambda>(hs, rest). ((t, take (?len - 2) (drop 1 buf)) # hs, rest))
       (parse_chain (buf ! (?len - 1)) (drop ?len buf))"
      using head by (subst parse_chain.simps) (auto simp: Let_def split: option.splits)
    have lim: "d + 1 \<le> dc_max_depth ctx \<and> i + 1 \<le> dc_max_ies ctx \<and> walk_limits ctx (d + 1) (i + 1) hs
      \<longleftrightarrow> walk_limits ctx d i (h # hs)" for h hs
      by (cases hs) (auto simp: walk_limits_def)
    show ?thesis
      unfolding ext_walk_step(1) [OF head(1) "1.prems"(3) head(2-4) "1.prems"(2)] parse IH
      by (auto simp: lim [symmetric])
  qed
qed

lemma ext_walk_not_Panic:
  assumes "off \<le> length packet" "length packet \<le> max_u64" "buf = drop off packet"
  shows "ext_walk ctx packet t off d i \<noteq> Panic"
  using assms
proof (induction t buf arbitrary: off d i rule: parse_chain.induct)
  case (1 t buf)
  consider (zero) "t = 0" | (bad) "t \<noteq> 0" "buf = [] \<or> buf ! 0 = 0 \<or> length buf < 4 * unat (buf ! 0)"
    | (head) "t \<noteq> 0" "buf \<noteq> []" "buf ! 0 \<noteq> 0" "4 * unat (buf ! 0) \<le> length buf"
    by fastforce
  then show ?case
  proof cases
    case zero
    then show ?thesis by (simp add: ext_walk.simps)
  next
    case bad
    with ext_walk_malformed [OF bad(1) "1.prems"(3,1,2) bad(2)] show ?thesis by blast
  next
    case head
    let ?len = "4 * unat (buf ! 0)"
    have "off + ?len \<le> length packet" using head "1.prems" by simp
    moreover have "drop ?len buf = drop (off + ?len) packet" by (simp add: "1.prems" ac_simps)
    ultimately have "ext_walk ctx packet (buf ! (?len - 1)) (off + ?len) (d + 1) (i + 1) \<noteq> Panic"
      using "1.IH" [OF head(1) _ refl] head "1.prems"(2) by auto
    with ext_walk_step(2) [OF head(1) "1.prems"(3) head(2-4) "1.prems"(2)] show ?thesis by blast
  qed
qed

section \<open>Frames\<close>

text \<open>
  A frame on the wire, from its first octet, message type, TEID, optional fields, extension
  bytes and payload, and the message the decoder makes of it.
\<close>

definition gtpu_wire :: "u8 \<Rightarrow> u8 \<Rightarrow> u32 \<Rightarrow> bytes \<Rightarrow> bytes \<Rightarrow> bytes \<Rightarrow> bytes" where
  "gtpu_wire b0 mt teid opt ext payload =
     [b0, mt] @ u16_bytes (word_of_nat (length opt + length ext + length payload)) @ u32_bytes teid
       @ opt @ ext @ payload"

definition gtpu_view :: "u8 \<Rightarrow> u8 \<Rightarrow> u32 \<Rightarrow> bytes \<Rightarrow> bytes \<Rightarrow> bytes \<Rightarrow> gtpu_message" where
  "gtpu_view b0 mt teid opt ext payload =
     (let seq = (if opt = [] then None else Some (be16 (opt ! 0) (opt ! 1)));
          npdu = (if opt = [] then None else Some (opt ! 2));
          nxt = (if opt = [] then None else Some (opt ! 3)) in
      \<lparr>m_header =
         \<lparr>h_version = 1, h_protocol_type = True, h_reserved = drop_bit 3 b0 AND 1,
          h_ext_hdr_flag = bit b0 2, h_seq_num_flag = bit b0 1, h_npdu_num_flag = bit b0 0,
          h_message_type = mt, h_length = word_of_nat (length opt + length ext + length payload),
          h_teid = teid, h_sequence_number = (if bit b0 1 then seq else None),
          h_npdu_number = (if bit b0 0 then npdu else None),
          h_next_ext_type = (if bit b0 2 then nxt else None),
          h_raw_sequence_number = seq, h_raw_npdu_number = npdu, h_raw_next_ext_type = nxt\<rparr>,
       m_raw_ext = ext, m_payload = payload\<rparr>)"

definition octet_ok :: "decode_context \<Rightarrow> u8 \<Rightarrow> bool" where
  "octet_ok ctx b0 \<longleftrightarrow> drop_bit 5 b0 AND 7 = 1 \<and> bit b0 4 \<and>
     (validation_strictness (dc_validation_level ctx) \<ge> 2 \<longrightarrow> \<not> bit b0 3)"

definition opt_ok :: "decode_context \<Rightarrow> u8 \<Rightarrow> bytes \<Rightarrow> bool" where
  "opt_ok ctx b0 opt \<longleftrightarrow>
     length opt = (if bit b0 2 \<or> bit b0 1 \<or> bit b0 0 then 4 else 0) \<and>
     (validation_strictness (dc_validation_level ctx) \<ge> 2 \<and> bit b0 2 \<longrightarrow> opt ! 3 \<noteq> 0)"

definition frame_ok :: "decode_context \<Rightarrow> u8 \<Rightarrow> bytes \<Rightarrow> chain \<Rightarrow> bytes \<Rightarrow> bool" where
  "frame_ok ctx b0 opt hs payload \<longleftrightarrow>
     octet_ok ctx b0 \<and> opt_ok ctx b0 opt \<and>
     length opt + length (chain_bytes hs) + length payload \<le> 65535 \<and>
     chain_first hs = (if bit b0 2 then opt ! 3 else 0) \<and> chain_ok hs \<and>
     list_all (header_ok ctx) hs \<and> walk_limits ctx 0 0 hs"

lemma flag_bit_0 [wire_simps]: "(b :: u8) AND 1 = 0 \<longleftrightarrow> \<not> bit b 0"
  by (simp add: bit_0 and_one_eq even_iff_mod_2_eq_zero)

lemma decode_optional_Ok_iff:
  assumes "length packet = 8 + unat n"
  shows "decode_optional ctx packet n e s p = Ok (q, d, t) \<longleftrightarrow>
    (if e \<or> s \<or> p
     then 4 \<le> unat n \<and> q = Some (be16 (packet ! 8) (packet ! 9)) \<and> d = Some (packet ! 10) \<and>
          t = Some (packet ! 11) \<and>
          (validation_strictness (dc_validation_level ctx) \<ge> 2 \<and> e \<longrightarrow> packet ! 11 \<noteq> 0)
     else q = None \<and> d = None \<and> t = None)"
  using assms by (auto simp: decode_optional_def outcome_simps)

lemma decode_optional_not_Panic:
  "length packet = 8 + unat n \<Longrightarrow> decode_optional ctx packet n e s p \<noteq> Panic"
  by (auto simp: decode_optional_def outcome_simps)

lemma decode_ext_len_Ok_iff:
  assumes "12 \<le> length packet \<or> \<not> e" "length packet \<le> max_u64"
  shows "decode_ext_len ctx packet e (Some t) = Ok n \<longleftrightarrow>
    (if e then \<exists>hs rest. parse_chain t (drop 12 packet) = Some (hs, rest) \<and> n = length (chain_bytes hs) \<and>
       list_all (header_ok ctx) hs \<and> walk_limits ctx 0 0 hs
     else n = 0)"
proof (cases e)
  case True
  then have len: "12 \<le> length packet" using assms(1) by simp
  have n: "r = length packet - length rest \<and> r \<ge> 12 \<and> n = r - 12 \<longleftrightarrow> r = length packet - length rest \<and> n = length (chain_bytes hs)"
    if "parse_chain t (drop 12 packet) = Some (hs, rest)" for hs rest r
  proof -
    have "drop 12 packet = chain_bytes hs @ rest" using parse_chain_SomeD [OF that] by simp
    then have "length packet - 12 = length (chain_bytes hs) + length rest" by (metis length_append length_drop)
    then show ?thesis using len by auto
  qed
  have "decode_ext_len ctx packet e (Some t) = Ok n \<longleftrightarrow>
    (\<exists>r hs rest. parse_chain t (drop 12 packet) = Some (hs, rest) \<and> (r = length packet - length rest \<and> r \<ge> 12 \<and> n = r - 12) \<and>
       list_all (header_ok ctx) hs \<and> walk_limits ctx 0 0 hs)"
    using True by (auto simp: decode_ext_len_def outcome_simps ext_walk_Ok_iff [OF len assms(2) refl])
  also have "\<dots> \<longleftrightarrow> (\<exists>hs rest. parse_chain t (drop 12 packet) = Some (hs, rest) \<and> n = length (chain_bytes hs) \<and>
       list_all (header_ok ctx) hs \<and> walk_limits ctx 0 0 hs)" using n by blast
  finally show ?thesis using True by simp
qed (auto simp: decode_ext_len_def)

lemma decode_ext_len_not_Panic:
  "12 \<le> length packet \<or> \<not> e \<Longrightarrow> length packet \<le> max_u64 \<Longrightarrow> decode_ext_len ctx packet e nt \<noteq> Panic"
  by (auto simp: decode_ext_len_def outcome_simps ext_walk_not_Panic [OF _ _ refl])

lemma gtpu_decode_body:
  assumes input: "input = [b0, mt, l1, l2, t1, t2, t3, t4] @ body @ rest"
    and len: "unat (be16 l1 l2) = length body" and max: "length input \<le> dc_max_message_len ctx"
  defines "packet \<equiv> [b0, mt, l1, l2, t1, t2, t3, t4] @ body"
    and "olen \<equiv> (if bit b0 2 \<or> bit b0 1 \<or> bit b0 0 then 4 else 0)"
  shows "gtpu_decode input ctx = Ok (tail, m) \<longleftrightarrow>
    octet_ok ctx b0 \<and> tail = rest \<and>
    (\<exists>q d t k. decode_optional ctx packet (be16 l1 l2) (bit b0 2) (bit b0 1) (bit b0 0) = Ok (q, d, t) \<and>
       decode_ext_len ctx packet (bit b0 2) (if bit b0 2 then t else None) = Ok k \<and> olen + k \<le> length body \<and>
       m = \<lparr>m_header =
         \<lparr>h_version = 1, h_protocol_type = True, h_reserved = drop_bit 3 b0 AND 1,
          h_ext_hdr_flag = bit b0 2, h_seq_num_flag = bit b0 1, h_npdu_num_flag = bit b0 0,
          h_message_type = mt, h_length = be16 l1 l2,
          h_teid = be32 t1 t2 t3 t4, h_sequence_number = (if bit b0 1 then q else None),
          h_npdu_number = (if bit b0 0 then d else None),
          h_next_ext_type = (if bit b0 2 then t else None),
          h_raw_sequence_number = q, h_raw_npdu_number = d, h_raw_next_ext_type = t\<rparr>,
       m_raw_ext = take k (drop olen body), m_payload = drop (olen + k) body\<rparr>)"
proof -
  have "unat (be16 l1 l2) < 65536" using unsigned_less [of "be16 l1 l2"] by simp
  then have small: "length body \<le> 65535" using len by simp
  have add: "checked_add 8 (unat (be16 l1 l2)) = Some (8 + length body)"
    using small len by (simp add: checked_add_def max_u64_def)
  have bytes: "byte_at input 0 = Ok b0" "byte_at input 1 = Ok mt" "byte_at input 2 = Ok l1" "byte_at input 3 = Ok l2"
    "byte_at input 4 = Ok t1" "byte_at input 5 = Ok t2" "byte_at input 6 = Ok t3" "byte_at input 7 = Ok t4"
    by (simp_all add: input byte_at_def)
  have plen: "length packet = 8 + length body" and ip: "input = packet @ rest"
    by (simp_all add: packet_def input)
  then have slices: "subslice input 0 (8 + length body) = Ok packet"
    "subslice input (8 + length body) (length input) = Ok rest"
    by (simp_all add: subslice_def flip: plen)
  define hd8 where "hd8 = [b0, mt, l1, l2, t1, t2, t3, t4]"
  have hd8: "packet = hd8 @ body" "length hd8 = 8" by (simp_all add: hd8_def packet_def)
  have drops: "drop (8 + j) packet = drop j body" "drop (8 + j + k) packet = drop (j + k) body" for j k
    by (simp_all add: hd8 add.assoc)
  note flags = flag_bit [of 4 b0] flag_bit [of 3 b0] flag_bit [of 2 b0] flag_bit [of 1 b0] flag_bit_0 [of b0]
  have big: "8 \<le> length input" "\<not> length input < 8 + length body" by (simp_all add: input)
  show ?thesis
    unfolding gtpu_decode_def bytes and_then.simps Let_def add ok_or.simps slices flags not_not olen_def [symmetric]
      octet_ok_def
    using max big small
    apply (simp add: outcome_simps len drops plen split del: if_split)
    by (auto simp: max_u64_def split del: if_split)
qed

lemma chain_first_0: "chain_ok hs \<Longrightarrow> chain_first hs = 0 \<longleftrightarrow> hs = []"
  by (cases hs rule: chain_first.cases) auto

lemma octet_flags_split:
  assumes "opt_ok ctx b0 opt"
  obtains (plain) "\<not> bit b0 2" "\<not> bit b0 1" "\<not> bit b0 0" "opt = []"
  | (fields) o0 o1 o2 o3 where "bit b0 2 \<or> bit b0 1 \<or> bit b0 0" "opt = [o0, o1, o2, o3]"
proof (cases "bit b0 2 \<or> bit b0 1 \<or> bit b0 0")
  case True
  then have "length opt = 4" using assms by (simp add: opt_ok_def)
  then obtain o0 o1 o2 o3 where "opt = [o0, o1, o2, o3]"
    by (auto simp: numeral_eq_Suc length_Suc_conv)
  with True that show ?thesis by blast
next
  case False
  with assms that show ?thesis by (auto simp: opt_ok_def)
qed

lemma decode_frame:
  assumes ok: "frame_ok ctx b0 opt hs payload"
    and max: "length (gtpu_wire b0 mt teid opt (chain_bytes hs) payload @ rest) \<le> dc_max_message_len ctx"
  shows "gtpu_decode (gtpu_wire b0 mt teid opt (chain_bytes hs) payload @ rest) ctx =
    Ok (rest, gtpu_view b0 mt teid opt (chain_bytes hs) payload)"
proof -
  let ?n = "length opt + length (chain_bytes hs) + length payload"
  let ?body = "opt @ chain_bytes hs @ payload"
  obtain l1 l2 where l: "u16_bytes (word_of_nat ?n) = [l1, l2]" "be16 l1 l2 = word_of_nat ?n"
    using u16_bytes_cases by blast
  obtain t1 t2 t3 t4 where t: "u32_bytes teid = [t1, t2, t3, t4]" "be32 t1 t2 t3 t4 = teid"
    using u32_bytes_cases by blast
  have n: "?n \<le> 65535" using ok by (simp add: frame_ok_def)
  then have len: "unat (be16 l1 l2) = length ?body" unfolding l(2) unat_of_nat16 by simp
  have w: "gtpu_wire b0 mt teid opt (chain_bytes hs) payload @ rest = [b0, mt, l1, l2, t1, t2, t3, t4] @ ?body @ rest"
    unfolding gtpu_wire_def l(1) t(1) by simp
  let ?packet = "[b0, mt, l1, l2, t1, t2, t3, t4] @ ?body"
  have oo: "opt_ok ctx b0 opt" and oct: "octet_ok ctx b0" and co: "chain_ok hs"
    and cf: "chain_first hs = (if bit b0 2 then opt ! 3 else 0)"
    and ho: "list_all (header_ok ctx) hs" "walk_limits ctx 0 0 hs"
    using ok by (auto simp: frame_ok_def)
  have pl: "length ?packet = 8 + unat (be16 l1 l2)" using len by simp
  note eval = gtpu_decode_body [OF refl len max [unfolded w], THEN iffD2]
  from oo show ?thesis
  proof (cases rule: octet_flags_split)
    case plain
    then have "hs = []" using cf chain_first_0 [OF co] by simp
    with plain show ?thesis unfolding w
      by (intro eval conjI oct refl exI [of _ None] exI [of _ "0 :: nat"])
         (auto simp: decode_ext_len_def decode_optional_def gtpu_view_def l t)
  next
    case (fields o0 o1 o2 o3)
    have small: "length ?packet \<le> max_u64" using n by (simp add: max_u64_def)
    have opt: "decode_optional ctx ?packet (be16 l1 l2) (bit b0 2) (bit b0 1) (bit b0 0) = Ok (Some (be16 o0 o1), Some o2, Some o3)"
      using fields oo len by (subst decode_optional_Ok_iff [OF pl]) (auto simp: opt_ok_def)
    have "parse_chain o3 (drop 12 ?packet) = Some (hs, payload)" if "bit b0 2"
      using that cf fields parse_chain_bytes [OF co, of payload] by simp
    moreover have "hs = []" if "\<not> bit b0 2" using cf chain_first_0 [OF co] that by simp
    ultimately have ext: "decode_ext_len ctx ?packet (bit b0 2) (Some o3) = Ok (length (chain_bytes hs))"
      using ho fields(2) small by (subst decode_ext_len_Ok_iff) auto
    then have ext': "decode_ext_len ctx ?packet (bit b0 2) (if bit b0 2 then Some o3 else None) = Ok (length (chain_bytes hs))"
      by (cases "bit b0 2") (auto simp: decode_ext_len_def)
    have d4: "drop (4 + length (chain_bytes hs)) (o0 # o1 # o2 # o3 # chain_bytes hs @ payload) = payload"
      by (simp add: numeral_eq_Suc)
    show ?thesis unfolding w
      by (rule eval, intro conjI oct refl, rule exI [of _ "Some (be16 o0 o1)"], rule exI [of _ "Some o2"],
          rule exI [of _ "Some o3"], rule exI [of _ "length (chain_bytes hs)"], intro conjI opt ext')
         (use fields in \<open>auto simp: gtpu_view_def l t Let_def d4\<close>)
  qed
qed

lemma split_8:
  assumes "8 \<le> length xs"
  obtains a b c d e f g h ys where "xs = [a, b, c, d, e, f, g, h] @ ys"
  using assms by (auto simp: numeral_eq_Suc Suc_le_length_iff)

lemma gtpu_decode_shape:
  assumes "gtpu_decode input ctx = Ok (tail, m) \<or> gtpu_decode input ctx = Panic"
  shows "8 \<le> length input \<and> length input \<le> dc_max_message_len ctx \<and>
    (\<exists>b0 mt l1 l2 t1 t2 t3 t4 body rest. input = [b0, mt, l1, l2, t1, t2, t3, t4] @ body @ rest \<and>
       unat (be16 l1 l2) = length body)"
proof -
  have size: "8 \<le> length input" "length input \<le> dc_max_message_len ctx"
    "8 + unat (be16 (input ! 2) (input ! 3)) \<le> length input"
    using assms
    by (auto simp add: gtpu_decode_def outcome_simps Let_def not_less simp del: One_nat_def split del: if_split)
  then obtain b0 mt l1 l2 t1 t2 t3 t4 ys where i: "input = [b0, mt, l1, l2, t1, t2, t3, t4] @ ys"
    using split_8 by blast
  let ?n = "unat (be16 l1 l2)"
  have "input = [b0, mt, l1, l2, t1, t2, t3, t4] @ take ?n ys @ drop ?n ys" by (simp add: i)
  moreover have "?n = length (take ?n ys)" using size(3) by (simp add: i)
  ultimately show ?thesis using size(1,2) by blast
qed

lemma gtpu_decode_not_Panic: "gtpu_decode input ctx \<noteq> Panic"
proof
  assume p: "gtpu_decode input ctx = Panic"
  then obtain b0 mt l1 l2 t1 t2 t3 t4 body rest where i: "input = [b0, mt, l1, l2, t1, t2, t3, t4] @ body @ rest"
    and n: "unat (be16 l1 l2) = length body"
    using gtpu_decode_shape [of input ctx undefined undefined] by blast
  have "unat (be16 l1 l2) < 65536" using unsigned_less [of "be16 l1 l2"] by simp
  then have small: "length body \<le> 65535" using n by simp
  let ?packet = "[b0, mt, l1, l2, t1, t2, t3, t4] @ body"
  have "decode_optional ctx ?packet (be16 l1 l2) e s d \<noteq> Panic" for e s d
    using n by (intro decode_optional_not_Panic) simp
  moreover have "decode_optional ctx ?packet (be16 l1 l2) e s d = Ok x \<Longrightarrow> decode_ext_len ctx ?packet e t \<noteq> Panic" for e s d x t
    using n small by (intro decode_ext_len_not_Panic) (auto simp: decode_optional_def max_u64_def outcome_simps split: if_splits)
  moreover have "take (8 + length body) input = ?packet"
    using take_append [of "8 + length body" ?packet rest] by (simp add: i)
  ultimately show False
    using p n by (auto simp: gtpu_decode_def outcome_simps Let_def i split: if_splits)
qed

lemma take_4_nth: "4 \<le> length xs \<Longrightarrow> take 4 xs = [xs ! 0, xs ! 1, xs ! 2, xs ! 3]"
  by (auto simp: numeral_eq_Suc Suc_le_length_iff)

lemma gtpu_decode_OkD:
  assumes "gtpu_decode input ctx = Ok (tail, m)"
  shows "\<exists>b0 mt teid opt hs payload. frame_ok ctx b0 opt hs payload \<and>
    input = gtpu_wire b0 mt teid opt (chain_bytes hs) payload @ tail \<and>
    m = gtpu_view b0 mt teid opt (chain_bytes hs) payload \<and> length input \<le> dc_max_message_len ctx"
proof -
  obtain b0 mt l1 l2 t1 t2 t3 t4 body rest where i: "input = [b0, mt, l1, l2, t1, t2, t3, t4] @ body @ rest"
    and n: "unat (be16 l1 l2) = length body" and max: "length input \<le> dc_max_message_len ctx"
    using gtpu_decode_shape [of input ctx tail m] assms by blast
  let ?packet = "[b0, mt, l1, l2, t1, t2, t3, t4] @ body"
  let ?olen = "if bit b0 2 \<or> bit b0 1 \<or> bit b0 0 then 4 else 0"
  have "unat (be16 l1 l2) < 65536" using unsigned_less [of "be16 l1 l2"] by simp
  then have small: "length body \<le> 65535" using n by simp
  have pl: "length ?packet = 8 + unat (be16 l1 l2)" using n by simp
  obtain q d t k where oct: "octet_ok ctx b0" and tail: "tail = rest"
    and opt: "decode_optional ctx ?packet (be16 l1 l2) (bit b0 2) (bit b0 1) (bit b0 0) = Ok (q, d, t)"
    and ext: "decode_ext_len ctx ?packet (bit b0 2) (if bit b0 2 then t else None) = Ok k"
    and k: "?olen + k \<le> length body"
    and m: "m = \<lparr>m_header =
         \<lparr>h_version = 1, h_protocol_type = True, h_reserved = drop_bit 3 b0 AND 1,
          h_ext_hdr_flag = bit b0 2, h_seq_num_flag = bit b0 1, h_npdu_num_flag = bit b0 0,
          h_message_type = mt, h_length = be16 l1 l2,
          h_teid = be32 t1 t2 t3 t4, h_sequence_number = (if bit b0 1 then q else None),
          h_npdu_number = (if bit b0 0 then d else None),
          h_next_ext_type = (if bit b0 2 then t else None),
          h_raw_sequence_number = q, h_raw_npdu_number = d, h_raw_next_ext_type = t\<rparr>,
       m_raw_ext = take k (drop ?olen body), m_payload = drop (?olen + k) body\<rparr>"
    using assms unfolding gtpu_decode_body [OF i n max] by blast
  define opt' where "opt' = take ?olen body"
  have olen: "length opt' = ?olen" using k by (auto simp: opt'_def)
  have optf: "opt' \<noteq> [] \<Longrightarrow> q = Some (be16 (opt' ! 0) (opt' ! 1)) \<and> d = Some (opt' ! 2) \<and> t = Some (opt' ! 3)"
    "opt' = [] \<Longrightarrow> q = None \<and> d = None \<and> t = None"
    using opt [unfolded decode_optional_Ok_iff [OF pl]] olen n
    by (auto simp: opt'_def split: if_splits)
  have oo: "opt_ok ctx b0 opt'"
    using opt [unfolded decode_optional_Ok_iff [OF pl]] olen n
    by (auto simp: opt_ok_def opt'_def split: if_splits)
  obtain hs where hs: "chain_ok hs" "chain_first hs = (if bit b0 2 then opt' ! 3 else 0)"
    "list_all (header_ok ctx) hs" "walk_limits ctx 0 0 hs" "k = length (chain_bytes hs)"
    "take k (drop ?olen body) = chain_bytes hs"
  proof (cases "bit b0 2")
    case True
    then have "length opt' = 4" using olen by simp
    then have "opt' \<noteq> []" by auto
    then have t: "t = Some (opt' ! 3)" using optf by simp
    have d: "drop 12 ?packet = drop 4 body" by simp
    have "12 \<le> length ?packet" "length ?packet \<le> max_u64" using True k small by (simp_all add: max_u64_def)
    with ext t True obtain hs rest' where p: "parse_chain (opt' ! 3) (drop 4 body) = Some (hs, rest')"
      and h: "k = length (chain_bytes hs)" "list_all (header_ok ctx) hs" "walk_limits ctx 0 0 hs"
      using decode_ext_len_Ok_iff [of ?packet True ctx "opt' ! 3" k, unfolded d] by auto
    from parse_chain_SomeD [OF p] h True that [of hs] show ?thesis by simp
  next
    case False
    then have "k = 0" using ext by (simp add: decode_ext_len_def)
    with False that [of "[]"] show ?thesis by (simp add: walk_limits_def)
  qed
  define payload where "payload = drop (?olen + k) body"
  have body: "body = opt' @ chain_bytes hs @ payload"
  proof -
    have "drop (?olen + k) body = drop k (drop ?olen body)" by (simp add: add.commute)
    then show ?thesis
      unfolding opt'_def payload_def hs(6) [symmetric] by (simp only: append_take_drop_id)
  qed
  have w: "word_of_nat (length opt' + length (chain_bytes hs) + length payload) = be16 l1 l2"
  proof -
    have "length opt' + length (chain_bytes hs) + length payload = length body" using body by simp
    then show ?thesis by (simp only: n [symmetric] word_of_nat_unat)
  qed
  have "input = gtpu_wire b0 mt (be32 t1 t2 t3 t4) opt' (chain_bytes hs) payload @ tail"
    unfolding gtpu_wire_def w i tail by (simp add: body)
  moreover have "m = gtpu_view b0 mt (be32 t1 t2 t3 t4) opt' (chain_bytes hs) payload"
    unfolding m gtpu_view_def w Let_def using optf hs(6) by (cases "opt' = []") (simp_all add: payload_def)
  moreover have "frame_ok ctx b0 opt' hs payload"
    using oct oo hs small body by (simp add: frame_ok_def)
  ultimately show ?thesis using max by blast
qed

section \<open>Encoding a frame\<close>

lemma version_bits: "drop_bit 5 (b :: u8) AND 7 = 1 \<longleftrightarrow> bit b 5 \<and> \<not> bit b 6 \<and> \<not> bit b 7"
  by (auto simp: octet_bits dest: bit_imp_le_length)

lemma raw_first_octet:
  assumes "octet_ok ctx b0" "ec_raw_preserving ectx"
  shows "first_octet (m_header (gtpu_view b0 mt teid opt ext payload)) ectx (bit b0 2, bit b0 1, bit b0 0) = b0"
  using assms
  by (cases "bit b0 0"; cases "bit b0 1"; cases "bit b0 2"; cases "bit b0 3")
     (simp_all add: first_octet_def gtpu_view_def Let_def octet_ok_def version_bits octet_bits)

lemma gtpu_wire_len_Ok:
  assumes "encode_flags m ectx = (e, s, n)" "olen = (if e \<or> s \<or> n then 4 else 0)"
    and "8 + olen + length (m_raw_ext m) + length (m_payload m) \<le> max_u64"
  shows "gtpu_wire_len m ectx = Ok (8 + olen + length (m_raw_ext m) + length (m_payload m))"
  using assms by (auto simp: gtpu_wire_len_def checked_add_def max_u64_def)

lemma gtpu_encode_Ok:
  assumes flags: "encode_flags m ectx = (e, s, n)" and olen: "olen = (if e \<or> s \<or> n then 4 else 0)"
    and len: "olen + length (m_raw_ext m) + length (m_payload m) \<le> 65535"
    and cap: "8 + olen + length (m_raw_ext m) + length (m_payload m) \<le> ec_max_message_len ectx"
  shows "gtpu_encode m dst ectx =
    (dst @ [first_octet (m_header m) ectx (e, s, n), h_message_type (m_header m)]
       @ u16_bytes (word_of_nat (olen + length (m_raw_ext m) + length (m_payload m)))
       @ u32_bytes (h_teid (m_header m)) @ optional_fields (m_header m) ectx (e, s, n) @ m_raw_ext m @ m_payload m, Ok ())"
proof -
  have "gtpu_wire_len m ectx = Ok (8 + olen + length (m_raw_ext m) + length (m_payload m))"
    using len by (intro gtpu_wire_len_Ok [OF flags olen]) (simp add: max_u64_def)
  moreover have "checked_sub (8 + olen + length (m_raw_ext m) + length (m_payload m)) 8 =
      Some (olen + length (m_raw_ext m) + length (m_payload m))" by (simp add: checked_sub_def)
  ultimately show ?thesis
    using len cap unfolding gtpu_encode_def flags
    by (simp add: check_capacity_def Let_def del: of_nat_add)
qed

lemma encode_view_raw:
  assumes ok: "frame_ok ctx b0 opt hs payload" and raw: "ec_raw_preserving ectx"
    and cap: "length (gtpu_wire b0 mt teid opt (chain_bytes hs) payload) \<le> ec_max_message_len ectx"
  shows "gtpu_encode (gtpu_view b0 mt teid opt (chain_bytes hs) payload) dst ectx =
    (dst @ gtpu_wire b0 mt teid opt (chain_bytes hs) payload, Ok ())"
proof -
  let ?m = "gtpu_view b0 mt teid opt (chain_bytes hs) payload"
  have oo: "opt_ok ctx b0 opt" and oct: "octet_ok ctx b0"
    and n: "length opt + length (chain_bytes hs) + length payload \<le> 65535"
    using ok by (auto simp: frame_ok_def)
  have flags: "encode_flags ?m ectx = (bit b0 2, bit b0 1, bit b0 0)"
    using raw by (simp add: encode_flags_def gtpu_view_def Let_def)
  have olen: "length opt = (if bit b0 2 \<or> bit b0 1 \<or> bit b0 0 then 4 else 0)"
    using oo by (simp add: opt_ok_def)
  have sel: "m_raw_ext ?m = chain_bytes hs" "m_payload ?m = payload" "h_message_type (m_header ?m) = mt" "h_teid (m_header ?m) = teid"
    by (simp_all add: gtpu_view_def Let_def)
  have opt: "optional_fields (m_header ?m) ectx (bit b0 2, bit b0 1, bit b0 0) = opt"
    using oo
  proof (cases rule: octet_flags_split)
    case plain
    then show ?thesis by (simp add: optional_fields_def)
  next
    case (fields o0 o1 o2 o3)
    then show ?thesis using raw
      by (auto simp: optional_fields_def gtpu_view_def Let_def encoded_field_def)
  qed
  show ?thesis
    using gtpu_encode_Ok [OF flags olen, of dst] n cap raw_first_octet [OF oct raw, of mt teid opt "chain_bytes hs" payload]
    unfolding sel opt by (simp add: gtpu_wire_def add.assoc del: of_nat_add)
qed

text \<open>
  The model values that a canonical encoding round-trips: the flags agree with the fields that
  are present, absent fields read as zero, the length field is that of the encoding, and the
  extension bytes are a chain the decoder's context accepts.
\<close>

definition canonical_ok :: "decode_context \<Rightarrow> encode_context \<Rightarrow> gtpu_message \<Rightarrow> bool" where
  "canonical_ok dctx ectx m \<longleftrightarrow>
     (let h = m_header m; ext = m_raw_ext m;
          present = (h_ext_hdr_flag h \<or> h_seq_num_flag h \<or> h_npdu_num_flag h);
          len = (if present then 4 else 0) + length ext + length (m_payload m) in
      \<not> ec_raw_preserving ectx \<and> len \<le> 65535 \<and>
      8 + len \<le> min (ec_max_message_len ectx) (dc_max_message_len dctx) \<and>
      h_version h = 1 \<and> h_protocol_type h \<and> h_reserved h = 0 \<and> h_length h = word_of_nat len \<and>
      h_ext_hdr_flag h = (ext \<noteq> []) \<and>
      h_seq_num_flag h = (h_sequence_number h \<noteq> None) \<and>
      h_npdu_num_flag h = (h_npdu_number h \<noteq> None) \<and>
      (h_next_ext_type h = None \<longleftrightarrow> ext = []) \<and>
      h_raw_sequence_number h =
        (if present then Some (case h_sequence_number h of None \<Rightarrow> 0 | Some v \<Rightarrow> v) else None) \<and>
      h_raw_npdu_number h =
        (if present then Some (case h_npdu_number h of None \<Rightarrow> 0 | Some v \<Rightarrow> v) else None) \<and>
      h_raw_next_ext_type h =
        (if present then Some (case h_next_ext_type h of None \<Rightarrow> 0 | Some v \<Rightarrow> v) else None) \<and>
      (case parse_chain (case h_next_ext_type h of None \<Rightarrow> 0 | Some v \<Rightarrow> v) ext of
         Some (hs, []) \<Rightarrow> list_all (header_ok dctx) hs \<and> walk_limits dctx 0 0 hs
       | _ \<Rightarrow> False))"

lemma canonical_octet:
  fixes e s n :: bool
  defines "b0 \<equiv> (0x30 OR (if e then 0x04 else 0) OR (if s then 0x02 else 0) OR (if n then 0x01 else 0)) :: u8"
  shows "octet_ok ctx b0" "bit b0 2 = e" "bit b0 1 = s" "bit b0 0 = n" "drop_bit 3 b0 AND 1 = 0"
  by (cases e; cases s; cases n; simp add: b0_def octet_ok_def version_bits octet_bits)+

lemma be16_u16_bytes_nth [simp]: "be16 (u16_bytes w ! 0) (u16_bytes w ! Suc 0) = w"
  using u16_bytes_cases [of w] by auto

lemma canonical_frame:
  assumes "canonical_ok dctx ectx m"
  shows "\<exists>b0 opt hs. frame_ok dctx b0 opt hs (m_payload m) \<and>
     m = gtpu_view b0 (h_message_type (m_header m)) (h_teid (m_header m)) opt (chain_bytes hs) (m_payload m) \<and>
     gtpu_encode m dst ectx =
       (dst @ gtpu_wire b0 (h_message_type (m_header m)) (h_teid (m_header m)) opt (chain_bytes hs) (m_payload m), Ok ())"
proof -
  let ?h = "m_header m" and ?ext = "m_raw_ext m"
  define e where "e = (?ext \<noteq> [])"
  define s where "s = (h_sequence_number ?h \<noteq> None)"
  define n where "n = (h_npdu_number ?h \<noteq> None)"
  define b0 :: u8 where
    "b0 = 0x30 OR (if e then 0x04 else 0) OR (if s then 0x02 else 0) OR (if n then 0x01 else 0)"
  define q where "q = (case h_sequence_number ?h of None \<Rightarrow> 0 | Some v \<Rightarrow> v)"
  define d where "d = (case h_npdu_number ?h of None \<Rightarrow> 0 | Some v \<Rightarrow> v)"
  define t where "t = (case h_next_ext_type ?h of None \<Rightarrow> 0 | Some v \<Rightarrow> v)"
  define opt where "opt = (if e \<or> s \<or> n then u16_bytes q @ [d, t] else [])"
  note b0 = canonical_octet [where e = e and s = s and n = n, folded b0_def]
  have olen: "length opt = (if e \<or> s \<or> n then 4 else 0)" by (simp add: opt_def)
  note can = assms [unfolded canonical_ok_def Let_def]
  have hflags: "h_ext_hdr_flag ?h = e" "h_seq_num_flag ?h = s" "h_npdu_num_flag ?h = n"
    using can by (simp_all add: e_def s_def n_def)
  obtain hs where p: "parse_chain t ?ext = Some (hs, [])" and ho: "list_all (header_ok dctx) hs" "walk_limits dctx 0 0 hs"
    using can by (auto simp: t_def split: option.splits list.splits)
  have hs: "?ext = chain_bytes hs" "chain_first hs = t" "chain_ok hs" using parse_chain_SomeD [OF p] by auto
  have t0: "t = 0 \<longleftrightarrow> \<not> e" using chain_first_0 [OF hs(3)] hs(1,2) by (simp add: e_def)
  have tn: "h_next_ext_type ?h = (if e then Some t else None)"
    using can by (auto simp: e_def t_def)
  have len: "length opt + length ?ext + length (m_payload m) \<le> 65535"
    "8 + (length opt + length ?ext + length (m_payload m)) \<le> ec_max_message_len ectx"
    "h_length ?h = word_of_nat (length opt + length ?ext + length (m_payload m))"
    using can unfolding hflags olen min.bounded_iff by blast+
  have frame: "frame_ok dctx b0 opt hs (m_payload m)"
    using b0 len ho hs t0 olen by (auto simp: frame_ok_def opt_ok_def opt_def nth_append)
  have seq: "h_sequence_number ?h = (if s then Some q else None)" "h_npdu_number ?h = (if n then Some d else None)"
    by (auto simp: s_def q_def n_def d_def)
  have rawf: "h_raw_sequence_number ?h = (if e \<or> s \<or> n then Some q else None)"
    "h_raw_npdu_number ?h = (if e \<or> s \<or> n then Some d else None)"
    "h_raw_next_ext_type ?h = (if e \<or> s \<or> n then Some t else None)"
    using can unfolding hflags q_def d_def t_def by blast+
  have fixedf: "h_version ?h = 1" "h_protocol_type ?h" "h_reserved ?h = 0"
    using can by blast+
  have view: "m = gtpu_view b0 (h_message_type ?h) (h_teid ?h) opt (chain_bytes hs) (m_payload m)"
    using hflags seq tn len(3) hs(1) b0 rawf fixedf
    by (intro gtpu_message.equality gtpu_header.equality)
       (simp_all add: gtpu_view_def Let_def opt_def nth_append del: of_nat_add)
  have eflags: "encode_flags m ectx = (e, s, n)"
    using can t0 by (simp add: encode_flags_def Let_def e_def s_def n_def t_def [symmetric]) 
  have "optional_fields ?h ectx (e, s, n) = opt"
    using can by (simp add: optional_fields_def encoded_field_def opt_def q_def d_def t_def)
  moreover have "first_octet ?h ectx (e, s, n) = b0" using can by (simp add: first_octet_def b0_def)
  ultimately have "gtpu_encode m dst ectx =
     (dst @ gtpu_wire b0 (h_message_type ?h) (h_teid ?h) opt (chain_bytes hs) (m_payload m), Ok ())"
    using gtpu_encode_Ok [OF eflags olen, of dst] len hs(1) by (simp add: gtpu_wire_def add.assoc del: of_nat_add)
  with frame view show ?thesis by blast
qed

definition gtpu_bytes :: "encode_context \<Rightarrow> gtpu_message \<Rightarrow> (bytes, encode_error) result" where
  "gtpu_bytes ectx m =
     (case gtpu_encode m [] ectx of (w, Ok _) \<Rightarrow> Ok w | (_, Err e) \<Rightarrow> Err e | (_, Panic) \<Rightarrow> Panic)"

interpretation gtpu_stream: stream_codec "gtpu_bytes ectx" "\<lambda>w. gtpu_decode w dctx" "canonical_ok dctx ectx"
    "dc_max_message_len dctx" for ectx dctx
proof unfold_locales
  fix m assume "canonical_ok dctx ectx m"
  from canonical_frame [OF this, of "[]"] show "\<exists>w. gtpu_bytes ectx m = Ok w"
    by (auto simp: gtpu_bytes_def)
next
  fix m w rest assume m: "canonical_ok dctx ectx m" "gtpu_bytes ectx m = Ok w"
    and len: "length (w @ rest) \<le> dc_max_message_len dctx"
  from canonical_frame [OF m(1), of "[]"] m(2) len show "gtpu_decode (w @ rest) dctx = Ok (rest, m)"
    by (auto simp: gtpu_bytes_def dest!: decode_frame [of dctx _ _ _ _ _ _ rest])
qed

lemma length_gtpu_wire [simp]:
  "length (gtpu_wire b0 mt teid opt ext payload) = 8 + (length opt + length ext + length payload)"
  by (simp add: gtpu_wire_def)

lemma view_length:
  "length opt + length ext + length payload \<le> 65535 \<Longrightarrow>
   unat (h_length (m_header (gtpu_view b0 mt teid opt ext payload))) = length opt + length ext + length payload"
  unfolding gtpu_view_def Let_def by (simp add: unat_of_nat16 del: of_nat_add)

section \<open>Properties\<close>

text \<open>
  C5. Raw-preserving round trip: whatever the GTP-U decoder accepts, the raw-preserving encoder
  reproduces byte for byte, spare bits, unread optional fields and unknown extension headers
  included; the bytes it appends are exactly the ones the decoder consumed.
\<close>

theorem gtpu_raw_preserving:
  assumes "gtpu_decode input dctx = Ok (tail, m)" and "ec_raw_preserving ectx"
    and "length input \<le> ec_max_message_len ectx"
  shows "\<exists>consumed. input = consumed @ tail \<and> gtpu_encode m dst ectx = (dst @ consumed, Ok ())"
proof -
  obtain b0 mt teid opt hs payload where f: "frame_ok dctx b0 opt hs payload"
    and i: "input = gtpu_wire b0 mt teid opt (chain_bytes hs) payload @ tail"
    and m: "m = gtpu_view b0 mt teid opt (chain_bytes hs) payload"
    using gtpu_decode_OkD [OF assms(1)] by blast
  have "gtpu_encode m dst ectx = (dst @ gtpu_wire b0 mt teid opt (chain_bytes hs) payload, Ok ())"
    unfolding m using assms(3) by (intro encode_view_raw [OF f assms(2)]) (simp add: i)
  with i show ?thesis by blast
qed

theorem gtpu_raw_preserving_witness:
  "\<exists>m consumed. [0x3a, 0xff, 0, 5, 0, 0, 0, 1, 0x12, 0x34, 7, 9, 0x45, 0xaa] = consumed @ [0xaa] \<and>
     gtpu_encode m [] (encode_context_default\<lparr>ec_raw_preserving := True\<rparr>) = ([] @ consumed, Ok ())"
proof -
  let ?i = "[0x3a, 0xff, 0, 5, 0, 0, 0, 1, 0x12, 0x34, 7, 9, 0x45, 0xaa] :: bytes"
  let ?e = "encode_context_default\<lparr>ec_raw_preserving := True\<rparr>"
  have "gtpu_wire 0x3a 0xff 1 [0x12, 0x34, 7, 9] (chain_bytes []) [0x45] @ [0xaa] = ?i"
    by (simp add: gtpu_wire_def u16_bytes_def u32_bytes_def)
  moreover have "frame_ok decode_context_default 0x3a [0x12, 0x34, 7, 9] [] [0x45]"
    by (simp add: frame_ok_def octet_ok_def opt_ok_def walk_limits_def decode_context_default_def)
  ultimately have "gtpu_decode ?i decode_context_default = Ok ([0xaa], gtpu_view 0x3a 0xff 1 [0x12, 0x34, 7, 9] [] [0x45])"
    using decode_frame [of decode_context_default "0x3a" "[0x12, 0x34, 7, 9]" "[]" "[0x45]" "0xff" 1 "[0xaa]"]
    by (simp add: decode_context_default_def)
  from gtpu_raw_preserving [OF this, of ?e "[]"] show ?thesis by (auto simp: encode_context_default_def)
qed

text \<open>
  C12. Canonical round trip over a train: encoding well-formed messages one after the other and
  decoding that many messages from the concatenation, followed by any bytes, returns the same
  messages and exactly the bytes that followed.
\<close>

theorem gtpu_canonical_train:
  assumes "list_all2 (\<lambda>m w. canonical_ok dctx ectx m \<and> gtpu_encode m [] ectx = (w, Ok ())) ms ws"
    and "length (concat ws @ rest) \<le> dc_max_message_len dctx"
  shows "decode_train (\<lambda>w. gtpu_decode w dctx) (length ms) (concat ws @ rest) = Ok (rest, ms)"
proof (rule gtpu_stream.decode_train_concat)
  show "list_all2 (\<lambda>m w. canonical_ok dctx ectx m \<and> gtpu_bytes ectx m = Ok w) ms ws"
    using assms(1) by (rule list_all2_mono) (simp add: gtpu_bytes_def)
qed (rule assms(2))

theorem gtpu_canonical_train_witness:
  "decode_train (\<lambda>w. gtpu_decode w decode_context_default) (Suc (Suc 0))
     ([0x30, 0xff, 0, 1, 0, 0, 0, 5, 0x45, 0x30, 0xff, 0, 1, 0, 0, 0, 5, 0x45] @ [1]) =
   Ok ([1], [gtpu_view 0x30 0xff 5 [] [] [0x45], gtpu_view 0x30 0xff 5 [] [] [0x45]])"
proof -
  let ?m = "gtpu_view 0x30 0xff 5 [] [] [0x45]" and ?w = "[0x30, 0xff, 0, 1, 0, 0, 0, 5, 0x45] :: bytes"
  have can: "canonical_ok decode_context_default encode_context_default ?m"
    by (simp add: canonical_ok_def gtpu_view_def Let_def encode_context_default_def
        decode_context_default_def walk_limits_def octet_bits)
  have dec_limit: "dc_max_message_len decode_context_default = 65535" by (simp add: decode_context_default_def)
  have enc: "gtpu_encode ?m [] encode_context_default = (?w, Ok ())"
    by (simp add: gtpu_encode_def gtpu_wire_len_def encode_flags_def gtpu_view_def Let_def checked_add_def
        checked_sub_def max_u64_def check_capacity_def encode_context_default_def first_octet_def
        optional_fields_def u16_bytes_def u32_bytes_def)
  show ?thesis
    using gtpu_canonical_train [of decode_context_default encode_context_default "[?m, ?m]" "[?w, ?w]" "[1]"] can enc
    by (simp add: dec_limit del: decode_train.simps)
qed

text \<open>
  C7. The decoder never panics, and it is exact: it succeeds if and only if the input starts
  with a frame whose first octet, optional fields, length and extension chain satisfy the
  context, and then the tail and the message are the ones of that frame.
\<close>

theorem gtpu_decode_exact:
  "gtpu_decode input ctx \<noteq> Panic \<and>
   (gtpu_decode input ctx = Ok (tail, m) \<longleftrightarrow>
      length input \<le> dc_max_message_len ctx \<and>
      (\<exists>b0 mt teid opt hs payload. frame_ok ctx b0 opt hs payload \<and>
         input = gtpu_wire b0 mt teid opt (chain_bytes hs) payload @ tail \<and>
         m = gtpu_view b0 mt teid opt (chain_bytes hs) payload))"
proof (intro conjI [OF gtpu_decode_not_Panic] iffI)
  assume "gtpu_decode input ctx = Ok (tail, m)"
  from gtpu_decode_OkD [OF this] show "length input \<le> dc_max_message_len ctx \<and>
      (\<exists>b0 mt teid opt hs payload. frame_ok ctx b0 opt hs payload \<and>
         input = gtpu_wire b0 mt teid opt (chain_bytes hs) payload @ tail \<and>
         m = gtpu_view b0 mt teid opt (chain_bytes hs) payload)" by blast
qed (auto simp: decode_frame simp del: length_append length_gtpu_wire)

text \<open>
  C25. Resource bounds of an accepted message: it consumes eight octets plus its length field,
  its parts fit in that length, and it has at most \<open>max_depth\<close> and at most \<open>max_ies\<close>
  extension headers, which the lazy iterator yields without an error, leaving nothing over.
\<close>

theorem gtpu_decode_bounds:
  assumes "gtpu_decode input ctx = Ok (tail, m)"
  shows "length input = 8 + unat (h_length (m_header m)) + length tail \<and>
    length (m_raw_ext m) + length (m_payload m) \<le> unat (h_length (m_header m)) \<and>
    (\<exists>hs. m_raw_ext m = chain_bytes hs \<and> length hs \<le> dc_max_depth ctx \<and> length hs \<le> dc_max_ies ctx \<and>
       ext_for_each id (\<lambda>h acc. Ok (acc @ [h])) (gtpu_extensions m) [] =
         Ok (chain_headers hs, ext_iter_new [] 0))"
proof -
  obtain b0 mt teid opt hs payload where f: "frame_ok ctx b0 opt hs payload"
    and i: "input = gtpu_wire b0 mt teid opt (chain_bytes hs) payload @ tail"
    and m: "m = gtpu_view b0 mt teid opt (chain_bytes hs) payload"
    using gtpu_decode_OkD [OF assms] by blast
  have len: "unat (h_length (m_header m)) = length opt + length (chain_bytes hs) + length payload"
    unfolding m using f by (intro view_length) (simp add: frame_ok_def)
  have ext: "m_raw_ext m = chain_bytes hs" "m_payload m = payload" by (simp_all add: m gtpu_view_def Let_def)
  have lim: "length hs \<le> dc_max_depth ctx \<and> length hs \<le> dc_max_ies ctx"
    using f by (cases hs) (auto simp: frame_ok_def walk_limits_def)
  have it: "gtpu_extensions m = ext_iter_new (chain_bytes hs) (chain_first hs)"
    using f by (auto simp: gtpu_extensions_def gtpu_first_ext_type_def m gtpu_view_def Let_def frame_ok_def opt_ok_def)
  have fold: "try_fold (\<lambda>h acc. Ok (acc @ [h])) xs acc = Ok (acc @ xs)" for xs acc
    by (induction xs arbitrary: acc) auto
  have "chain_ok hs" using f by (simp add: frame_ok_def)
  then have "ext_for_each id (\<lambda>h acc. Ok (acc @ [h])) (gtpu_extensions m) [] =
      Ok (chain_headers hs, ext_iter_new [] 0)"
    unfolding it by (simp add: ext_for_each_bytes fold)
  with len ext lim i show ?thesis by auto
qed

definition container_frame :: bytes where
  "container_frame = [0x34, 0xff, 0, 9, 0, 0, 0, 5, 0, 0, 0, 0x85, 1, 0x10, 9, 0, 0x45]"

definition container_view :: gtpu_message where
  "container_view = gtpu_view 0x34 0xff 5 [0, 0, 0, 0x85] [1, 0x10, 9, 0] [0x45]"

lemma sample_container:
  "decode_with_reason \<lparr>eh_type = 0x85, eh_content = [0x10, 9], eh_next = n\<rparr> =
     Ok \<lparr>psc_pdu_type = 1, psc_qfi = 9, psc_ppi = None, psc_rqi = False\<rparr>"
proof -
  have "psc_encode \<lparr>psc_pdu_type = 1, psc_qfi = 9, psc_ppi = None, psc_rqi = False\<rparr> = Ok [0x10, 9]"
    by (simp add: psc_encode_def psc_validate_def Let_def)
  from psc_decode_encode_lem [OF this] show ?thesis by (simp add: GTPU_EXT_PDU_SESSION_CONTAINER_def)
qed

lemma decode_container_frame:
  "gtpu_decode (container_frame @ [7]) (decode_context_default\<lparr>dc_validation_level := ProcedureAware\<rparr>) =
     Ok ([7], container_view)"
proof -
  let ?ctx = "decode_context_default\<lparr>dc_validation_level := ProcedureAware\<rparr>"
  have chain: "chain_bytes [(0x85, [0x10, 9])] = [1, 0x10, 9, 0]" by simp
  have wire: "gtpu_wire 0x34 0xff 5 [0, 0, 0, 0x85] [1, 0x10, 9, 0] [0x45] = container_frame"
    by (simp add: gtpu_wire_def u16_bytes_def u32_bytes_def container_frame_def)
  have "fixed_length_ok (0x85, [0x10, 9])" by (simp add: fixed_length_ok_def ext_type_codes)
  then have "list_all (header_ok ?ctx) [(0x85, [0x10, 9])]"
    using sample_container [of 0] by (simp add: header_ok_def decode_context_default_def ext_type_codes)
  then have ok: "frame_ok ?ctx 0x34 [0, 0, 0, 0x85] [(0x85, [0x10, 9])] [0x45]"
    by (simp add: frame_ok_def octet_ok_def opt_ok_def walk_limits_def decode_context_default_def octet_bits
        content_ok_def)
  show ?thesis
    using decode_frame [OF ok, of "0xff" 5 "[7]"] unfolding chain wire container_view_def
    by (simp add: decode_context_default_def container_frame_def)
qed

theorem gtpu_decode_bounds_witness:
  "gtpu_decode (container_frame @ [7]) (decode_context_default\<lparr>dc_validation_level := ProcedureAware\<rparr>) =
     Ok ([7], container_view) \<and>
   length (container_frame @ [7]) = 8 + unat (h_length (m_header container_view)) + 1 \<and>
   (\<exists>hs. m_raw_ext container_view = chain_bytes hs \<and> hs \<noteq> [] \<and> length hs \<le> dc_max_depth decode_context_default \<and>
      ext_for_each id (\<lambda>h acc. Ok (acc @ [h])) (gtpu_extensions container_view) [] =
        Ok (chain_headers hs, ext_iter_new [] 0))"
proof -
  have "m_raw_ext container_view \<noteq> []" by (simp add: container_view_def gtpu_view_def Let_def)
  with gtpu_decode_bounds [OF decode_container_frame] decode_container_frame show ?thesis by auto
qed





lemma container_scan_header_ok:
  assumes "dc_validation_level ctx = ProcedureAware" "list_all (header_ok ctx) hs"
    and "length (filter (\<lambda>h. fst h = GTPU_EXT_PDU_SESSION_CONTAINER) hs) \<le> (if psc = None then 1 else 0)"
  shows "\<exists>psc'. container_scan psc hs = Some psc'"
  using assms by (induction psc hs rule: container_scan.induct) (auto simp: header_ok_def split: if_splits)

text \<open>
  C27. The decoder and the extension-chain summary agree: on an accepted message the summary
  succeeds exactly when the chain has at most one PDU Session Container and that one is valid,
  lists the headers the decoder walked, beginning with the type in the twelfth octet of the
  datagram, and reports that container. After procedure-aware decoding, having at most one
  container is enough.
\<close>

theorem gtpu_summary_agrees:
  assumes "gtpu_decode input ctx = Ok (tail, m)"
  shows "\<exists>hs. m_raw_ext m = chain_bytes hs \<and> chain_ok hs \<and> (if hs = [] then True else chain_first hs = input ! 11) \<and>
    (\<forall>c. chain_from_message m = Ok c \<longleftrightarrow> (\<exists>psc. container_scan None hs = Some psc \<and> c = chain_summary hs psc)) \<and>
    (dc_validation_level ctx = ProcedureAware \<and>
     length (filter (\<lambda>h. fst h = GTPU_EXT_PDU_SESSION_CONTAINER) hs) \<le> 1 \<longrightarrow>
       (\<exists>c. chain_from_message m = Ok c))"
proof -
  obtain b0 mt teid opt hs payload where f: "frame_ok ctx b0 opt hs payload"
    and input: "input = gtpu_wire b0 mt teid opt (chain_bytes hs) payload @ tail"
    and m: "m = gtpu_view b0 mt teid opt (chain_bytes hs) payload"
    using gtpu_decode_OkD [OF assms] by blast
  have ext: "m_raw_ext m = chain_bytes hs" by (simp add: m gtpu_view_def Let_def)
  have hs: "chain_ok hs" "list_all (header_ok ctx) hs" "length (chain_bytes hs) \<le> max_u64"
    using f by (auto simp: frame_ok_def max_u64_def)
  have ft: "(case gtpu_first_ext_type m of None \<Rightarrow> None | Some t \<Rightarrow> if t \<noteq> 0 then Some t else None) =
      (if hs = [] then None else Some (chain_first hs))"
    using f chain_first_0 [OF hs(1)]
    by (auto simp: gtpu_first_ext_type_def m gtpu_view_def Let_def frame_ok_def opt_ok_def split: if_splits)
  have first: "chain_first hs = input ! 11" if "hs \<noteq> []"
  proof -
    have "bit b0 2" using f that chain_first_0 [OF hs(1)] by (auto simp: frame_ok_def split: if_splits)
    then have "length opt = 4" "chain_first hs = opt ! 3" using f by (simp_all add: frame_ok_def opt_ok_def)
    then show ?thesis by (simp add: input gtpu_wire_def u16_bytes_def u32_bytes_def nth_append)
  qed
  have eq: "chain_from_message m = Ok c \<longleftrightarrow> (\<exists>psc. container_scan None hs = Some psc \<and> c = chain_summary hs psc)" for c
  proof
    assume "chain_from_message m = Ok c"
    then obtain ks psc where ks: "chain_ok ks" "container_scan None ks = Some psc" "c = chain_summary ks psc"
       "chain_bytes hs = chain_bytes ks" "(if hs = [] then None else Some (chain_first hs)) = (if ks = [] then None else Some (chain_first ks))"
      using from_raw_OkD [of _ "chain_bytes hs" c] hs(3) unfolding chain_from_message_def ft ext by blast
    then have "chain_first ks = chain_first hs" by (auto split: if_splits)
    with ks(1,4) hs(1) have "ks = hs" using parse_chain_bytes [of ks "[]"] parse_chain_bytes [of hs "[]"] by simp
    with ks show "\<exists>psc. container_scan None hs = Some psc \<and> c = chain_summary hs psc" by blast
  next
    assume "\<exists>psc. container_scan None hs = Some psc \<and> c = chain_summary hs psc"
    then show "chain_from_message m = Ok c"
      unfolding chain_from_message_def ft ext using from_raw_summary [OF hs(3,1)] by blast
  qed
  with ext hs(1) first container_scan_header_ok [OF _ hs(2), of None] show ?thesis by (intro exI [of _ hs]) auto
qed

theorem gtpu_summary_agrees_witness:
  "\<exists>c. chain_from_message container_view = Ok c \<and> gc_first_type c = Some 0x85 \<and> gc_header_count c = 1 \<and>
     gc_container c = Some \<lparr>psc_pdu_type = 1, psc_qfi = 9, psc_ppi = None, psc_rqi = False\<rparr>"
proof -
  have octets: "m_raw_ext container_view = [1, 0x10, 9, 0]" "(container_frame @ [7]) ! 11 = 0x85"
    by (simp_all add: container_frame_def container_view_def gtpu_view_def Let_def)
  obtain hs where hs: "[1, 0x10, 9, 0] = chain_bytes hs" "chain_ok hs" "hs \<noteq> [] \<Longrightarrow> chain_first hs = 0x85"
    and c: "\<And>c. chain_from_message container_view = Ok c \<longleftrightarrow>
      (\<exists>psc. container_scan None hs = Some psc \<and> c = chain_summary hs psc)"
    using gtpu_summary_agrees [OF decode_container_frame, unfolded octets] by (auto split: if_splits)
  have "hs \<noteq> []" using hs(1) by auto
  then have "parse_chain 0x85 [1, 0x10, 9, 0] = Some (hs, [])"
    using parse_chain_bytes [of hs "[]"] hs by simp
  moreover have "parse_chain 0x85 [1, 0x10, 9, 0] = Some ([(0x85, [0x10, 9])], [])"
    using parse_chain_bytes [of "[(0x85, [0x10, 9])]" "[]"] by (simp add: content_ok_def)
  ultimately have "hs = [(0x85, [0x10, 9])]" by simp
  moreover have "container_scan None [(0x85, [0x10, 9])] =
      Some (Some \<lparr>psc_pdu_type = 1, psc_qfi = 9, psc_ppi = None, psc_rqi = False\<rparr>)"
    by (simp add: sample_container ext_type_codes)
  ultimately show ?thesis using c by auto
qed

end
