(* ===== verification/Nacm_Path.thy ===== *)
theory Nacm_Path
  imports Opc_Prelude "HOL-Library.AList" "HOL-Library.List_Lexorder" "HOL-Library.Char_ord"
begin

text \<open>
  Normalised YANG paths and NACM rule patterns, from \<^verbatim>\<open>crates/opc-nacm/src/path.rs\<close> and
  \<^verbatim>\<open>crates/opc-nacm/src/action.rs\<close>: the module registry, the path and pattern parsers, their
  printers and the matching of a pattern. Text is a list of characters with code points up to
  255, where white space and control characters are those of the Unicode tables.
\<close>

section \<open>Text\<close>

definition is_whitespace :: "char \<Rightarrow> bool" where
  "is_whitespace c \<longleftrightarrow>
     (let n = (of_char c :: nat) in (9 \<le> n \<and> n \<le> 13) \<or> n = 32 \<or> n = 133 \<or> n = 160)"

definition is_control :: "char \<Rightarrow> bool" where
  "is_control c \<longleftrightarrow> (let n = (of_char c :: nat) in n \<le> 31 \<or> (127 \<le> n \<and> n \<le> 159))"

definition trim :: "string \<Rightarrow> string" where
  "trim s = rev (dropWhile is_whitespace (rev (dropWhile is_whitespace s)))"

fun split_on :: "char \<Rightarrow> string \<Rightarrow> string list" where
  "split_on c [] = [[]]"
| "split_on c (x # xs) =
     (if x = c then [] # split_on c xs
      else case split_on c xs of [] \<Rightarrow> [[x]] | p # ps \<Rightarrow> (x # p) # ps)"

fun split_once :: "char \<Rightarrow> string \<Rightarrow> (string \<times> string) option" where
  "split_once c [] = None"
| "split_once c (x # xs) =
     (if x = c then Some ([], xs)
      else map_option (\<lambda>(a, b). (x # a, b)) (split_once c xs))"

definition strip_suffix :: "string \<Rightarrow> string \<Rightarrow> string option" where
  "strip_suffix suf s =
     (let n = length s - length suf in
      if length suf \<le> length s \<and> drop n s = suf then Some (take n s) else None)"

fun join_with :: "string \<Rightarrow> string list \<Rightarrow> string" where
  "join_with sep [] = []"
| "join_with sep [x] = x"
| "join_with sep (x # y # ys) = x @ sep @ join_with sep (y # ys)"

section \<open>Errors and actions\<close>

record nacm_error =
  ne_kind :: string
  ne_message :: string

definition nacm_error_new :: "string \<Rightarrow> string \<Rightarrow> nacm_error" where
  "nacm_error_new kind message = \<lparr>ne_kind = kind, ne_message = message\<rparr>"

datatype nacm_action =
    Read | Create | Update | Replace | Delete | Exec | Subscribe | SecurityAdmin
  | Request | Approve | Activate | Revoke

fun action_as_str :: "nacm_action \<Rightarrow> string" where
  "action_as_str Read = ''read''"
| "action_as_str Create = ''create''"
| "action_as_str Update = ''update''"
| "action_as_str Replace = ''replace''"
| "action_as_str Delete = ''delete''"
| "action_as_str Exec = ''exec''"
| "action_as_str Subscribe = ''subscribe''"
| "action_as_str SecurityAdmin = ''security-admin''"
| "action_as_str Request = ''request''"
| "action_as_str Approve = ''approve''"
| "action_as_str Activate = ''activate''"
| "action_as_str Revoke = ''revoke''"

definition action_from_str :: "string \<Rightarrow> (nacm_action, nacm_error) result" where
  "action_from_str v =
     (if v = ''read'' then Ok Read
      else if v = ''create'' then Ok Create
      else if v = ''update'' then Ok Update
      else if v = ''replace'' then Ok Replace
      else if v = ''delete'' then Ok Delete
      else if v = ''exec'' then Ok Exec
      else if v = ''subscribe'' then Ok Subscribe
      else if v = ''security-admin'' then Ok SecurityAdmin
      else if v = ''request'' then Ok Request
      else if v = ''approve'' then Ok Approve
      else if v = ''activate'' then Ok Activate
      else if v = ''revoke'' then Ok Revoke
      else Err (nacm_error_new ''nacm action'' (''unknown action '' @ [CHR 0x27] @ v @ [CHR 0x27])))"

section \<open>Symbols and the module registry\<close>

definition PATH_KIND :: string where
  "PATH_KIND = ''yang path''"

definition REGISTRY_KIND :: string where
  "REGISTRY_KIND = ''module registry''"

abbreviation quote :: "string \<Rightarrow> string" where
  "quote s \<equiv> [CHR 0x27] @ s @ [CHR 0x27]"

definition path_error :: "string \<Rightarrow> nacm_error" where
  "path_error message = nacm_error_new PATH_KIND message"

definition symbol_start :: "char \<Rightarrow> bool" where
  "symbol_start c \<longleftrightarrow>
     (CHR ''a'' \<le> c \<and> c \<le> CHR ''z'') \<or> (CHR ''A'' \<le> c \<and> c \<le> CHR ''Z'') \<or> c = CHR ''_''"

definition symbol_char :: "char \<Rightarrow> bool" where
  "symbol_char c \<longleftrightarrow>
     (CHR ''a'' \<le> c \<and> c \<le> CHR ''z'') \<or> (CHR ''A'' \<le> c \<and> c \<le> CHR ''Z'') \<or>
     (CHR ''0'' \<le> c \<and> c \<le> CHR ''9'') \<or> c = CHR ''-'' \<or> c = CHR ''_'' \<or> c = CHR ''.''"

definition validate_symbol :: "string \<Rightarrow> string \<Rightarrow> string \<Rightarrow> (string, nacm_error) result" where
  "validate_symbol kind label v =
     (if v = [] then Err (nacm_error_new kind (label @ '' cannot be empty''))
      else if trim v \<noteq> v
      then Err (nacm_error_new kind (label @ '' must not contain leading or trailing whitespace''))
      else if \<not> symbol_start (hd v)
      then Err (nacm_error_new kind (label @ '' must start with an ASCII letter or '' @ quote ''_''))
      else if \<not> list_all symbol_char (tl v)
      then Err (nacm_error_new kind
             (label @ '' must contain only ASCII letters, digits, '' @ quote ''-'' @ '', '' @
              quote ''_'' @ '', and '' @ quote ''.''))
      else Ok v)"

record module_registry =
  prefix_to_modules :: "(string \<times> string list) list"

definition registry_new :: module_registry where
  "registry_new = \<lparr>prefix_to_modules = []\<rparr>"

definition register_module ::
  "module_registry \<Rightarrow> string \<Rightarrow> string \<Rightarrow> (module_registry, nacm_error) result" where
  "register_module r m p =
     and_then (validate_symbol REGISTRY_KIND ''module'' m) (\<lambda>m'.
     and_then (validate_symbol REGISTRY_KIND ''prefix'' p) (\<lambda>p'.
     Ok (r\<lparr>prefix_to_modules := AList.map_default p' [m'] (set_insert m') (prefix_to_modules r)\<rparr>)))"

definition modules_for_prefix :: "module_registry \<Rightarrow> string \<Rightarrow> string list option" where
  "modules_for_prefix r p = map_of (prefix_to_modules r) p"

definition resolve_default_module :: "module_registry \<Rightarrow> string \<Rightarrow> (string, nacm_error) result" where
  "resolve_default_module r m =
     (if list_ex (\<lambda>(_, ms). m \<in> set ms) (prefix_to_modules r) then Ok m
      else if map_of (prefix_to_modules r) m \<noteq> None
      then Err (path_error (''default module '' @ quote m @
             '' must be a canonical module name, not a prefix''))
      else Err (path_error (''unknown default module '' @ quote m)))"

definition resolve_prefix :: "module_registry \<Rightarrow> string \<Rightarrow> (string, nacm_error) result" where
  "resolve_prefix r p =
     and_then (ok_or (path_error (''unknown module prefix '' @ quote p))
       (map_of (prefix_to_modules r) p)) (\<lambda>ms.
     if length ms \<noteq> 1
     then Err (path_error (''ambiguous module prefix '' @ quote p @ '' resolves to ['' @
            join_with '', '' ms @ '']''))
     else (case ms of [] \<Rightarrow> Panic | m # _ \<Rightarrow> Ok m))"

section \<open>Paths and patterns\<close>

record qname =
  qn_module :: string
  qn_name :: string

definition qname_new :: "string \<Rightarrow> string \<Rightarrow> (qname, nacm_error) result" where
  "qname_new m n =
     and_then (validate_symbol PATH_KIND ''module'' m) (\<lambda>m'.
     and_then (validate_symbol PATH_KIND ''node name'' n) (\<lambda>n'.
     Ok \<lparr>qn_module = m', qn_name = n'\<rparr>))"

definition qname_display :: "qname \<Rightarrow> string" where
  "qname_display q = qn_module q @ '':'' @ qn_name q"

type_synonym yang_path = "qname list"

datatype pattern_segment = Exact qname | WildcardAny | WildcardModule string

record yang_pattern =
  yp_segments :: "pattern_segment list"
  yp_subtree :: bool

definition path_display :: "yang_path \<Rightarrow> string" where
  "path_display p =
     (if p = [] then ''/'' else concat (map (\<lambda>q. ''/'' @ qname_display q) p))"

fun segment_display :: "pattern_segment \<Rightarrow> string" where
  "segment_display (Exact q) = qname_display q"
| "segment_display WildcardAny = ''*''"
| "segment_display (WildcardModule m) = m @ '':*''"

definition pattern_display :: "yang_pattern \<Rightarrow> string" where
  "pattern_display p =
     (if yp_segments p = [] then ''/**''
      else concat (map (\<lambda>s. ''/'' @ segment_display s) (yp_segments p))
           @ (if yp_subtree p then ''/**'' else []))"

text \<open>
  One turn of the parser's loop: the segment it pushes and the module context afterwards. A
  parsed segment has the constructors of a pattern segment.
\<close>

definition parse_segment ::
  "module_registry \<Rightarrow> bool \<Rightarrow> string option \<Rightarrow> string
     \<Rightarrow> (pattern_segment \<times> string option, nacm_error) result" where
  "parse_segment r allow_wildcards current raw =
     (if raw = [] \<or> raw = ''.'' \<or> raw = ''..''
      then Err (path_error (''invalid path segment '' @ quote raw))
      else if allow_wildcards \<and> raw = ''*'' then Ok (WildcardAny, current)
      else if allow_wildcards \<and> strip_suffix '':*'' raw \<noteq> None
      then (case strip_suffix '':*'' raw of
              None \<Rightarrow> Panic
            | Some prefix \<Rightarrow>
                if prefix = []
                then Err (path_error ''module-scoped wildcards must include a non-empty prefix'')
                else and_then (resolve_prefix r prefix) (\<lambda>m. Ok (WildcardModule m, Some m)))
      else if CHR ''*'' \<in> set raw
      then Err (path_error (''wildcards are not valid in segment '' @ quote raw))
      else case split_once (CHR '':'') raw of
        Some (prefix, n) \<Rightarrow>
          if prefix = [] \<or> n = []
          then Err (path_error (''qualified segment '' @ quote raw @
                 '' must include both prefix and node''))
          else
          and_then (resolve_prefix r prefix) (\<lambda>m.
          and_then (validate_symbol PATH_KIND ''node name'' n) (\<lambda>n'.
          Ok (Exact \<lparr>qn_module = m, qn_name = n'\<rparr>, Some m)))
      | None \<Rightarrow>
          and_then (ok_or (path_error (''segment '' @ quote raw @
             '' is missing a prefix and no module context is available'')) current) (\<lambda>m.
          and_then (validate_symbol PATH_KIND ''node name'' raw) (\<lambda>n'.
          Ok (Exact \<lparr>qn_module = m, qn_name = n'\<rparr>, current))))"

fun parse_loop ::
  "module_registry \<Rightarrow> bool \<Rightarrow> string option \<Rightarrow> string list
     \<Rightarrow> (pattern_segment list, nacm_error) result" where
  "parse_loop r w current [] = Ok []"
| "parse_loop r w current (raw # raws) =
     and_then (parse_segment r w current raw) (\<lambda>(seg, current').
     and_then (parse_loop r w current' raws) (\<lambda>segs. Ok (seg # segs)))"

definition parse_segments ::
  "string \<Rightarrow> module_registry \<Rightarrow> string option \<Rightarrow> bool \<Rightarrow> (pattern_segment list, nacm_error) result" where
  "parse_segments input r default_module allow_wildcards =
     (if input = [] then Err (path_error ''paths must not be empty'')
      else if trim input \<noteq> input
      then Err (path_error ''paths must not contain leading or trailing whitespace'')
      else if hd input \<noteq> CHR ''/''
      then Err (path_error (''paths must start with '' @ quote ''/''))
      else if input = ''/'' then Ok []
      else if last input = CHR ''/''
      then Err (path_error (''paths must not end with '' @ quote ''/''))
      else
      and_then
        (case default_module of
           None \<Rightarrow> Ok None
         | Some m \<Rightarrow>
             and_then (validate_symbol PATH_KIND ''default module'' m) (\<lambda>m'.
             and_then (resolve_default_module r m') (\<lambda>m''. Ok (Some m'')))) (\<lambda>current.
      parse_loop r allow_wildcards current (split_on (CHR ''/'') (tl input))))"

fun exact_segments :: "pattern_segment list \<Rightarrow> (yang_path, nacm_error) result" where
  "exact_segments [] = Ok []"
| "exact_segments (s # ss) =
     and_then
       (case s of Exact q \<Rightarrow> Ok q
        | _ \<Rightarrow> Err (path_error ''wildcards are only valid in NACM rule patterns'')) (\<lambda>q.
     and_then (exact_segments ss) (\<lambda>qs. Ok (q # qs)))"

definition path_parse_with_default_module ::
  "string \<Rightarrow> module_registry \<Rightarrow> string option \<Rightarrow> (yang_path, nacm_error) result" where
  "path_parse_with_default_module input r default_module =
     and_then (parse_segments input r default_module False) (\<lambda>segments.
     if segments = []
     then Err (path_error ''absolute paths must contain at least one segment'')
     else exact_segments segments)"

definition path_parse :: "string \<Rightarrow> module_registry \<Rightarrow> (yang_path, nacm_error) result" where
  "path_parse input r = path_parse_with_default_module input r None"

definition split_subtree_suffix :: "string \<Rightarrow> string \<times> bool" where
  "split_subtree_suffix input =
     (if input = ''/**'' then (''/'', True)
      else case strip_suffix ''/**'' input of
        Some base \<Rightarrow> (if base = [] then ''/'' else base, True)
      | None \<Rightarrow> (input, False))"

definition pattern_parse_with_default_module ::
  "string \<Rightarrow> module_registry \<Rightarrow> string option \<Rightarrow> (yang_pattern, nacm_error) result" where
  "pattern_parse_with_default_module input r default_module =
     (let (base, subtree) = split_subtree_suffix input in
      and_then (parse_segments base r default_module True) (\<lambda>segments.
      if \<not> subtree \<and> segments = []
      then Err (path_error ''exact rule patterns must contain at least one segment'')
      else Ok \<lparr>yp_segments = segments, yp_subtree = subtree\<rparr>))"

definition pattern_parse :: "string \<Rightarrow> module_registry \<Rightarrow> (yang_pattern, nacm_error) result" where
  "pattern_parse input r = pattern_parse_with_default_module input r None"

fun segment_matches :: "pattern_segment \<Rightarrow> qname \<Rightarrow> bool" where
  "segment_matches (Exact q) actual \<longleftrightarrow> q = actual"
| "segment_matches WildcardAny actual \<longleftrightarrow> True"
| "segment_matches (WildcardModule m) actual \<longleftrightarrow> m = qn_module actual"

definition pattern_matches :: "yang_pattern \<Rightarrow> yang_path \<Rightarrow> bool" where
  "pattern_matches p path =
     (if yp_subtree p \<and> length (yp_segments p) > length path then False
      else if \<not> yp_subtree p \<and> length (yp_segments p) \<noteq> length path then False
      else list_all (\<lambda>(s, q). segment_matches s q) (zip (yp_segments p) path))"

section \<open>Symbols in printed paths\<close>

lemma symbol_char_facts:
  assumes "symbol_char c"
  shows "c \<noteq> CHR ''/''" "c \<noteq> CHR '':''" "c \<noteq> CHR ''*''" "\<not> is_whitespace c"
  using assms by (cases c; auto simp: symbol_char_def is_whitespace_def Let_def)+

definition valid_symbol :: "string \<Rightarrow> bool" where
  "valid_symbol s \<longleftrightarrow> s \<noteq> [] \<and> symbol_start (hd s) \<and> list_all symbol_char (tl s)"

lemma symbol_start_char: "symbol_start c \<Longrightarrow> symbol_char c"
  by (auto simp: symbol_start_def symbol_char_def)

lemma valid_symbol_chars: "valid_symbol s \<Longrightarrow> c \<in> set s \<Longrightarrow> symbol_char c"
  by (cases s) (auto simp: valid_symbol_def list_all_iff symbol_start_char)

lemma valid_symbol_not:
  assumes "valid_symbol s"
  shows "s \<noteq> []" "CHR ''/'' \<notin> set s" "CHR '':'' \<notin> set s" "CHR ''*'' \<notin> set s"
  using assms valid_symbol_chars [OF assms] symbol_char_facts by (auto simp: valid_symbol_def)

lemma dropWhile_hd: "xs = [] \<or> \<not> P (hd xs) \<Longrightarrow> dropWhile P xs = xs"
  by (cases xs) auto

lemma trim_id: "s \<noteq> [] \<Longrightarrow> \<not> is_whitespace (hd s) \<Longrightarrow> \<not> is_whitespace (last s) \<Longrightarrow> trim s = s"
  by (simp add: trim_def dropWhile_hd hd_rev)

lemma validate_symbol_Ok_iff [outcome_simps]:
  "validate_symbol kind label s = Ok s' \<longleftrightarrow> s' = s \<and> valid_symbol s"
proof -
  have "valid_symbol s \<Longrightarrow> trim s = s"
    using valid_symbol_chars [of s] symbol_char_facts(4)
    by (intro trim_id) (auto simp: valid_symbol_def dest: hd_in_set last_in_set)
  then show ?thesis by (auto simp: validate_symbol_def valid_symbol_def outcome_simps)
qed

lemma split_on_piece: "c \<notin> set p \<Longrightarrow> split_on c p = [p]"
  by (induction p) auto

lemma split_on_append: "c \<notin> set p \<Longrightarrow> split_on c (p @ c # s) = p # split_on c s"
  by (induction p) auto

lemma split_on_segments:
  "(\<And>p. p \<in> set (q # ps) \<Longrightarrow> c \<notin> set p) \<Longrightarrow>
   split_on c (q @ concat (map (\<lambda>p. c # p) ps)) = q # ps"
proof (induction ps arbitrary: q)
  case (Cons p ps)
  then show ?case by (simp add: split_on_append)
qed (simp add: split_on_piece)

lemma split_once_append: "c \<notin> set p \<Longrightarrow> split_once c (p @ c # s) = Some (p, s)"
  by (induction p) auto

lemma strip_suffix_append [simp]: "strip_suffix suf (s @ suf) = Some s"
  by (simp add: strip_suffix_def)

lemma strip_suffix_Some: "strip_suffix suf s = Some b \<Longrightarrow> s = b @ suf"
  by (auto simp: strip_suffix_def Let_def split: if_splits) (metis append_take_drop_id)

lemma strip_suffix_None: "c \<in> set suf \<Longrightarrow> c \<notin> set s \<Longrightarrow> strip_suffix suf s = None"
  by (cases "strip_suffix suf s") (auto dest!: strip_suffix_Some)

section \<open>Printing and parsing\<close>

text \<open>A module that the registry knows under its own name.\<close>

definition self_prefixed :: "module_registry \<Rightarrow> string \<Rightarrow> bool" where
  "self_prefixed r m \<longleftrightarrow> valid_symbol m \<and> map_of (prefix_to_modules r) m = Some [m]"

lemma resolve_self: "self_prefixed r m \<Longrightarrow> resolve_prefix r m = Ok m"
  by (simp add: self_prefixed_def resolve_prefix_def)

fun segment_ok :: "module_registry \<Rightarrow> bool \<Rightarrow> pattern_segment \<Rightarrow> bool" where
  "segment_ok r w (Exact q) \<longleftrightarrow> self_prefixed r (qn_module q) \<and> valid_symbol (qn_name q)"
| "segment_ok r w WildcardAny \<longleftrightarrow> w"
| "segment_ok r w (WildcardModule m) \<longleftrightarrow> w \<and> self_prefixed r m"

fun segment_context :: "string option \<Rightarrow> pattern_segment \<Rightarrow> string option" where
  "segment_context current (Exact q) = Some (qn_module q)"
| "segment_context current WildcardAny = current"
| "segment_context current (WildcardModule m) = Some m"

lemma parse_segment_display:
  assumes "segment_ok r w s"
  shows "parse_segment r w current (segment_display s) = Ok (s, segment_context current s)"
proof (cases s)
  case (Exact q)
  then have m: "valid_symbol (qn_module q)" and n: "valid_symbol (qn_name q)"
    and res: "resolve_prefix r (qn_module q) = Ok (qn_module q)"
    using assms by (auto simp: self_prefixed_def resolve_self)
  let ?raw = "qn_module q @ CHR '':'' # qn_name q"
  have "CHR ''*'' \<notin> set ?raw" using valid_symbol_not [OF m] valid_symbol_not [OF n] by simp
  moreover from this have "strip_suffix '':*'' ?raw = None"
    by (intro strip_suffix_None [of "CHR ''*''"]) simp_all
  moreover have "split_once (CHR '':'') ?raw = Some (qn_module q, qn_name q)"
    using valid_symbol_not [OF m] by (simp add: split_once_append)
  moreover have "?raw \<noteq> ''*''" "?raw \<noteq> ''.''" "?raw \<noteq> ''..''" "?raw \<noteq> []"
    using valid_symbol_not [OF m] valid_symbol_not [OF n] by (auto simp: Cons_eq_append_conv append_eq_Cons_conv)
  ultimately show ?thesis
    using Exact res n valid_symbol_not [OF m] valid_symbol_not [OF n]
    by (simp add: parse_segment_def qname_display_def outcome_simps)
next
  case WildcardAny
  then show ?thesis using assms by (simp add: parse_segment_def)
next
  case (WildcardModule m)
  then have m: "valid_symbol m" and res: "resolve_prefix r m = Ok m" and w
    using assms by (auto simp: self_prefixed_def resolve_self)
  have "m @ '':*'' \<noteq> ''*''" "m @ '':*'' \<noteq> ''.''" "m @ '':*'' \<noteq> ''..''"
    using valid_symbol_not [OF m] by (auto simp: append_eq_Cons_conv)
  then show ?thesis using WildcardModule res \<open>w\<close> valid_symbol_not [OF m]
    using strip_suffix_append [of "'':*''" m] by (simp add: parse_segment_def del: strip_suffix_append)
qed

lemma parse_loop_display:
  "list_all (segment_ok r w) ss \<Longrightarrow> parse_loop r w current (map segment_display ss) = Ok ss"
  by (induction ss arbitrary: current) (auto simp: parse_segment_display)

lemma segment_display_chars:
  assumes "segment_ok r w s"
  shows "segment_display s \<noteq> []" "CHR ''/'' \<notin> set (segment_display s)"
    "\<not> is_whitespace (last (segment_display s))" "segment_display s \<noteq> b @ ''**''"
proof -
  have ws: "\<not> is_whitespace (CHR ''*'')" by (simp add: is_whitespace_def)
  have l: "valid_symbol x \<Longrightarrow> \<not> is_whitespace (last x) \<and> last x \<noteq> CHR ''*''" for x
    using valid_symbol_chars [of x "last x"] symbol_char_facts [of "last x"] valid_symbol_not(1) [of x] by simp
  show "segment_display s \<noteq> []" "CHR ''/'' \<notin> set (segment_display s)"
    "\<not> is_whitespace (last (segment_display s))" "segment_display s \<noteq> b @ ''**''"
    using assms
    by (cases s; auto simp: qname_display_def self_prefixed_def ws l valid_symbol_not dest: arg_cong [where f = last])+
qed

text \<open>The text that follows the leading slash of a printed path or pattern.\<close>

lemma parse_segments_display:
  assumes ok: "list_all (segment_ok r w) ss" and ne: "ss \<noteq> []"
  shows "parse_segments (concat (map (\<lambda>s. ''/'' @ segment_display s) ss)) r None w = Ok ss"
proof -
  obtain x xs where ss: "ss = x # xs" using ne by (cases ss) auto
  let ?body = "segment_display x @ concat (map (\<lambda>s. CHR ''/'' # segment_display s) xs)"
  have printed: "concat (map (\<lambda>s. ''/'' @ segment_display s) ss) = CHR ''/'' # ?body" by (simp add: ss)
  have last: "last (CHR ''/'' # ?body) = last (segment_display (last ss))"
    using ok unfolding ss by (induction xs arbitrary: x) (auto simp: segment_display_chars last_append)
  have lok: "segment_ok r w (last ss)" using ok ne by (simp add: list_all_iff)
  have "trim (CHR ''/'' # ?body) = CHR ''/'' # ?body"
    by (rule trim_id) (simp_all add: last segment_display_chars [OF lok] is_whitespace_def [of "CHR ''/''"] del: last.simps)
  moreover have "last (CHR ''/'' # ?body) \<noteq> CHR ''/''"
    unfolding last using segment_display_chars(1,2) [OF lok] last_in_set by metis
  moreover have "?body \<noteq> []" using ok segment_display_chars(1) [of r w x] by (auto simp: ss)
  moreover have "split_on (CHR ''/'') ?body = map segment_display ss"
  proof -
    have "q \<in> set (segment_display x # map segment_display xs) \<Longrightarrow> CHR ''/'' \<notin> set q" for q
      using ok by (auto simp: ss list_all_iff dest: segment_display_chars(2))
    then show ?thesis
      using split_on_segments [where q = "segment_display x" and ps = "map segment_display xs" and c = "CHR ''/''"]
      by (simp add: ss comp_def)
  qed
  ultimately show ?thesis
    unfolding printed using parse_loop_display [OF ok] by (auto simp: parse_segments_def simp del: last.simps)
qed

lemma exact_segments_map: "exact_segments (map Exact p) = Ok p"
  by (induction p) auto

lemma path_display_map:
  "p \<noteq> [] \<Longrightarrow> path_display p = concat (map (\<lambda>s. ''/'' @ segment_display s) (map Exact p))"
  by (simp add: path_display_def comp_def)

section \<open>What the parsers accept\<close>

definition registered :: "module_registry \<Rightarrow> string \<Rightarrow> bool" where
  "registered r m \<longleftrightarrow> list_ex (\<lambda>(_, ms). m \<in> set ms) (prefix_to_modules r)"

definition registry_ok :: "module_registry \<Rightarrow> bool" where
  "registry_ok r \<longleftrightarrow>
     distinct (map fst (prefix_to_modules r)) \<and>
     list_all (\<lambda>(p, ms). valid_symbol p \<and> ms \<noteq> [] \<and> sorted_wrt (<) ms \<and> list_all valid_symbol ms)
       (prefix_to_modules r)"

lemma map_default_all:
  assumes "list_all (\<lambda>(p, ms). Q p ms) al" "Q k v" "\<And>ms. Q k ms \<Longrightarrow> Q k (f ms)"
  shows "list_all (\<lambda>(p, ms). Q p ms) (AList.map_default k v f al)"
  using assms by (induction al) auto

lemma registry_new_ok: "registry_ok registry_new"
  by (simp add: registry_ok_def registry_new_def)

lemma register_module_ok:
  assumes "registry_ok r" "register_module r m p = Ok r'"
  shows "registry_ok r'"
proof -
  have m: "valid_symbol m" "valid_symbol p"
    and r': "r' = r\<lparr>prefix_to_modules := AList.map_default p [m] (set_insert m) (prefix_to_modules r)\<rparr>"
    using assms(2) by (auto simp: register_module_def outcome_simps)
  show ?thesis
    using assms(1) m unfolding registry_ok_def r'
    by (auto intro!: distinct_map_default map_default_all simp: sorted_set_insert list_all_iff [of valid_symbol]
        simp del: set_insert.simps)
qed

definition segment_wf :: "module_registry \<Rightarrow> pattern_segment \<Rightarrow> bool" where
  "segment_wf r s \<longleftrightarrow>
     (case s of
        Exact q \<Rightarrow> registered r (qn_module q) \<and> valid_symbol (qn_name q)
      | WildcardAny \<Rightarrow> True
      | WildcardModule m \<Rightarrow> registered r m)"

lemma resolve_prefix_registered: "resolve_prefix r p = Ok m \<Longrightarrow> registered r m"
proof -
  assume "resolve_prefix r p = Ok m"
  then have "map_of (prefix_to_modules r) p = Some [m]"
    by (cases "map_of (prefix_to_modules r) p") (auto simp: resolve_prefix_def split: if_splits list.splits)
  then have "(p, [m]) \<in> set (prefix_to_modules r)" by (rule map_of_SomeD)
  then show "registered r m" by (force simp: registered_def list_ex_iff)
qed

lemma parse_segment_wf:
  assumes "parse_segment r w current raw = Ok (s, current')" "case current of None \<Rightarrow> True | Some m \<Rightarrow> registered r m"
  shows "segment_wf r s \<and> (case current' of None \<Rightarrow> True | Some m \<Rightarrow> registered r m) \<and> (\<not> w \<longrightarrow> (\<exists>q. s = Exact q))"
  using assms by (auto simp: parse_segment_def segment_wf_def outcome_simps resolve_prefix_registered
      split: if_splits option.splits)

lemma parse_loop_wf:
  "parse_loop r w current raws = Ok ss \<Longrightarrow> case current of None \<Rightarrow> True | Some m \<Rightarrow> registered r m \<Longrightarrow>
   list_all (segment_wf r) ss \<and> (\<not> w \<longrightarrow> (\<exists>p. ss = map Exact p))"
proof (induction raws arbitrary: current ss)
  case (Cons raw raws)
  then obtain s current' ss' where s: "parse_segment r w current raw = Ok (s, current')"
    and l: "parse_loop r w current' raws = Ok ss'" and ss: "ss = s # ss'"
    by (auto simp: outcome_simps)
  note wf = parse_segment_wf [OF s Cons.prems(2)]
  with Cons.IH [OF l] ss show ?case by (auto simp: Cons_eq_map_conv)
qed auto

lemma parse_segments_wf:
  assumes "parse_segments input r dm w = Ok ss"
  shows "list_all (segment_wf r) ss \<and> (\<not> w \<longrightarrow> (\<exists>p. ss = map Exact p))"
  using assms
  by (auto simp: parse_segments_def outcome_simps resolve_default_module_def registered_def
      split: if_splits option.splits dest!: parse_loop_wf)

lemma pattern_parse_wf:
  "pattern_parse_with_default_module input r dm = Ok p \<Longrightarrow>
   list_all (segment_wf r) (yp_segments p) \<and> (yp_subtree p \<or> yp_segments p \<noteq> [])"
  by (auto simp: pattern_parse_with_default_module_def outcome_simps split: prod.splits if_splits
      dest!: parse_segments_wf)

section \<open>The parsers never panic\<close>

lemma resolve_not_Panic [simp]:
  "validate_symbol kind label v \<noteq> Panic" "resolve_default_module r m \<noteq> Panic" "resolve_prefix r p \<noteq> Panic"
  by (auto simp: validate_symbol_def resolve_default_module_def resolve_prefix_def outcome_simps split: list.splits)

lemma parse_segment_not_Panic [simp]: "parse_segment r w current raw \<noteq> Panic"
  by (auto simp: parse_segment_def outcome_simps split: option.splits)

lemma parse_loop_not_Panic [simp]: "parse_loop r w current raws \<noteq> Panic"
  by (induction raws arbitrary: current) (auto simp: outcome_simps)

lemma parse_segments_not_Panic [simp]: "parse_segments input r dm w \<noteq> Panic"
  by (auto simp: parse_segments_def outcome_simps split: option.splits)

lemma exact_segments_not_Panic [simp]: "exact_segments ss \<noteq> Panic"
  by (induction ss) (auto simp: outcome_simps split: pattern_segment.splits)

section \<open>Properties\<close>

text \<open>
  C28. Printing and parsing a YANG path are inverse: a nonempty path of valid node names whose
  modules are registered under their own names is read back from its printed form.
\<close>

theorem path_print_parse:
  assumes "p \<noteq> []" and "\<forall>q\<in>set p. self_prefixed r (qn_module q) \<and> valid_symbol (qn_name q)"
  shows "path_parse (path_display p) r = Ok p"
proof -
  have "list_all (segment_ok r False) (map Exact p)" using assms(2) by (simp add: list_all_iff)
  then show ?thesis
    using assms(1) parse_segments_display [of r False "map Exact p"]
    by (simp add: path_parse_def path_parse_with_default_module_def path_display_map exact_segments_map
        del: map_map)
qed

theorem path_print_parse_witness:
  "path_parse ''/sys:system/sys:ntp'' \<lparr>prefix_to_modules = [(''sys'', [''sys''])]\<rparr> =
     Ok [\<lparr>qn_module = ''sys'', qn_name = ''system''\<rparr>, \<lparr>qn_module = ''sys'', qn_name = ''ntp''\<rparr>]"
proof -
  let ?p = "[\<lparr>qn_module = ''sys'', qn_name = ''system''\<rparr>, \<lparr>qn_module = ''sys'', qn_name = ''ntp''\<rparr>]"
  let ?r = "\<lparr>prefix_to_modules = [(''sys'', [''sys''])]\<rparr>"
  have "\<forall>q\<in>set ?p. self_prefixed ?r (qn_module q) \<and> valid_symbol (qn_name q)"
    by (simp add: self_prefixed_def valid_symbol_def symbol_start_def symbol_char_def)
  from path_print_parse [OF _ this] show ?thesis
    by (simp add: path_display_def qname_display_def)
qed

text \<open>
  C29. Printing and parsing a rule pattern are inverse, wildcards and subtree patterns included.
\<close>

theorem pattern_print_parse:
  assumes "\<forall>s\<in>set (yp_segments p). segment_ok r True s" and "yp_subtree p \<or> yp_segments p \<noteq> []"
  shows "pattern_parse (pattern_display p) r = Ok p"
proof (cases "yp_segments p = []")
  case True
  then have "p = \<lparr>yp_segments = [], yp_subtree = True\<rparr>" using assms(2) by simp
  then show ?thesis
    by (simp add: pattern_display_def pattern_parse_def pattern_parse_with_default_module_def
        split_subtree_suffix_def parse_segments_def trim_def is_whitespace_def)
next
  case False
  let ?txt = "concat (map (\<lambda>s. ''/'' @ segment_display s) (yp_segments p))"
  have ok: "list_all (segment_ok r True) (yp_segments p)" using assms(1) by (simp add: list_all_iff)
  have parse: "parse_segments ?txt r None True = Ok (yp_segments p)"
    using parse_segments_display [OF ok False] .
  obtain xs x where seg: "yp_segments p = xs @ [x]" using False by (cases "yp_segments p" rule: rev_cases) auto
  have x: "segment_ok r True x" using ok by (simp add: seg)
  have ne: "?txt \<noteq> []" using False by (cases "yp_segments p") auto
  have suf: "strip_suffix ''/**'' ?txt = None"
  proof (cases "strip_suffix ''/**'' ?txt")
    case (Some b)
    from strip_suffix_Some [OF this] have eq: "(concat (map (\<lambda>s. ''/'' @ segment_display s) xs) @ ''/'') @ segment_display x = (b @ ''/'') @ ''**''"
      by (simp add: seg)
    have l: "last (segment_display x) = CHR ''*''" and l2: "last (butlast (CHR ''/'' # segment_display x)) = CHR ''*''"
      using segment_display_chars(1) [OF x] arg_cong [OF eq, of last] arg_cong [OF eq, of "last \<circ> butlast"]
      by (auto simp: butlast_append split: if_splits)
    have "valid_symbol y \<Longrightarrow> y \<noteq> [] \<and> last y \<noteq> CHR ''*''" for y
      using valid_symbol_not(1,4) [of y] last_in_set [of y] by metis
    with x l l2 have False
      by (cases x) (auto simp: qname_display_def self_prefixed_def butlast_append split: if_splits)
    then show ?thesis ..
  qed
  show ?thesis
  proof (cases "yp_subtree p")
    case True
    then have "pattern_display p = ?txt @ ''/**''" using False by (simp add: pattern_display_def)
    moreover have "?txt @ ''/**'' \<noteq> ''/**''" using ne by simp
    ultimately show ?thesis
      using parse True ne strip_suffix_append [of "''/**''" ?txt]
      by (simp add: pattern_parse_def pattern_parse_with_default_module_def split_subtree_suffix_def del: strip_suffix_append)
  next
    case nosub: False
    then have "pattern_display p = ?txt" using False by (simp add: pattern_display_def)
    moreover have "?txt \<noteq> ''/**''" using suf strip_suffix_append [of "''/**''" "[]"] by fastforce
    ultimately show ?thesis
      using parse nosub False suf
      by (simp add: pattern_parse_def pattern_parse_with_default_module_def split_subtree_suffix_def)
  qed
qed

theorem pattern_print_parse_witness:
  "pattern_parse ''/sys:*/*/**'' \<lparr>prefix_to_modules = [(''sys'', [''sys''])]\<rparr> =
     Ok \<lparr>yp_segments = [WildcardModule ''sys'', WildcardAny], yp_subtree = True\<rparr>"
proof -
  let ?p = "\<lparr>yp_segments = [WildcardModule ''sys'', WildcardAny], yp_subtree = True\<rparr>"
  let ?r = "\<lparr>prefix_to_modules = [(''sys'', [''sys''])]\<rparr>"
  have "\<forall>s\<in>set (yp_segments ?p). segment_ok ?r True s"
    by (simp add: self_prefixed_def valid_symbol_def symbol_start_def symbol_char_def)
  from pattern_print_parse [OF this] show ?thesis by (simp add: pattern_display_def)
qed

text \<open>
  C30. Parsing never panics, whatever the text, and it normalises: with a registry built by registering
  modules, every segment of a parsed path has a valid module that the registry knows and a valid node
  name, whatever prefixes, default module and inherited context the text used, and the path is not empty.
\<close>

theorem path_parse_normalised:
  assumes "registry_ok r"
  shows "path_parse_with_default_module input r dm \<noteq> Panic \<and>
    pattern_parse_with_default_module input r dm \<noteq> Panic \<and>
    (\<forall>p. path_parse_with_default_module input r dm = Ok p \<longrightarrow>
       p \<noteq> [] \<and> (\<forall>q\<in>set p. registered r (qn_module q) \<and> valid_symbol (qn_module q) \<and> valid_symbol (qn_name q)))"
proof -
  have valid: "registered r m \<Longrightarrow> valid_symbol m" for m
    using assms by (fastforce simp: registered_def registry_ok_def list_ex_iff list_all_iff)
  have "p \<noteq> [] \<and> (\<forall>q\<in>set p. registered r (qn_module q) \<and> valid_symbol (qn_module q) \<and> valid_symbol (qn_name q))"
    if parsed: "path_parse_with_default_module input r dm = Ok p" for p
  proof -
    obtain ss where s: "parse_segments input r dm False = Ok ss" "ss \<noteq> []" "exact_segments ss = Ok p"
      using parsed by (auto simp: path_parse_with_default_module_def outcome_simps)
    then obtain p' where "ss = map Exact p'" and wf: "list_all (segment_wf r) ss"
      using parse_segments_wf [OF s(1)] by auto
    with s(3) have ss: "ss = map Exact p" by (simp add: exact_segments_map)
    with wf s(2) valid show ?thesis by (auto simp: list_all_iff segment_wf_def)
  qed
  moreover have "path_parse_with_default_module input r dm \<noteq> Panic"
    "pattern_parse_with_default_module input r dm \<noteq> Panic"
    by (auto simp: path_parse_with_default_module_def pattern_parse_with_default_module_def outcome_simps
        split: prod.splits)
  ultimately show ?thesis by blast
qed

theorem path_parse_normalised_witness:
  "path_parse_with_default_module ''/s:system/clock'' \<lparr>prefix_to_modules = [(''s'', [''ietf-system''])]\<rparr> None =
     Ok [\<lparr>qn_module = ''ietf-system'', qn_name = ''system''\<rparr>, \<lparr>qn_module = ''ietf-system'', qn_name = ''clock''\<rparr>] \<and>
   registered \<lparr>prefix_to_modules = [(''s'', [''ietf-system''])]\<rparr> ''ietf-system'' \<and> valid_symbol ''clock'' \<and>
   path_parse_with_default_module ''/t:x'' \<lparr>prefix_to_modules = [(''s'', [''ietf-system''])]\<rparr> None \<noteq> Panic"
proof -
  let ?r = "\<lparr>prefix_to_modules = [(''s'', [''ietf-system''])]\<rparr>"
  have ok: "registry_ok ?r"
    by (simp add: registry_ok_def valid_symbol_def symbol_start_def symbol_char_def)
  have parsed: "path_parse_with_default_module ''/s:system/clock'' ?r None =
      Ok [\<lparr>qn_module = ''ietf-system'', qn_name = ''system''\<rparr>, \<lparr>qn_module = ''ietf-system'', qn_name = ''clock''\<rparr>]"
    by code_simp
  with path_parse_normalised [OF ok, of "''/s:system/clock''" None] path_parse_normalised [OF ok, of "''/t:x''" None]
  show ?thesis by simp
qed

end
