(* ===== verification/Nacm_Trie.thy ===== *)
theory Nacm_Trie
  imports Nacm_Path
begin

text \<open>
  The rule trie of \<^verbatim>\<open>crates/opc-nacm/src/trie.rs\<close>, with the rules it is built from
  (\<^verbatim>\<open>crates/opc-nacm/src/policy.rs\<close>): insertion, and the pruned lookup that visits exact,
  module-wildcard and any-child branches. The lookup is shown to return the first matching
  rule in policy order, which is the contract the policy component relies on.
\<close>

section \<open>Rules\<close>

datatype nacm_effect = Allow | Deny

definition effect_is_allowed :: "nacm_effect \<Rightarrow> bool" where
  "effect_is_allowed e \<longleftrightarrow> e = Allow"

record nacm_rule =
  r_action :: nacm_action
  r_effect :: nacm_effect
  r_path :: yang_pattern

definition rule_new :: "nacm_action \<Rightarrow> nacm_effect \<Rightarrow> yang_pattern \<Rightarrow> nacm_rule" where
  "rule_new a e p = \<lparr>r_action = a, r_effect = e, r_path = p\<rparr>"

definition rule_allow :: "nacm_action \<Rightarrow> yang_pattern \<Rightarrow> nacm_rule" where
  "rule_allow a p = rule_new a Allow p"

definition rule_deny :: "nacm_action \<Rightarrow> yang_pattern \<Rightarrow> nacm_rule" where
  "rule_deny a p = rule_new a Deny p"

section \<open>The trie\<close>

record compiled_rule =
  cr_index :: nat
  cr_effect :: nacm_effect
  cr_action :: nacm_action

datatype trie_node = TrieNode
  (exact_children: "(qname \<times> trie_node) list")
  (module_wildcard_children: "(string \<times> trie_node) list")
  (any_child: "trie_node option")
  (exact_rules: "compiled_rule list")
  (subtree_rules: "compiled_rule list")
  (min_rule_index: "nat option")

definition node_default :: trie_node where
  "node_default = TrieNode [] [] None [] [] None"

fun record_reachable_rule :: "nat \<Rightarrow> trie_node \<Rightarrow> trie_node" where
  "record_reachable_rule i (TrieNode ex mw an er sr mn) =
     TrieNode ex mw an er sr (Some (case mn of None \<Rightarrow> i | Some m \<Rightarrow> min m i))"

text \<open>\<open>or_default\<close>: the child under a key, or a fresh node.\<close>

definition child_or_default :: "trie_node option \<Rightarrow> trie_node" where
  "child_or_default c = (case c of None \<Rightarrow> node_default | Some n \<Rightarrow> n)"

text \<open>
  The insertion loop walks down the pattern's segments and records the index at every node;
  the recursion rebuilds the nodes on the way.
\<close>

fun node_insert ::
  "compiled_rule \<Rightarrow> bool \<Rightarrow> pattern_segment list \<Rightarrow> trie_node \<Rightarrow> trie_node" where
  "node_insert c subtree [] node =
     (case record_reachable_rule (cr_index c) node of
        TrieNode ex mw an er sr mn \<Rightarrow>
          if subtree then TrieNode ex mw an er (sr @ [c]) mn else TrieNode ex mw an (er @ [c]) sr mn)"
| "node_insert c subtree (seg # segs) node =
     (case record_reachable_rule (cr_index c) node of
        TrieNode ex mw an er sr mn \<Rightarrow>
          (case seg of
             Exact q \<Rightarrow>
               TrieNode (AList.update q
                 (node_insert c subtree segs (child_or_default (map_of ex q))) ex) mw an er sr mn
           | WildcardModule m \<Rightarrow>
               TrieNode ex (AList.update m
                 (node_insert c subtree segs (child_or_default (map_of mw m))) mw) an er sr mn
           | WildcardAny \<Rightarrow>
               TrieNode ex mw (Some (node_insert c subtree segs (child_or_default an))) er sr mn))"

definition trie_insert :: "nat \<Rightarrow> nacm_rule \<Rightarrow> trie_node \<Rightarrow> trie_node" where
  "trie_insert index rule root =
     node_insert \<lparr>cr_index = index, cr_effect = r_effect rule, cr_action = r_action rule\<rparr>
       (yp_subtree (r_path rule)) (yp_segments (r_path rule)) root"

fun insert_all :: "nat \<Rightarrow> nacm_rule list \<Rightarrow> trie_node \<Rightarrow> trie_node" where
  "insert_all i [] root = root"
| "insert_all i (r # rs) root = insert_all (i + 1) rs (trie_insert i r root)"

definition trie_from_rules :: "nacm_rule list \<Rightarrow> trie_node" where
  "trie_from_rules rules = insert_all 0 rules node_default"

definition cannot_beat :: "trie_node \<Rightarrow> compiled_rule option \<Rightarrow> bool" where
  "cannot_beat node best =
     (case min_rule_index node of
        None \<Rightarrow> True
      | Some m \<Rightarrow> (case best of None \<Rightarrow> False | Some b \<Rightarrow> m \<ge> cr_index b))"

definition select_first_inserted ::
  "compiled_rule option \<Rightarrow> compiled_rule \<Rightarrow> compiled_rule option" where
  "select_first_inserted best candidate =
     (case best of
        Some current \<Rightarrow> if cr_index current \<le> cr_index candidate then best else Some candidate
      | None \<Rightarrow> Some candidate)"

definition best_is_first :: "compiled_rule option \<Rightarrow> bool" where
  "best_is_first best \<longleftrightarrow> (case best of None \<Rightarrow> False | Some b \<Rightarrow> cr_index b = 0)"

text \<open>One rule loop: the best match afterwards, and whether the function has returned.\<close>

fun scan_rules ::
  "nacm_action \<Rightarrow> compiled_rule list \<Rightarrow> compiled_rule option \<Rightarrow> compiled_rule option \<times> bool" where
  "scan_rules a [] best = (best, False)"
| "scan_rules a (r # rs) best =
     (if cr_action r = a
      then let best' = select_first_inserted best r in
           if best_is_first best' then (best', True) else scan_rules a rs best'
      else scan_rules a rs best)"

text \<open>
  \<open>collect\<close> follows the rest of the path; its state is the best match and the count of
  visited nodes.
\<close>

fun collect ::
  "nacm_action \<Rightarrow> yang_path \<Rightarrow> trie_node \<Rightarrow> compiled_rule option \<times> nat
     \<Rightarrow> compiled_rule option \<times> nat" where
  "collect a path node (best, visited) =
     (if cannot_beat node best then (best, visited + 1)
      else
        let (best1, done) = scan_rules a (subtree_rules node) best in
        if done then (best1, visited + 1)
        else (case path of
          [] \<Rightarrow> (fst (scan_rules a (exact_rules node) best1), visited + 1)
        | segment # rest \<Rightarrow>
            let s1 = (case map_of (exact_children node) segment of
                        None \<Rightarrow> (best1, visited + 1)
                      | Some child \<Rightarrow> collect a rest child (best1, visited + 1));
                s2 = (case map_of (module_wildcard_children node) (qn_module segment) of
                        None \<Rightarrow> s1 | Some child \<Rightarrow> collect a rest child s1)
            in (case any_child node of None \<Rightarrow> s2 | Some child \<Rightarrow> collect a rest child s2)))"

declare collect.simps [simp del]

definition trie_lookup :: "trie_node \<Rightarrow> yang_path \<Rightarrow> nacm_action \<Rightarrow> compiled_rule option" where
  "trie_lookup root path a = fst (collect a path root (None, 0))"

section \<open>What a lookup may return\<close>

text \<open>The compiled rules of a (sub)trie that apply to the rest of a path.\<close>

fun hits :: "nacm_action \<Rightarrow> yang_path \<Rightarrow> trie_node \<Rightarrow> compiled_rule set" where
  "hits a path node =
     {c \<in> set (subtree_rules node). cr_action c = a} \<union>
     (case path of
        [] \<Rightarrow> {c \<in> set (exact_rules node). cr_action c = a}
      | q # rest \<Rightarrow>
          (case map_of (exact_children node) q of None \<Rightarrow> {} | Some n \<Rightarrow> hits a rest n) \<union>
          (case map_of (module_wildcard_children node) (qn_module q) of
             None \<Rightarrow> {} | Some n \<Rightarrow> hits a rest n) \<union>
          (case any_child node of None \<Rightarrow> {} | Some n \<Rightarrow> hits a rest n))"

declare hits.simps [simp del]

lemmas hits_Nil = hits.simps [where path = "[]", simplified list.case]

lemmas hits_Cons = hits.simps [where path = "q # rest" for q rest, simplified list.case]

text \<open>
  The pruning invariant along a path: the recorded minimum is a lower bound of every index
  that can be reached below the node.
\<close>

definition min_bounds :: "trie_node \<Rightarrow> compiled_rule set \<Rightarrow> bool" where
  "min_bounds node S \<longleftrightarrow>
     (\<forall>c \<in> S. case min_rule_index node of None \<Rightarrow> False | Some m \<Rightarrow> m \<le> cr_index c)"

fun prune_ok :: "yang_path \<Rightarrow> trie_node \<Rightarrow> bool" where
  "prune_ok path node \<longleftrightarrow>
     (\<forall>a. min_bounds node (hits a path node)) \<and>
     (case path of
        [] \<Rightarrow> True
      | q # rest \<Rightarrow>
          pred_option (prune_ok rest) (map_of (exact_children node) q) \<and>
          pred_option (prune_ok rest) (map_of (module_wildcard_children node) (qn_module q)) \<and>
          pred_option (prune_ok rest) (any_child node))"

declare prune_ok.simps [simp del]

lemmas prune_ok_Nil = prune_ok.simps [where path = "[]", simplified list.case]

lemmas prune_ok_Cons = prune_ok.simps [where path = "q # rest" for q rest, simplified list.case]

text \<open>The best match so far is a first rule of the set seen so far.\<close>

definition is_first :: "compiled_rule option \<Rightarrow> compiled_rule set \<Rightarrow> bool" where
  "is_first best S \<longleftrightarrow>
     (case best of None \<Rightarrow> S = {} | Some b \<Rightarrow> b \<in> S \<and> (\<forall>c \<in> S. cr_index b \<le> cr_index c))"

lemma is_first_select:
  "is_first best S \<Longrightarrow> is_first (select_first_inserted best c) (insert c S)"
  by (auto simp: is_first_def select_first_inserted_def split: option.splits)

lemma is_first_dominated:
  "is_first best S \<Longrightarrow> best_is_first best \<Longrightarrow> is_first best (S \<union> T)"
  by (auto simp: is_first_def best_is_first_def split: option.splits)

lemma is_first_cannot_beat:
  "is_first best S \<Longrightarrow> cannot_beat node best \<Longrightarrow> min_bounds node T \<Longrightarrow> is_first best (S \<union> T)"
  by (force simp: is_first_def cannot_beat_def min_bounds_def split: option.splits)

lemma scan_rules_first:
  assumes "is_first best S" "scan_rules a rs best = (best', d)"
  shows "is_first best' (S \<union> {c \<in> set rs. cr_action c = a}) \<and> (d \<longrightarrow> best_is_first best')"
  using assms
proof (induction rs arbitrary: best S)
  case (Cons r rs)
  show ?case
  proof (cases "cr_action r = a")
    case True
    have first: "is_first (select_first_inserted best r) (insert r S)"
      using Cons.prems(1) by (rule is_first_select)
    have split: "S \<union> {c \<in> set (r # rs). cr_action c = a} =
        insert r S \<union> {c \<in> set rs. cr_action c = a}"
      using True by auto
    show ?thesis
    proof (cases "best_is_first (select_first_inserted best r)")
      case stop: True
      with Cons.prems(2) True is_first_dominated [OF first stop] split show ?thesis
        by (auto simp: Let_def)
    next
      case False
      with Cons.prems(2) True Cons.IH [OF first] split show ?thesis by (simp add: Let_def)
    qed
  next
    case False
    then have "{c \<in> set (r # rs). cr_action c = a} = {c \<in> set rs. cr_action c = a}" by auto
    with False Cons show ?thesis by simp
  qed
qed simp

text \<open>One optional child of the walk, and the three of them in a row.\<close>

lemma child_step:
  assumes "is_first (fst st) S" "pred_option P child"
    and "\<And>n st S. \<lbrakk>P n; is_first (fst st) S\<rbrakk> \<Longrightarrow> is_first (fst (f n st)) (S \<union> H n)"
  shows "is_first (fst (case child of None \<Rightarrow> st | Some n \<Rightarrow> f n st))
     (S \<union> (case child of None \<Rightarrow> {} | Some n \<Rightarrow> H n))"
  using assms by (cases child) auto

lemma collect_first:
  assumes "prune_ok path node" "is_first (fst st) S"
  shows "is_first (fst (collect a path node st)) (S \<union> hits a path node)"
  using assms
proof (induction path arbitrary: node st S)
  case Nil
  obtain best v where st: "st = (best, v)" by force
  obtain best1 d where scan: "scan_rules a (subtree_rules node) best = (best1, d)" by force
  obtain best2 d2 where scan2: "scan_rules a (exact_rules node) best1 = (best2, d2)" by force
  have one: "is_first best1 (S \<union> {c \<in> set (subtree_rules node). cr_action c = a})"
    "d \<longrightarrow> best_is_first best1"
    using scan_rules_first [OF _ scan] Nil.prems(2) st by auto
  from scan_rules_first [OF one(1) scan2] one is_first_dominated [OF one(1)]
    is_first_cannot_beat [of best S node "hits a [] node"] Nil.prems st scan scan2
  show ?case by (auto simp: collect.simps hits_Nil prune_ok_Nil Un_assoc)
next
  case (Cons q rest)
  obtain best v where st: "st = (best, v)" by force
  obtain best1 d where scan: "scan_rules a (subtree_rules node) best = (best1, d)" by force
  let ?T = "S \<union> {c \<in> set (subtree_rules node). cr_action c = a}"
  have one: "is_first best1 ?T" "d \<longrightarrow> best_is_first best1"
    using scan_rules_first [OF _ scan] Cons.prems(2) st by auto
  note step = child_step [where P = "prune_ok rest" and f = "collect a rest" and H = "hits a rest",
      OF _ _ Cons.IH]
  have "is_first (fst (best1, v + 1)) ?T" using one by simp
  from step [OF step [OF step [OF this]], of "map_of (exact_children node) q"
      "map_of (module_wildcard_children node) (qn_module q)" "any_child node"]
    one is_first_dominated [OF one(1)]
    is_first_cannot_beat [of best S node "hits a (q # rest) node"] Cons.prems st scan
  show ?case
    by (auto simp: collect.simps hits_Cons prune_ok_Cons Un_assoc Let_def simp del: case_prod_conv)
qed

section \<open>Insertion\<close>

text \<open>Matching of a pattern's segments by recursion, as the trie consumes them.\<close>

fun segs_match :: "bool \<Rightarrow> pattern_segment list \<Rightarrow> yang_path \<Rightarrow> bool" where
  "segs_match subtree [] path \<longleftrightarrow> subtree \<or> path = []"
| "segs_match subtree (s # segs) [] \<longleftrightarrow> False"
| "segs_match subtree (s # segs) (q # path) \<longleftrightarrow> segment_matches s q \<and> segs_match subtree segs path"

lemma pattern_matches_segs: "pattern_matches p path = segs_match (yp_subtree p) (yp_segments p) path"
proof -
  have "segs_match sub segs path =
     ((if sub then length segs \<le> length path else length segs = length path) \<and>
      list_all (\<lambda>(s, q). segment_matches s q) (zip segs path))" for sub segs
    by (induction sub segs path rule: segs_match.induct) auto
  then show ?thesis by (simp add: pattern_matches_def not_less)
qed

text \<open>What one inserted rule adds to the hits of a path.\<close>

definition added :: "compiled_rule \<Rightarrow> bool \<Rightarrow> pattern_segment list \<Rightarrow> nacm_action \<Rightarrow> yang_path
    \<Rightarrow> compiled_rule set" where
  "added c subtree segs a path = (if cr_action c = a \<and> segs_match subtree segs path then {c} else {})"

lemma record_reachable_rule_sel [simp]:
  "exact_children (record_reachable_rule i n) = exact_children n"
  "module_wildcard_children (record_reachable_rule i n) = module_wildcard_children n"
  "any_child (record_reachable_rule i n) = any_child n"
  "exact_rules (record_reachable_rule i n) = exact_rules n"
  "subtree_rules (record_reachable_rule i n) = subtree_rules n"
  "min_rule_index (record_reachable_rule i n) =
     Some (case min_rule_index n of None \<Rightarrow> i | Some m \<Rightarrow> min m i)"
  by (cases n; simp)+

lemma hits_default [simp]: "hits a path node_default = {}"
  by (subst hits.simps) (simp add: node_default_def split: list.split)

lemma prune_ok_default [simp]: "prune_ok path node_default"
  by (subst prune_ok.simps) (simp add: min_bounds_def, simp add: node_default_def split: list.split)

lemma hits_child_or_default [simp]:
  "hits a path (child_or_default c) = (case c of None \<Rightarrow> {} | Some n \<Rightarrow> hits a path n)"
  by (simp add: child_or_default_def split: option.split)

lemma prune_ok_child_or_default:
  "pred_option (prune_ok path) c \<Longrightarrow> prune_ok path (child_or_default c)"
  by (cases c) (simp_all add: child_or_default_def)

lemma min_rule_index_insert [simp]:
  "min_rule_index (node_insert c sub segs n) =
     Some (case min_rule_index n of None \<Rightarrow> cr_index c | Some m \<Rightarrow> min m (cr_index c))"
  by (cases segs; cases n) (auto split: pattern_segment.split)

lemma node_insert_hits:
  "hits a path (node_insert c sub segs n) = hits a path n \<union> added c sub segs a path"
proof (induction segs arbitrary: path n)
  case Nil
  show ?case
    by (cases n; cases path) (auto simp: hits_Nil hits_Cons added_def)
next
  case (Cons s segs)
  show ?case
  proof (cases path)
    case Nil
    then show ?thesis
      by (cases n) (auto simp: hits_Nil added_def split: pattern_segment.split)
  next
    case path: (Cons q rest)
    obtain ex mw an er sr mn where n: "n = TrieNode ex mw an er sr mn" by (cases n) auto
    show ?thesis
      by (cases s) (auto simp: path n hits_Cons added_def update_conv' Cons.IH split: option.splits)
  qed
qed

lemma prune_ok_bounds: "prune_ok path n \<Longrightarrow> min_bounds n (hits a path n)"
  by (simp add: prune_ok.simps)

lemma min_bounds_insert:
  assumes "prune_ok path n"
  shows "min_bounds (node_insert c sub segs n) (hits a path (node_insert c sub segs n))"
  using prune_ok_bounds [OF assms, of a]
  by (auto simp: node_insert_hits min_bounds_def added_def simp del: node_insert.simps
      split: option.splits)

lemma node_insert_prune_ok:
  "prune_ok path n \<Longrightarrow> prune_ok path (node_insert c sub segs n)"
proof (induction segs arbitrary: path n)
  case Nil
  show ?case
    using Nil min_bounds_insert [OF Nil, of c sub "[]"] by (cases n; cases path) (auto simp: prune_ok_Nil prune_ok_Cons)
next
  case (Cons s segs)
  note bound = min_bounds_insert [OF Cons.prems, of c sub "s # segs"]
  show ?case
  proof (cases path)
    case Nil
    with bound show ?thesis by (simp add: prune_ok_Nil del: node_insert.simps)
  next
    case path: (Cons q rest)
    obtain ex mw an er sr mn where n: "n = TrieNode ex mw an er sr mn" by (cases n) auto
    from Cons.prems have kids: "pred_option (prune_ok rest) (map_of ex q)"
      "pred_option (prune_ok rest) (map_of mw (qn_module q))" "pred_option (prune_ok rest) an"
      by (simp_all add: path n prune_ok_Cons)
    from kids have new: "prune_ok rest (node_insert c sub segs (child_or_default (map_of ex q)))"
      "prune_ok rest (node_insert c sub segs (child_or_default (map_of mw (qn_module q))))"
      "prune_ok rest (node_insert c sub segs (child_or_default an))"
      by (simp_all add: Cons.IH prune_ok_child_or_default)
    from bound show ?thesis
      unfolding path prune_ok_Cons
      using kids new by (cases s) (auto simp: n update_conv')
  qed
qed

section \<open>The first matching rule\<close>

definition rule_applies :: "nacm_rule \<Rightarrow> yang_path \<Rightarrow> nacm_action \<Rightarrow> bool" where
  "rule_applies r path a \<longleftrightarrow> r_action r = a \<and> pattern_matches (r_path r) path"

text \<open>The linear scan of a rule list in policy order, counting from \<open>i\<close>.\<close>

fun first_match ::
  "nat \<Rightarrow> nacm_rule list \<Rightarrow> yang_path \<Rightarrow> nacm_action \<Rightarrow> (nat \<times> nacm_effect) option" where
  "first_match i [] path a = None"
| "first_match i (r # rs) path a =
     (if rule_applies r path a then Some (i, r_effect r) else first_match (i + 1) rs path a)"

lemma first_match_None_iff:
  "first_match i rs path a = None \<longleftrightarrow> (\<forall>r \<in> set rs. \<not> rule_applies r path a)"
  by (induction rs arbitrary: i) auto

lemma first_match_Some:
  assumes "first_match i rs path a = Some (k, e)"
  shows "i \<le> k \<and> k < i + length rs \<and> rule_applies (rs ! (k - i)) path a \<and>
    r_effect (rs ! (k - i)) = e \<and> (\<forall>j < k - i. \<not> rule_applies (rs ! j) path a)"
  using assms
proof (induction rs arbitrary: i)
  case (Cons r rs)
  show ?case
  proof (cases "rule_applies r path a")
    case False
    with Cons.prems Cons.IH [of "Suc i"] have "Suc i \<le> k \<and> k < Suc i + length rs \<and> rule_applies (rs ! (k - Suc i)) path a \<and>
      r_effect (rs ! (k - Suc i)) = e \<and> (\<forall>j < k - Suc i. \<not> rule_applies (rs ! j) path a)"
      by simp
    moreover from this have "k - i = Suc (k - Suc i)" by arith
    ultimately show ?thesis using False by (auto simp: less_Suc_eq_0_disj)
  qed (use Cons.prems in auto)
qed simp

lemma first_match_append:
  "first_match i (rs @ rs') path a =
     (case first_match i rs path a of
        None \<Rightarrow> first_match (i + length rs) rs' path a | Some m \<Rightarrow> Some m)"
  by (induction rs arbitrary: i) (auto split: option.split)

definition compile_rule :: "nat \<Rightarrow> nacm_rule \<Rightarrow> compiled_rule" where
  "compile_rule i r = \<lparr>cr_index = i, cr_effect = r_effect r, cr_action = r_action r\<rparr>"

fun rule_hits :: "nat \<Rightarrow> nacm_rule list \<Rightarrow> nacm_action \<Rightarrow> yang_path \<Rightarrow> compiled_rule set" where
  "rule_hits i [] a path = {}"
| "rule_hits i (r # rs) a path =
     (if rule_applies r path a then {compile_rule i r} else {}) \<union> rule_hits (i + 1) rs a path"

lemma rule_hits_index: "c \<in> rule_hits i rs a path \<Longrightarrow> i \<le> cr_index c"
  by (induction rs arbitrary: i) (fastforce simp: compile_rule_def split: if_splits)+

lemma insert_all_hits: "hits a path (insert_all i rs n) = hits a path n \<union> rule_hits i rs a path"
  by (induction rs arbitrary: i n)
    (auto simp: trie_insert_def node_insert_hits added_def rule_applies_def compile_rule_def
      pattern_matches_segs)

lemma insert_all_prune_ok: "prune_ok path n \<Longrightarrow> prune_ok path (insert_all i rs n)"
  by (induction rs arbitrary: i n) (simp_all add: trie_insert_def node_insert_prune_ok)

lemma is_first_first_match:
  "is_first best (rule_hits i rs a path) \<Longrightarrow>
   map_option (\<lambda>c. (cr_index c, cr_effect c)) best = first_match i rs path a"
proof (induction rs arbitrary: i)
  case (Cons r rs)
  show ?case
  proof (cases "rule_applies r path a")
    case True
    with Cons.prems obtain b where b: "best = Some b" "b \<in> insert (compile_rule i r) (rule_hits (i + 1) rs a path)"
      "cr_index b \<le> cr_index (compile_rule i r)"
      by (auto simp: is_first_def split: option.splits)
    then have "b = compile_rule i r"
      using rule_hits_index [of b "i + 1" rs a path] by (auto simp: compile_rule_def)
    with b True show ?thesis by (simp add: compile_rule_def)
  qed (use Cons in simp)
qed (simp add: is_first_def split: option.splits)

lemma trie_lookup_first_match:
  "map_option (\<lambda>c. (cr_index c, cr_effect c)) (trie_lookup (trie_from_rules rs) path a) =
     first_match 0 rs path a"
proof (rule is_first_first_match)
  have "is_first (fst (None, 0 :: nat)) {}" by (simp add: is_first_def)
  from collect_first [OF insert_all_prune_ok [OF prune_ok_default] this, of a path 0 rs]
  show "is_first (trie_lookup (trie_from_rules rs) path a) (rule_hits 0 rs a path)"
    by (simp add: trie_lookup_def trie_from_rules_def insert_all_hits)
qed

section \<open>The contract of a rule index\<close>

text \<open>
  What a policy relies on: an index built from rules answers with the first rule that
  applies. The consequences below are proved once for any such index.
\<close>

locale rule_index =
  fixes build :: "nacm_rule list \<Rightarrow> 'i"
    and query :: "'i \<Rightarrow> yang_path \<Rightarrow> nacm_action \<Rightarrow> compiled_rule option"
  assumes query_build:
    "map_option (\<lambda>c. (cr_index c, cr_effect c)) (query (build rs) path a) = first_match 0 rs path a"
begin

lemma query_None_iff:
  "query (build rs) path a = None \<longleftrightarrow> (\<forall>r \<in> set rs. \<not> rule_applies r path a)"
  using query_build [of rs path a] first_match_None_iff [of 0 rs path a]
  by (cases "query (build rs) path a") auto

lemma query_Some:
  assumes "query (build rs) path a = Some c"
  shows "cr_index c < length rs \<and> rule_applies (rs ! cr_index c) path a \<and>
    r_effect (rs ! cr_index c) = cr_effect c \<and> (\<forall>j < cr_index c. \<not> rule_applies (rs ! j) path a)"
  using query_build [of rs path a] first_match_Some [of 0 rs path a "cr_index c" "cr_effect c"]
  by (simp add: assms)

lemma query_append_stable:
  assumes "query (build rs) path a = Some c"
  obtains c' where "query (build (rs @ rs')) path a = Some c'" "cr_index c' = cr_index c"
    "cr_effect c' = cr_effect c"
  using query_build [of rs path a] query_build [of "rs @ rs'" path a]
  by (cases "query (build (rs @ rs')) path a") (auto simp: assms first_match_append split: option.splits)

end

interpretation rule_trie: rule_index trie_from_rules trie_lookup
  by unfold_locales (rule trie_lookup_first_match)

text \<open>
  C6. The rule trie is a faithful index of the policy: for every rule list, path and action the
  pruned lookup returns exactly the index and effect of the first rule, in policy order, whose
  action is the requested one and whose pattern matches the path, and nothing when no rule does.
\<close>

theorem rule_trie_first_match:
  "map_option (\<lambda>c. (cr_index c, cr_effect c)) (trie_lookup (trie_from_rules rules) path act) =
     first_match 0 rules path act"
  by (rule rule_trie.query_build)

end
