(* ===== verification/Nacm_Policy.thy ===== *)
theory Nacm_Policy
  imports Nacm_Trie "HOL-Library.Word"
begin

text \<open>
  Policies and the caching evaluator of \<^verbatim>\<open>crates/opc-nacm/src/policy.rs\<close>: rule lists scoped
  to groups, the builder with its process-wide cache namespace counter, the two uncached
  evaluations, and the evaluator with its bounded cache and first-in-first-out eviction. The
  latency histogram, which only observes the clock, is left out; the three decision counters
  are part of the state.
\<close>

section \<open>Rule lists and groups\<close>

definition ALL_GROUPS :: string where
  "ALL_GROUPS = ''*''"

definition validate_nacm_label :: "string \<Rightarrow> string \<Rightarrow> (string, nacm_error) result" where
  "validate_nacm_label field v =
     (if v = [] then Err (nacm_error_new ''nacm rule-list'' (field @ '' must not be empty''))
      else if trim v \<noteq> v
      then Err (nacm_error_new ''nacm rule-list''
             (field @ '' must not contain leading or trailing whitespace''))
      else if list_ex is_control v
      then Err (nacm_error_new ''nacm rule-list'' (field @ '' must not contain control characters''))
      else Ok v)"

definition validate_group_name :: "string \<Rightarrow> (string, nacm_error) result" where
  "validate_group_name g =
     (if g = ALL_GROUPS then Ok g else validate_nacm_label ''group'' g)"

fun normalize_groups_loop :: "string list \<Rightarrow> string list \<Rightarrow> (string list, nacm_error) result" where
  "normalize_groups_loop [] acc = Ok acc"
| "normalize_groups_loop (g # gs) acc =
     and_then (validate_group_name g) (\<lambda>g'. normalize_groups_loop gs (set_insert g' acc))"

definition normalize_group_names :: "string list \<Rightarrow> (string list, nacm_error) result" where
  "normalize_group_names groups = normalize_groups_loop groups []"

definition normalized_principal_groups :: "string list \<Rightarrow> string list" where
  "normalized_principal_groups groups = fold set_insert groups []"

record nacm_rule_list =
  rl_name :: string
  rl_groups :: "string list"
  rl_rules :: "nacm_rule list"

definition rule_list_new ::
  "string \<Rightarrow> string list \<Rightarrow> nacm_rule list \<Rightarrow> (nacm_rule_list, nacm_error) result" where
  "rule_list_new name groups rules =
     and_then (validate_nacm_label ''rule-list name'' name) (\<lambda>name'.
     and_then (normalize_group_names groups) (\<lambda>groups'.
     if groups' = []
     then Err (nacm_error_new ''nacm rule-list'' ''rule-list must name at least one group'')
     else Ok \<lparr>rl_name = name', rl_groups = groups', rl_rules = rules\<rparr>))"

definition rule_list_all_users ::
  "string \<Rightarrow> nacm_rule list \<Rightarrow> (nacm_rule_list, nacm_error) result" where
  "rule_list_all_users name rules = rule_list_new name [ALL_GROUPS] rules"

definition matches_groups :: "nacm_rule_list \<Rightarrow> string list \<Rightarrow> bool" where
  "matches_groups rl principal_groups =
     list_ex (\<lambda>g. g = ALL_GROUPS \<or> list_ex (\<lambda>pg. pg = g) principal_groups)
       (rl_groups rl)"

section \<open>Policies\<close>

type_synonym policy_version = "64 word"

record authorization_decision =
  ad_effect :: nacm_effect
  matched_rule_index :: "nat option"
  cache_hit :: bool
  ad_policy_version :: policy_version

definition decision_new ::
  "nacm_effect \<Rightarrow> nat option \<Rightarrow> bool \<Rightarrow> policy_version \<Rightarrow> authorization_decision" where
  "decision_new e i hit v =
     \<lparr>ad_effect = e, matched_rule_index = i, cache_hit = hit, ad_policy_version = v\<rparr>"

definition decision_is_allowed :: "authorization_decision \<Rightarrow> bool" where
  "decision_is_allowed d = effect_is_allowed (ad_effect d)"

record nacm_policy =
  p_version :: policy_version
  cache_namespace :: "64 word"
  p_rules :: "nacm_rule list"
  p_rule_lists :: "nacm_rule_list list"
  p_trie :: trie_node

record nacm_policy_builder =
  b_version :: policy_version
  b_rules :: "nacm_rule list"
  b_rule_lists :: "nacm_rule_list list"

definition builder_new :: "policy_version \<Rightarrow> nacm_policy_builder" where
  "builder_new v = \<lparr>b_version = v, b_rules = [], b_rule_lists = []\<rparr>"

definition add_rule :: "nacm_policy_builder \<Rightarrow> nacm_rule \<Rightarrow> nacm_policy_builder" where
  "add_rule b r = b\<lparr>b_rules := b_rules b @ [r]\<rparr>"

definition add_rule_list :: "nacm_policy_builder \<Rightarrow> nacm_rule_list \<Rightarrow> nacm_policy_builder" where
  "add_rule_list b l = b\<lparr>b_rule_lists := b_rule_lists b @ [l]\<rparr>"

text \<open>The process-wide counter behind \<open>next_policy_cache_namespace\<close>: its start and one draw.\<close>

definition initial_namespace :: "64 word" where
  "initial_namespace = 1"

definition next_policy_cache_namespace :: "64 word \<Rightarrow> 64 word \<times> 64 word" where
  "next_policy_cache_namespace counter = (counter, counter + 1)"

definition policy_build :: "nacm_policy_builder \<Rightarrow> 64 word \<Rightarrow> nacm_policy \<times> 64 word" where
  "policy_build b counter =
     (let trie = trie_from_rules (b_rules b);
          (ns, counter') = next_policy_cache_namespace counter
      in (\<lparr>p_version = b_version b, cache_namespace = ns, p_rules = b_rules b,
           p_rule_lists = b_rule_lists b, p_trie = trie\<rparr>, counter'))"

definition policy_new ::
  "policy_version \<Rightarrow> nacm_rule list \<Rightarrow> 64 word \<Rightarrow> nacm_policy \<times> 64 word" where
  "policy_new v rules counter =
     policy_build \<lparr>b_version = v, b_rules = rules, b_rule_lists = []\<rparr> counter"

definition policy_empty :: "policy_version \<Rightarrow> 64 word \<Rightarrow> nacm_policy \<times> 64 word" where
  "policy_empty v counter = policy_new v [] counter"

definition policy_evaluate ::
  "nacm_policy \<Rightarrow> yang_path \<Rightarrow> nacm_action \<Rightarrow> authorization_decision" where
  "policy_evaluate p path a =
     (case trie_lookup (p_trie p) path a of
        Some rule \<Rightarrow> decision_new (cr_effect rule) (Some (cr_index rule)) False (p_version p)
      | None \<Rightarrow> decision_new Deny None False (p_version p))"

text \<open>The rules of one list: the match, or the index to go on with.\<close>

fun scan_list ::
  "bool \<Rightarrow> nat \<Rightarrow> nacm_rule list \<Rightarrow> yang_path \<Rightarrow> nacm_action \<Rightarrow> nat + nat \<times> nacm_effect" where
  "scan_list list_matches i [] path a = Inl i"
| "scan_list list_matches i (r # rs) path a =
     (if list_matches \<and> r_action r = a \<and> pattern_matches (r_path r) path
      then Inr (i, r_effect r) else scan_list list_matches (i + 1) rs path a)"

fun scan_lists ::
  "nat \<Rightarrow> nacm_rule_list list \<Rightarrow> yang_path \<Rightarrow> nacm_action \<Rightarrow> string list
     \<Rightarrow> (nat \<times> nacm_effect) option" where
  "scan_lists i [] path a groups = None"
| "scan_lists i (l # ls) path a groups =
     (case scan_list (matches_groups l groups) i (rl_rules l) path a of
        Inr m \<Rightarrow> Some m
      | Inl i' \<Rightarrow> scan_lists i' ls path a groups)"

definition first_matching_rule_for_groups ::
  "nacm_policy \<Rightarrow> yang_path \<Rightarrow> nacm_action \<Rightarrow> string list \<Rightarrow> (nat \<times> nacm_effect) option" where
  "first_matching_rule_for_groups p path a groups =
     (case scan_list True 0 (p_rules p) path a of
        Inr m \<Rightarrow> Some m
      | Inl i \<Rightarrow> scan_lists i (p_rule_lists p) path a groups)"

definition policy_evaluate_for_groups ::
  "nacm_policy \<Rightarrow> yang_path \<Rightarrow> nacm_action \<Rightarrow> string list \<Rightarrow> authorization_decision" where
  "policy_evaluate_for_groups p path a groups =
     (case first_matching_rule_for_groups p path a groups of
        Some (i, e) \<Rightarrow> decision_new e (Some i) False (p_version p)
      | None \<Rightarrow> decision_new Deny None False (p_version p))"

section \<open>The caching evaluator\<close>

record cached_decision =
  cd_effect :: nacm_effect
  cd_index :: "nat option"

record policy_cache_key =
  namespace_id :: "64 word"
  key_version :: policy_version

type_synonym decision_cache = "(nacm_action \<times> (yang_path \<times> cached_decision) list) list"

text \<open>The counters of \<open>METRICS\<close> that an evaluation advances.\<close>

record nacm_metrics =
  nacm_eval_allow :: "64 word"
  nacm_eval_deny :: "64 word"
  nacm_default_deny :: "64 word"

record nacm_evaluator =
  cached_policy :: "policy_cache_key option"
  cached_groups :: "string list option"
  cache_capacity :: nat
  cache_entries :: nat
  ev_cache :: decision_cache
  eviction_order :: "(nacm_action \<times> yang_path) list"

definition DEFAULT_CACHE_CAPACITY :: nat where
  "DEFAULT_CACHE_CAPACITY = 1024"

definition with_cache_capacity :: "nat \<Rightarrow> nacm_evaluator" where
  "with_cache_capacity capacity =
     \<lparr>cached_policy = None, cached_groups = None, cache_capacity = capacity, cache_entries = 0,
      ev_cache = [], eviction_order = []\<rparr>"

definition evaluator_new :: nacm_evaluator where
  "evaluator_new = with_cache_capacity DEFAULT_CACHE_CAPACITY"

definition cached_policy_version :: "nacm_evaluator \<Rightarrow> policy_version option" where
  "cached_policy_version ev = map_option key_version (cached_policy ev)"

definition clear_cache :: "nacm_evaluator \<Rightarrow> nacm_evaluator" where
  "clear_cache ev = ev\<lparr>ev_cache := [], eviction_order := [], cache_entries := 0\<rparr>"

definition cache_get :: "decision_cache \<Rightarrow> nacm_action \<Rightarrow> yang_path \<Rightarrow> cached_decision option" where
  "cache_get c a path = Option.bind (map_of c a) (\<lambda>entries. map_of entries path)"

text \<open>Removal of one entry from the map of its action, which goes when it is empty.\<close>

definition cache_remove ::
  "decision_cache \<Rightarrow> nacm_action \<Rightarrow> (yang_path \<times> cached_decision) list \<Rightarrow> yang_path
     \<Rightarrow> decision_cache" where
  "cache_remove c a entries path =
     (let entries' = AList.delete path entries in
      if entries' = [] then AList.delete a c else AList.update a entries' c)"

fun evict_loop ::
  "(nacm_action \<times> yang_path) list \<Rightarrow> nacm_evaluator \<Rightarrow> nacm_evaluator" where
  "evict_loop [] ev = ev\<lparr>eviction_order := []\<rparr>"
| "evict_loop ((a, path) # queue) ev =
     (case map_of (ev_cache ev) a of
        None \<Rightarrow> evict_loop queue ev
      | Some entries \<Rightarrow>
          ev\<lparr>eviction_order := queue,
             cache_entries :=
               (if map_of entries path \<noteq> None then cache_entries ev - 1 else cache_entries ev),
             ev_cache := cache_remove (ev_cache ev) a entries path\<rparr>)"

definition evict_oldest_entry :: "nacm_evaluator \<Rightarrow> nacm_evaluator" where
  "evict_oldest_entry ev = evict_loop (eviction_order ev) ev"

text \<open>The eviction loop of an insertion; \<open>None\<close> is a loop that does not end.\<close>

partial_function (option) evict_until :: "nacm_evaluator \<Rightarrow> nacm_evaluator option" where
  "evict_until ev =
     (if cache_entries ev \<ge> cache_capacity ev then evict_until (evict_oldest_entry ev) else Some ev)"

definition insert_cache_entry ::
  "nacm_evaluator \<Rightarrow> nacm_action \<Rightarrow> yang_path \<Rightarrow> cached_decision \<Rightarrow> nacm_evaluator option" where
  "insert_cache_entry ev a path d =
     (if cache_capacity ev = 0 then Some ev
      else Option.bind (evict_until ev) (\<lambda>ev1.
        let action_entries = (case map_of (ev_cache ev1) a of None \<Rightarrow> [] | Some m \<Rightarrow> m);
            inserted = (map_of action_entries path = None);
            ev2 = ev1\<lparr>ev_cache := AList.update a (AList.update path d action_entries) (ev_cache ev1)\<rparr>
        in Some (if inserted
             then ev2\<lparr>eviction_order := eviction_order ev2 @ [(a, path)],
                      cache_entries := cache_entries ev2 + 1\<rparr>
             else ev2)))"

definition policy_key :: "nacm_policy \<Rightarrow> policy_cache_key" where
  "policy_key p = \<lparr>namespace_id = cache_namespace p, key_version = p_version p\<rparr>"

text \<open>The common part of the two evaluations: answer from the cache, or compute and insert.\<close>

definition answer ::
  "nacm_evaluator \<Rightarrow> nacm_policy \<Rightarrow> yang_path \<Rightarrow> nacm_action \<Rightarrow> authorization_decision
     \<Rightarrow> (authorization_decision \<times> nacm_evaluator) option" where
  "answer ev p path a dec =
     (case cache_get (ev_cache ev) a path of
        Some c \<Rightarrow> Some (decision_new (cd_effect c) (cd_index c) True (p_version p), ev)
      | None \<Rightarrow>
          map_option (Pair dec)
            (insert_cache_entry ev a path
               \<lparr>cd_effect = ad_effect dec, cd_index = matched_rule_index dec\<rparr>))"

definition observe :: "authorization_decision \<Rightarrow> nacm_metrics \<Rightarrow> nacm_metrics" where
  "observe d m =
     (if decision_is_allowed d then m\<lparr>nacm_eval_allow := nacm_eval_allow m + 1\<rparr>
      else let m' = m\<lparr>nacm_eval_deny := nacm_eval_deny m + 1\<rparr> in
        if matched_rule_index d = None then m'\<lparr>nacm_default_deny := nacm_default_deny m' + 1\<rparr>
        else m')"

definition evaluator_evaluate ::
  "nacm_evaluator \<Rightarrow> nacm_metrics \<Rightarrow> nacm_policy \<Rightarrow> yang_path \<Rightarrow> nacm_action
     \<Rightarrow> (authorization_decision \<times> nacm_evaluator \<times> nacm_metrics) option" where
  "evaluator_evaluate ev m p path a =
     (let ev1 = (if cached_policy ev \<noteq> Some (policy_key p) \<or> cached_groups ev \<noteq> None
                 then (clear_cache ev)\<lparr>cached_policy := Some (policy_key p), cached_groups := None\<rparr>
                 else ev)
      in map_option (\<lambda>(d, ev2). (d, ev2, observe d m))
           (answer ev1 p path a (policy_evaluate p path a)))"

definition evaluator_evaluate_for_groups ::
  "nacm_evaluator \<Rightarrow> nacm_metrics \<Rightarrow> nacm_policy \<Rightarrow> yang_path \<Rightarrow> nacm_action \<Rightarrow> string list
     \<Rightarrow> (authorization_decision \<times> nacm_evaluator \<times> nacm_metrics) option" where
  "evaluator_evaluate_for_groups ev m p path a principal_groups =
     (let groups = normalized_principal_groups principal_groups;
          ev1 = (if cached_policy ev \<noteq> Some (policy_key p) \<or> cached_groups ev \<noteq> Some groups
                 then (clear_cache ev)
                   \<lparr>cached_policy := Some (policy_key p), cached_groups := Some groups\<rparr>
                 else ev)
      in map_option (\<lambda>(d, ev2). (d, ev2, observe d m))
           (answer ev1 p path a (policy_evaluate_for_groups p path a groups)))"

section \<open>Uncached decisions\<close>

text \<open>The decision a match, or none, stands for.\<close>

definition decision_of :: "policy_version \<Rightarrow> (nat \<times> nacm_effect) option \<Rightarrow> authorization_decision" where
  "decision_of v m =
     (case m of
        Some (i, e) \<Rightarrow> decision_new e (Some i) False v
      | None \<Rightarrow> decision_new Deny None False v)"

definition built :: "nacm_policy \<Rightarrow> bool" where
  "built p \<longleftrightarrow> p_trie p = trie_from_rules (p_rules p)"

lemma policy_build_built [simp]: "built (fst (policy_build b c))"
  by (simp add: policy_build_def next_policy_cache_namespace_def built_def)

lemma policy_evaluate_first_match:
  "built p \<Longrightarrow> policy_evaluate p path a = decision_of (p_version p) (first_match 0 (p_rules p) path a)"
  using rule_trie.query_build [of "p_rules p" path a, symmetric]
  by (simp add: policy_evaluate_def built_def decision_of_def split: option.split)

text \<open>
  The rules of a policy as one sequence, each with whether a principal of the given groups
  can see it; indices count every rule, seen or not.
\<close>

definition for_groups :: "nacm_rule_list \<Rightarrow> string list \<Rightarrow> bool" where
  "for_groups l gs \<longleftrightarrow> ''*'' \<in> set (rl_groups l) \<or> set (rl_groups l) \<inter> set gs \<noteq> {}"

definition visible_rules ::
  "nacm_rule list \<Rightarrow> nacm_rule_list list \<Rightarrow> string list \<Rightarrow> (bool \<times> nacm_rule) list" where
  "visible_rules rules ls groups =
     map (Pair True) rules @
     concat (map (\<lambda>l. map (Pair (for_groups l groups)) (rl_rules l)) ls)"

fun first_visible ::
  "nat \<Rightarrow> (bool \<times> nacm_rule) list \<Rightarrow> yang_path \<Rightarrow> nacm_action \<Rightarrow> (nat \<times> nacm_effect) option" where
  "first_visible i [] path a = None"
| "first_visible i ((seen, r) # rs) path a =
     (if seen \<and> rule_applies r path a then Some (i, r_effect r) else first_visible (i + 1) rs path a)"

lemma first_visible_scan_list:
  "first_visible i (map (Pair v) rs @ vs) path a =
     (case scan_list v i rs path a of Inr m \<Rightarrow> Some m | Inl i' \<Rightarrow> first_visible i' vs path a)"
  by (induction rs arbitrary: i) (auto simp: rule_applies_def)

lemma matches_groups_iff: "matches_groups l gs \<longleftrightarrow> for_groups l gs"
  by (auto simp: matches_groups_def for_groups_def ALL_GROUPS_def list_ex_iff)

lemma first_visible_scan_lists:
  "first_visible i (concat (map (\<lambda>l. map (Pair (for_groups l gs)) (rl_rules l)) ls)) path a =
     scan_lists i ls path a gs"
  by (induction ls arbitrary: i) (simp_all add: first_visible_scan_list matches_groups_iff split: sum.split)

lemma first_visible_all_seen: "first_visible i (map (Pair True) rs) path a = first_match i rs path a"
  by (induction rs arbitrary: i) auto

lemma first_matching_rule_visible:
  "first_matching_rule_for_groups p path a gs =
     first_visible 0 (visible_rules (p_rules p) (p_rule_lists p) gs) path a"
  by (simp add: first_matching_rule_for_groups_def visible_rules_def first_visible_scan_list
      first_visible_scan_lists cong: sum.case_cong)

lemma evaluate_for_groups_visible:
  "policy_evaluate_for_groups p path a gs =
     decision_of (p_version p) (first_visible 0 (visible_rules (p_rules p) (p_rule_lists p) gs) path a)"
  by (simp add: policy_evaluate_for_groups_def first_matching_rule_visible decision_of_def)

lemma first_visible_Some:
  assumes "first_visible i vs path a = Some (k, e)"
  shows "\<exists>r. i \<le> k \<and> k < i + length vs \<and> vs ! (k - i) = (True, r) \<and> rule_applies r path a \<and> r_effect r = e"
  using assms
proof (induction i vs path a rule: first_visible.induct)
  case (2 i seen r rs path a)
  show ?case
  proof (cases "seen \<and> rule_applies r path a")
    case False
    with 2 obtain r' where r': "Suc i \<le> k" "k < Suc i + length rs" "rs ! (k - Suc i) = (True, r')"
      "rule_applies r' path a" "r_effect r' = e" by auto
    then have "k - i = Suc (k - Suc i)" by arith
    with r' show ?thesis by auto
  qed (use 2 in auto)
qed simp

lemma first_visible_None_iff:
  "first_visible i vs path a = None \<longleftrightarrow> (\<forall>(seen, r) \<in> set vs. \<not> (seen \<and> rule_applies r path a))"
  by (induction i vs path a rule: first_visible.induct) auto

section \<open>Groups\<close>

lemma set_fold_set_insert [simp]: "set (fold set_insert xs ys) = set xs \<union> set ys"
  by (induction xs arbitrary: ys) auto

lemma sorted_fold_set_insert:
  "sorted_wrt (<) ys \<Longrightarrow> sorted_wrt (<) (fold set_insert xs ys)"
  by (induction xs arbitrary: ys) (simp_all add: sorted_set_insert)

lemma set_normalized_principal_groups [simp]: "set (normalized_principal_groups gs) = set gs"
  by (simp add: normalized_principal_groups_def)

lemma visible_rules_normalized [simp]:
  "visible_rules rs ls (normalized_principal_groups gs) = visible_rules rs ls gs"
  by (simp add: visible_rules_def for_groups_def)

lemma visible_rule_cases:
  "(True, r) \<in> set (visible_rules rules ls gs) \<longleftrightarrow>
     r \<in> set rules \<or> (\<exists>l\<in>set ls. r \<in> set (rl_rules l) \<and> for_groups l gs)"
  by (auto simp: visible_rules_def)

lemma normalized_principal_groups_eq_iff:
  "normalized_principal_groups gs = normalized_principal_groups gs' \<longleftrightarrow> set gs = set gs'"
proof
  assume "set gs = set gs'"
  then have "set (normalized_principal_groups gs) = set (normalized_principal_groups gs')" by simp
  moreover have "sorted_wrt (<) (normalized_principal_groups xs)" for xs
    by (simp add: normalized_principal_groups_def sorted_fold_set_insert)
  ultimately show "normalized_principal_groups gs = normalized_principal_groups gs'"
    by (intro sorted_distinct_set_unique) (simp_all add: strict_sorted_iff)
qed (metis set_normalized_principal_groups)

section \<open>The decision cache\<close>

text \<open>
  The contract of a bounded memo store: an insertion always returns, keeps the store
  well-formed and adds at most the inserted pair. A store that only holds values of a function
  then keeps doing so.
\<close>

locale memo_store =
  fixes store_ok :: "'s \<Rightarrow> bool"
    and lookup_in :: "'s \<Rightarrow> 'k \<Rightarrow> 'v option"
    and put_in :: "'s \<Rightarrow> 'k \<Rightarrow> 'v \<Rightarrow> 's option"
  assumes put_total: "store_ok s \<Longrightarrow> lookup_in s k = None \<Longrightarrow> \<exists>s'. put_in s k v = Some s' \<and> store_ok s'"
    and put_adds: "\<lbrakk>store_ok s; lookup_in s k = None; put_in s k v = Some s'; lookup_in s' j = Some w\<rbrakk>
      \<Longrightarrow> j = k \<and> w = v \<or> lookup_in s j = Some w"
begin

lemma memo_put:
  assumes "store_ok s" "lookup_in s k = None" "\<forall>j w. lookup_in s j = Some w \<longrightarrow> w = f j"
  shows "\<exists>s'. put_in s k (f k) = Some s' \<and> store_ok s' \<and>
    (\<forall>j w. lookup_in s' j = Some w \<longrightarrow> w = f j)"
  using put_total [OF assms(1,2), of "f k"] put_adds [OF assms(1,2), of "f k"] assms(3) by blast

end

text \<open>
  The evaluator's invariant: the eviction queue lists every cached entry once, the entry
  counter is its length, and both stay within the capacity.
\<close>

definition cache_wf :: "nacm_evaluator \<Rightarrow> bool" where
  "cache_wf ev \<longleftrightarrow>
     distinct (eviction_order ev) \<and>
     (\<forall>a path. (a, path) \<in> set (eviction_order ev) \<longleftrightarrow> cache_get (ev_cache ev) a path \<noteq> None) \<and>
     cache_entries ev = length (eviction_order ev) \<and>
     cache_entries ev \<le> cache_capacity ev"

lemma cache_get_remove:
  assumes "map_of c a = Some entries"
  shows "cache_get (cache_remove c a entries path) b q =
    (if b = a \<and> q = path then None else cache_get c b q)"
proof (cases "AList.delete path entries = []")
  case True
  have "map_of entries q = None" if "q \<noteq> path"
    using arg_cong [OF True, of "\<lambda>es. map_of es q"] that by (simp add: delete_conv')
  with True assms show ?thesis
    by (auto simp: cache_get_def cache_remove_def delete_conv')
next
  case False
  with assms show ?thesis
    by (auto simp: cache_get_def cache_remove_def update_conv' delete_conv')
qed

lemma cache_get_insert:
  "cache_get (AList.update a (AList.update path d
      (case map_of c a of None \<Rightarrow> [] | Some m \<Rightarrow> m)) c) b q =
    (if b = a \<and> q = path then Some d else cache_get c b q)"
  by (auto simp: cache_get_def update_conv' split: option.split)

lemma cache_get_Some_map_of:
  "cache_get c a path \<noteq> None \<Longrightarrow> \<exists>entries. map_of c a = Some entries \<and> map_of entries path \<noteq> None"
  by (auto simp: cache_get_def bind_eq_Some_conv)

lemma cache_get_Nil [simp]: "cache_get [] a path = None"
  by (simp add: cache_get_def)

text \<open>Evicting from a well-formed cache removes exactly the oldest entry.\<close>

lemma evict_oldest_wf:
  assumes "cache_wf ev" "eviction_order ev = (a, path) # queue"
  shows "cache_wf (evict_oldest_entry ev)"
    "eviction_order (evict_oldest_entry ev) = queue"
    "cache_capacity (evict_oldest_entry ev) = cache_capacity ev"
    "cached_policy (evict_oldest_entry ev) = cached_policy ev"
    "cached_groups (evict_oldest_entry ev) = cached_groups ev"
    "cache_get (ev_cache (evict_oldest_entry ev)) b q =
       (if b = a \<and> q = path then None else cache_get (ev_cache ev) b q)"
proof -
  from assms have "cache_get (ev_cache ev) a path \<noteq> None"
    unfolding cache_wf_def by (metis list.set_intros(1))
  then obtain entries where e: "map_of (ev_cache ev) a = Some entries" "map_of entries path \<noteq> None"
    using cache_get_Some_map_of by blast
  have ev: "evict_oldest_entry ev = ev\<lparr>eviction_order := queue, cache_entries := cache_entries ev - 1,
      ev_cache := cache_remove (ev_cache ev) a entries path\<rparr>"
    using assms(2) e by (simp add: evict_oldest_entry_def)
  show "cache_wf (evict_oldest_entry ev)"
    using assms unfolding ev by (auto simp: cache_wf_def cache_get_remove [OF e(1)])
  show "eviction_order (evict_oldest_entry ev) = queue"
    "cache_capacity (evict_oldest_entry ev) = cache_capacity ev"
    "cached_policy (evict_oldest_entry ev) = cached_policy ev"
    "cached_groups (evict_oldest_entry ev) = cached_groups ev"
    "cache_get (ev_cache (evict_oldest_entry ev)) b q =
       (if b = a \<and> q = path then None else cache_get (ev_cache ev) b q)"
    by (simp_all add: ev cache_get_remove [OF e(1)])
qed

text \<open>The loop before an insertion ends after at most one eviction.\<close>

lemma evict_until_wf:
  assumes "cache_wf ev" "cache_capacity ev > 0"
  obtains ev' where "evict_until ev = Some ev'" "cache_wf ev'" "cache_entries ev' < cache_capacity ev'"
    "cache_capacity ev' = cache_capacity ev" "cached_policy ev' = cached_policy ev"
    "cached_groups ev' = cached_groups ev"
    "\<And>a path. cache_get (ev_cache ev') a path \<in> {None, cache_get (ev_cache ev) a path}"
proof (cases "cache_entries ev \<ge> cache_capacity ev")
  case False
  with assms that [of ev] show ?thesis by (simp add: evict_until.simps)
next
  case True
  with assms have "length (eviction_order ev) > 0" unfolding cache_wf_def by linarith
  then obtain a path queue where order: "eviction_order ev = (a, path) # queue"
    by (cases "eviction_order ev") auto
  note wf = evict_oldest_wf [OF assms(1) order]
  have "cache_entries (evict_oldest_entry ev) = length queue" using wf(1,2) by (simp add: cache_wf_def)
  moreover have "length queue < cache_capacity ev" using assms(1) order by (simp add: cache_wf_def)
  ultimately have "evict_until ev = Some (evict_oldest_entry ev)"
    using True wf(3) by (subst evict_until.simps, subst evict_until.simps) simp
  with wf \<open>length queue < _\<close> \<open>cache_entries _ = _\<close> that [of "evict_oldest_entry ev"] show ?thesis
    by simp
qed

lemma insert_cache_entry_wf:
  assumes "cache_wf ev" "cache_get (ev_cache ev) a path = None"
  obtains ev' where "insert_cache_entry ev a path d = Some ev'" "cache_wf ev'"
    "cache_capacity ev' = cache_capacity ev" "cached_policy ev' = cached_policy ev"
    "cached_groups ev' = cached_groups ev"
    "\<And>b q w. cache_get (ev_cache ev') b q = Some w \<Longrightarrow>
       (b, q) = (a, path) \<and> w = d \<or> cache_get (ev_cache ev) b q = Some w"
proof (cases "cache_capacity ev = 0")
  case True
  with assms that [of ev] show ?thesis by (simp add: insert_cache_entry_def)
next
  case False
  then obtain ev1 where ev1: "evict_until ev = Some ev1" "cache_wf ev1"
    "cache_entries ev1 < cache_capacity ev1" "cache_capacity ev1 = cache_capacity ev"
    "cached_policy ev1 = cached_policy ev" "cached_groups ev1 = cached_groups ev"
    and sub: "\<And>a path. cache_get (ev_cache ev1) a path \<in> {None, cache_get (ev_cache ev) a path}"
    using evict_until_wf [OF assms(1)] by blast
  let ?entries = "case map_of (ev_cache ev1) a of None \<Rightarrow> [] | Some m \<Rightarrow> m"
  let ?ev = "ev1\<lparr>ev_cache := AList.update a (AList.update path d ?entries) (ev_cache ev1),
    eviction_order := eviction_order ev1 @ [(a, path)], cache_entries := cache_entries ev1 + 1\<rparr>"
  have none: "cache_get (ev_cache ev1) a path = None" using sub [of a path] assms(2) by auto
  then have fresh: "map_of ?entries path = None"
    by (auto simp: cache_get_def split: option.split)
  have ins: "insert_cache_entry ev a path d = Some ?ev"
    using False ev1(1) fresh by (simp add: insert_cache_entry_def Let_def)
  have wf: "cache_wf ?ev"
    using ev1(2,3) none by (auto simp: cache_wf_def cache_get_insert)
  have kept: "cache_get (ev_cache ev1) b q = Some w \<Longrightarrow> cache_get (ev_cache ev) b q = Some w" for b q w
    using sub [of b q] by auto
  show ?thesis
    by (rule that [OF ins wf])
      (use ev1 in \<open>auto simp: cache_get_insert dest: kept split: if_splits\<close>)
qed

abbreviation entry_of :: "nacm_evaluator \<Rightarrow> nacm_action \<times> yang_path \<Rightarrow> cached_decision option" where
  "entry_of ev \<equiv> \<lambda>(a, path). cache_get (ev_cache ev) a path"

abbreviation insert_entry ::
  "nacm_evaluator \<Rightarrow> nacm_action \<times> yang_path \<Rightarrow> cached_decision \<Rightarrow> nacm_evaluator option" where
  "insert_entry ev \<equiv> \<lambda>(a, path). insert_cache_entry ev a path"

interpretation memo: memo_store cache_wf entry_of insert_entry
proof
  fix ev k and d :: cached_decision
  assume "cache_wf ev" "entry_of ev k = None"
  then show "\<exists>ev'. insert_entry ev k d = Some ev' \<and> cache_wf ev'"
    by (cases k) (auto elim: insert_cache_entry_wf)
next
  fix ev ev' k j and d w :: cached_decision
  assume "cache_wf ev" "entry_of ev k = None" "insert_entry ev k d = Some ev'" "entry_of ev' j = Some w"
  then show "j = k \<and> w = d \<or> entry_of ev j = Some w"
    by (cases k; cases j) (fastforce elim: insert_cache_entry_wf [of ev "fst k" "snd k" d])
qed

lemma insert_cache_entry_frame:
  assumes "cache_wf ev" "cache_get (ev_cache ev) a path = None" "insert_cache_entry ev a path d = Some ev'"
  shows "cached_policy ev' = cached_policy ev \<and> cached_groups ev' = cached_groups ev \<and>
    cache_capacity ev' = cache_capacity ev"
  using assms by (auto elim: insert_cache_entry_wf [where d = d])

section \<open>The evaluator answers like the policy\<close>

definition cached_of :: "authorization_decision \<Rightarrow> cached_decision" where
  "cached_of d = \<lparr>cd_effect = ad_effect d, cd_index = matched_rule_index d\<rparr>"

text \<open>The uncached decision behind the entries of a cache with the given groups.\<close>

definition uncached ::
  "nacm_policy \<Rightarrow> string list option \<Rightarrow> yang_path \<Rightarrow> nacm_action \<Rightarrow> authorization_decision" where
  "uncached p gs path a =
     (case gs of
        None \<Rightarrow> policy_evaluate p path a
      | Some g \<Rightarrow> policy_evaluate_for_groups p path a g)"

definition holds_decisions :: "nacm_evaluator \<Rightarrow> nacm_policy \<Rightarrow> string list option \<Rightarrow> bool" where
  "holds_decisions ev p gs \<longleftrightarrow>
     (\<forall>a path c. cache_get (ev_cache ev) a path = Some c \<longrightarrow> c = cached_of (uncached p gs path a))"

lemma uncached_shape:
  "\<exists>e i. uncached p gs path a = decision_new e i False (p_version p)"
  by (auto simp: uncached_def policy_evaluate_def policy_evaluate_for_groups_def split: option.split)

lemma answer_uncached:
  assumes "cache_wf ev" "holds_decisions ev p gs"
  obtains ev' hit where
    "answer ev p path a (uncached p gs path a) = Some ((uncached p gs path a)\<lparr>cache_hit := hit\<rparr>, ev')"
    "cache_wf ev'" "holds_decisions ev' p gs"
    "cached_policy ev' = cached_policy ev" "cached_groups ev' = cached_groups ev"
    "cache_capacity ev' = cache_capacity ev"
proof -
  obtain e i where d: "uncached p gs path a = decision_new e i False (p_version p)"
    using uncached_shape by blast
  show ?thesis
  proof (cases "cache_get (ev_cache ev) a path")
    case (Some c)
    with assms(2) have "c = cached_of (uncached p gs path a)" by (auto simp: holds_decisions_def)
    then show ?thesis
      using that [of True ev] assms Some by (simp add: answer_def d cached_of_def decision_new_def)
  next
    case None
    define f where "f = (\<lambda>(a, path). cached_of (uncached p gs path a))"
    from assms(2) have fj: "\<forall>j w. entry_of ev j = Some w \<longrightarrow> w = f j"
      by (auto simp: holds_decisions_def f_def)
    have none: "entry_of ev (a, path) = None" using None by simp
    obtain ev' where ev': "insert_cache_entry ev a path (f (a, path)) = Some ev'" and wf: "cache_wf ev'"
      and f: "\<forall>j w. entry_of ev' j = Some w \<longrightarrow> w = f j"
      using memo.memo_put [OF assms(1) none fj] by auto
    have "holds_decisions ev' p gs"
      unfolding holds_decisions_def using f by (simp add: f_def)
    moreover have "answer ev p path a (uncached p gs path a) = Some (uncached p gs path a, ev')"
      using None ev' by (simp add: answer_def f_def cached_of_def)
    ultimately show ?thesis
      using that [of False ev'] wf insert_cache_entry_frame [OF assms(1) None ev']
      by (simp add: d decision_new_def)
  qed
qed

text \<open>The state the two evaluations answer from, for flat (\<open>None\<close>) and group-scoped requests.\<close>

definition prepared :: "nacm_evaluator \<Rightarrow> nacm_policy \<Rightarrow> string list option \<Rightarrow> nacm_evaluator" where
  "prepared ev p gs =
     (if cached_policy ev \<noteq> Some (policy_key p) \<or> cached_groups ev \<noteq> gs
      then (clear_cache ev)\<lparr>cached_policy := Some (policy_key p), cached_groups := gs\<rparr> else ev)"

definition respond ::
  "nacm_evaluator \<Rightarrow> nacm_metrics \<Rightarrow> nacm_policy \<Rightarrow> string list option \<Rightarrow> yang_path \<Rightarrow> nacm_action
     \<Rightarrow> (authorization_decision \<times> nacm_evaluator \<times> nacm_metrics) option" where
  "respond ev m p gs path a =
     map_option (\<lambda>(d, ev'). (d, ev', observe d m))
       (answer (prepared ev p gs) p path a (uncached p gs path a))"

lemma evaluator_evaluate_respond:
  "evaluator_evaluate ev m p path a = respond ev m p None path a"
  by (simp add: evaluator_evaluate_def respond_def prepared_def uncached_def Let_def)

lemma evaluator_evaluate_for_groups_respond:
  "evaluator_evaluate_for_groups ev m p path a gs =
     respond ev m p (Some (normalized_principal_groups gs)) path a"
  by (simp add: evaluator_evaluate_for_groups_def respond_def prepared_def uncached_def Let_def)

lemmas evaluator_respond = evaluator_evaluate_respond evaluator_evaluate_for_groups_respond

lemma cache_wf_new [simp]: "cache_wf (with_cache_capacity n)"
  by (simp add: cache_wf_def with_cache_capacity_def)

lemma prepared_key [simp]:
  "cached_policy (prepared ev p gs) = Some (policy_key p)"
  "cached_groups (prepared ev p gs) = gs"
  "cache_capacity (prepared ev p gs) = cache_capacity ev"
  by (auto simp: prepared_def clear_cache_def)

lemma prepared_wf: "cache_wf ev \<Longrightarrow> cache_wf (prepared ev p gs)"
  by (simp add: prepared_def clear_cache_def cache_wf_def)

lemma prepared_holds:
  assumes "\<lbrakk>cached_policy ev = Some (policy_key p); cached_groups ev = gs\<rbrakk> \<Longrightarrow> holds_decisions ev p gs"
  shows "holds_decisions (prepared ev p gs) p gs"
  using assms by (auto simp: prepared_def holds_decisions_def clear_cache_def)

lemma answer_total:
  assumes "cache_wf ev"
  shows "\<exists>d' ev'. answer ev p path a d = Some (d', ev') \<and> cache_wf ev' \<and>
    cache_capacity ev' = cache_capacity ev"
proof (cases "cache_get (ev_cache ev) a path")
  case None
  then obtain ev' where "insert_cache_entry ev a path (cached_of d) = Some ev'" "cache_wf ev'"
    using memo.put_total [OF assms, of "(a, path)" "cached_of d"] by auto
  with None insert_cache_entry_frame [OF assms None] show ?thesis
    by (auto simp: answer_def cached_of_def)
qed (use assms in \<open>simp add: answer_def\<close>)

lemma respond_total:
  assumes "cache_wf ev"
  shows "\<exists>d ev' m'. respond ev m p gs path a = Some (d, ev', m') \<and> cache_wf ev' \<and>
    cache_capacity ev' = cache_capacity ev"
proof -
  obtain d' ev' where "answer (prepared ev p gs) p path a (uncached p gs path a) = Some (d', ev')"
    "cache_wf ev'" "cache_capacity ev' = cache_capacity ev"
    using answer_total [OF prepared_wf [OF assms], of p gs p path a "uncached p gs path a"] by auto
  then show ?thesis by (simp add: respond_def)
qed

lemma respond_uncached:
  assumes "cache_wf ev"
    and "\<lbrakk>cached_policy ev = Some (policy_key p); cached_groups ev = gs\<rbrakk> \<Longrightarrow> holds_decisions ev p gs"
  shows "\<exists>hit ev' m'.
    respond ev m p gs path a = Some ((uncached p gs path a)\<lparr>cache_hit := hit\<rparr>, ev', m') \<and>
    cache_wf ev' \<and> holds_decisions ev' p gs \<and> cached_policy ev' = Some (policy_key p) \<and>
    cached_groups ev' = gs"
proof -
  obtain ev' hit where
    "answer (prepared ev p gs) p path a (uncached p gs path a) =
       Some ((uncached p gs path a)\<lparr>cache_hit := hit\<rparr>, ev')"
    "cache_wf ev'" "holds_decisions ev' p gs"
    "cached_policy ev' = cached_policy (prepared ev p gs)" "cached_groups ev' = cached_groups (prepared ev p gs)"
    by (rule answer_uncached [OF prepared_wf [OF assms(1)] prepared_holds [OF assms(2)]])
  then show ?thesis by (auto simp: respond_def)
qed

section \<open>Sequences of requests\<close>

text \<open>
  A process that builds policies and asks one evaluator about them, in any order. Policies
  are named by the order in which they were built; a name that is not there asks nothing.
\<close>

datatype nacm_request =
    BuildPolicy nacm_policy_builder
  | Ask nat yang_path nacm_action
  | AskForGroups nat yang_path nacm_action "string list"

record nacm_process =
  np_counter :: "64 word"
  np_policies :: "nacm_policy list"
  np_evaluator :: nacm_evaluator
  np_metrics :: nacm_metrics

definition process_start :: "nat \<Rightarrow> nacm_process" where
  "process_start capacity =
     \<lparr>np_counter = initial_namespace, np_policies = [], np_evaluator = with_cache_capacity capacity,
      np_metrics = \<lparr>nacm_eval_allow = 0, nacm_eval_deny = 0, nacm_default_deny = 0\<rparr>\<rparr>"

definition record_answer ::
  "nacm_process \<Rightarrow> authorization_decision \<times> nacm_evaluator \<times> nacm_metrics
     \<Rightarrow> authorization_decision option \<times> nacm_process" where
  "record_answer s = (\<lambda>(d, ev, m). (Some d, s\<lparr>np_evaluator := ev, np_metrics := m\<rparr>))"

fun process_step ::
  "nacm_request \<Rightarrow> nacm_process \<Rightarrow> (authorization_decision option \<times> nacm_process) option" where
  "process_step (BuildPolicy b) s =
     (let (p, c) = policy_build b (np_counter s)
      in Some (None, s\<lparr>np_counter := c, np_policies := np_policies s @ [p]\<rparr>))"
| "process_step (Ask i path a) s =
     (if i < length (np_policies s)
      then map_option (record_answer s)
             (evaluator_evaluate (np_evaluator s) (np_metrics s) (np_policies s ! i) path a)
      else Some (None, s))"
| "process_step (AskForGroups i path a gs) s =
     (if i < length (np_policies s)
      then map_option (record_answer s)
             (evaluator_evaluate_for_groups (np_evaluator s) (np_metrics s) (np_policies s ! i) path a gs)
      else Some (None, s))"

fun process_run ::
  "nacm_request list \<Rightarrow> nacm_process \<Rightarrow> (authorization_decision option list \<times> nacm_process) option" where
  "process_run [] s = Some ([], s)"
| "process_run (r # rs) s =
     Option.bind (process_step r s) (\<lambda>(d, s').
       map_option (\<lambda>(ds, s''). (d # ds, s'')) (process_run rs s'))"

text \<open>
  The specification knows the builders only: an answer is the first applicable rule of the
  named policy, seen by the groups, and denial when there is none.
\<close>

definition spec_decision ::
  "nacm_policy_builder list \<Rightarrow> nat \<Rightarrow> (nacm_policy_builder \<Rightarrow> (nat \<times> nacm_effect) option)
     \<Rightarrow> authorization_decision option" where
  "spec_decision bs i m =
     (if i < length bs then Some (decision_of (b_version (bs ! i)) (m (bs ! i))) else None)"

fun spec_step ::
  "nacm_request \<Rightarrow> nacm_policy_builder list
     \<Rightarrow> authorization_decision option \<times> nacm_policy_builder list" where
  "spec_step (BuildPolicy b) bs = (None, bs @ [b])"
| "spec_step (Ask i path a) bs =
     (spec_decision bs i (\<lambda>b. first_match 0 (b_rules b) path a), bs)"
| "spec_step (AskForGroups i path a gs) bs =
     (spec_decision bs i (\<lambda>b. first_visible 0 (visible_rules (b_rules b) (b_rule_lists b) gs) path a), bs)"

fun spec_run ::
  "nacm_request list \<Rightarrow> nacm_policy_builder list \<Rightarrow> authorization_decision option list" where
  "spec_run [] bs = []"
| "spec_run (r # rs) bs = (let (d, bs') = spec_step r bs in d # spec_run rs bs')"

section \<open>The process refines the specification\<close>

definition builds :: "nacm_policy_builder \<Rightarrow> nat \<Rightarrow> nacm_policy \<Rightarrow> bool" where
  "builds b i p \<longleftrightarrow> p = fst (policy_build b (of_nat (Suc i)))"

definition refines :: "nacm_process \<Rightarrow> nacm_policy_builder list \<Rightarrow> bool" where
  "refines s bs \<longleftrightarrow>
     length (np_policies s) = length bs \<and>
     (\<forall>i < length bs. builds (bs ! i) i (np_policies s ! i)) \<and>
     np_counter s = of_nat (Suc (length bs)) \<and>
     cache_wf (np_evaluator s) \<and>
     (\<forall>key. cached_policy (np_evaluator s) = Some key \<longrightarrow>
        (\<exists>p \<in> set (np_policies s). key = policy_key p \<and>
           holds_decisions (np_evaluator s) p (cached_groups (np_evaluator s))))"

lemma builds_sel:
  assumes "builds b i p"
  shows "p_version p = b_version b" "p_rules p = b_rules b" "p_rule_lists p = b_rule_lists b"
    "cache_namespace p = of_nat (Suc i)" "built p"
  using assms
  by (auto simp: builds_def policy_build_def next_policy_cache_namespace_def built_def)

lemma refines_start: "refines (process_start n) []"
  by (simp add: refines_def process_start_def initial_namespace_def with_cache_capacity_def
      cache_wf_def)

lemma refines_build:
  assumes "refines s bs"
  shows "\<exists>s'. process_step (BuildPolicy b) s = Some (None, s') \<and> refines s' (bs @ [b])"
  using assms
  by (force simp: refines_def builds_def policy_build_def next_policy_cache_namespace_def Let_def
      nth_append less_Suc_eq)

text \<open>Below the wrap-around of the namespace counter, equal cache keys name one policy.\<close>

lemma refines_key_unique:
  assumes "refines s bs" "length bs < 2 ^ 64" "p \<in> set (np_policies s)" "q \<in> set (np_policies s)"
    and "policy_key p = policy_key q"
  shows "p = q"
proof -
  have nth: "length (np_policies s) = length bs"
    "\<And>k. k < length bs \<Longrightarrow> cache_namespace (np_policies s ! k) = of_nat (Suc k)"
    using assms(1) builds_sel(4) unfolding refines_def by blast+
  from assms(3,4) nth obtain i j where ij: "i < length bs" "j < length bs" "p = np_policies s ! i"
    "q = np_policies s ! j" by (metis in_set_conv_nth)
  with assms(5) nth(2) have eq: "(of_nat (Suc i) :: 64 word) = of_nat (Suc j)"
    by (simp add: policy_key_def del: of_nat_Suc)
  have "Suc i < 2 ^ LENGTH(64)" "Suc j < 2 ^ LENGTH(64)" using ij(1,2) assms(2) by auto
  with of_nat_inverse [OF eq] of_nat_inverse [OF refl, of "Suc j", where 'a = 64] have "i = j" by simp
  with ij show ?thesis by simp
qed

text \<open>One answer, flat or group-scoped, against the policy of the given name.\<close>

lemma refines_respond:
  assumes "refines s bs" "length bs < 2 ^ 64" "i < length bs"
  shows "\<exists>hit s'. map_option (record_answer s)
      (respond (np_evaluator s) (np_metrics s) (np_policies s ! i) gs path a) =
    Some (Some ((uncached (np_policies s ! i) gs path a)\<lparr>cache_hit := hit\<rparr>), s') \<and> refines s' bs"
proof -
  let ?p = "np_policies s ! i"
  have mem: "?p \<in> set (np_policies s)" using assms(1,3) by (simp add: refines_def)
  have "holds_decisions (np_evaluator s) ?p gs"
    if "cached_policy (np_evaluator s) = Some (policy_key ?p)" "cached_groups (np_evaluator s) = gs"
    using assms(1) that refines_key_unique [OF assms(1,2) mem] unfolding refines_def by metis
  from respond_uncached [OF _ this] assms(1)
  obtain hit ev m where "respond (np_evaluator s) (np_metrics s) ?p gs path a =
      Some ((uncached ?p gs path a)\<lparr>cache_hit := hit\<rparr>, ev, m)"
    "cache_wf ev" "holds_decisions ev ?p gs" "cached_policy ev = Some (policy_key ?p)"
    "cached_groups ev = gs" unfolding refines_def by metis
  with assms(1) mem show ?thesis
    by (auto simp: record_answer_def refines_def)
qed

lemma uncached_spec:
  assumes "refines s bs" "i < length bs"
  shows "uncached (np_policies s ! i) None path a =
      decision_of (b_version (bs ! i)) (first_match 0 (b_rules (bs ! i)) path a)"
    "uncached (np_policies s ! i) (Some (normalized_principal_groups gs)) path a =
      decision_of (b_version (bs ! i))
        (first_visible 0 (visible_rules (b_rules (bs ! i)) (b_rule_lists (bs ! i)) gs) path a)"
  using builds_sel [of "bs ! i" i "np_policies s ! i"] assms
  by (simp_all add: refines_def uncached_def policy_evaluate_first_match evaluate_for_groups_visible)

definition forget_hit :: "authorization_decision \<Rightarrow> authorization_decision" where
  "forget_hit d = d\<lparr>cache_hit := False\<rparr>"

lemma forget_hit_decision_of [simp]: "forget_hit (decision_of v m\<lparr>cache_hit := h\<rparr>) = decision_of v m"
  by (auto simp: forget_hit_def decision_of_def decision_new_def split: option.split)

lemma process_step_refines:
  assumes "refines s bs" "length bs < 2 ^ 64" "spec_step r bs = (sd, bs')"
  shows "\<exists>d s'. process_step r s = Some (d, s') \<and> map_option forget_hit d = sd \<and> refines s' bs'"
proof (cases r)
  case (BuildPolicy b)
  with assms(3) refines_build [OF assms(1), of b] show ?thesis by auto
next
  case (Ask i path a)
  have len: "length (np_policies s) = length bs" using assms(1) by (simp add: refines_def)
  with Ask assms refines_respond [OF assms(1,2), of i None path a] uncached_spec [OF assms(1), of i]
  show ?thesis by (auto simp: spec_decision_def evaluator_respond simp del: map_option_eq_Some)
next
  case (AskForGroups i path a gs)
  have len: "length (np_policies s) = length bs" using assms(1) by (simp add: refines_def)
  with AskForGroups assms refines_respond [OF assms(1,2), of i "Some (normalized_principal_groups gs)" path a]
    uncached_spec [OF assms(1), of i]
  show ?thesis by (auto simp: spec_decision_def evaluator_respond simp del: map_option_eq_Some)
qed

lemma spec_step_length: "spec_step r bs = (d, bs') \<Longrightarrow> length bs' \<le> Suc (length bs)"
  by (cases r) auto

lemma process_run_refines:
  assumes "refines s bs" "length bs + length rs \<le> 2 ^ 64"
  shows "\<exists>ds s'. process_run rs s = Some (ds, s') \<and> map (map_option forget_hit) ds = spec_run rs bs \<and>
    cache_wf (np_evaluator s')"
  using assms
proof (induction rs arbitrary: s bs)
  case (Cons r rs)
  obtain sd bs' where spec: "spec_step r bs = (sd, bs')" by force
  have "length bs < 2 ^ 64" using Cons.prems(2) by simp
  with process_step_refines [OF Cons.prems(1) _ spec]
  obtain d s' where step: "process_step r s = Some (d, s')" "map_option forget_hit d = sd" "refines s' bs'"
    by blast
  have "length bs' + length rs \<le> 2 ^ 64" using spec_step_length [OF spec] Cons.prems(2) by simp
  from Cons.IH [OF step(3) this] step(1,2) spec show ?case by auto
qed (simp add: refines_def)

section \<open>Labels of rule lists\<close>

definition label_ok :: "string \<Rightarrow> bool" where
  "label_ok s \<longleftrightarrow> s \<noteq> [] \<and> \<not> is_whitespace (hd s) \<and> \<not> is_whitespace (last s) \<and> (\<forall>c \<in> set s. \<not> is_control c)"

lemma trim_eq_self:
  assumes "s \<noteq> []"
  shows "trim s = s \<longleftrightarrow> \<not> is_whitespace (hd s) \<and> \<not> is_whitespace (last s)"
proof (cases "is_whitespace (hd s)")
  case True
  have "length (trim s) \<le> length (dropWhile is_whitespace s)"
    unfolding trim_def by (metis length_dropWhile_le length_rev)
  moreover from True assms have "length (dropWhile is_whitespace s) < length s"
    by (cases s) (simp_all add: length_dropWhile_le le_imp_less_Suc)
  ultimately have "length (trim s) < length s" by simp
  then have "trim s \<noteq> s" by force
  with True show ?thesis by simp
next
  case False
  then have "trim s = rev (dropWhile is_whitespace (rev s))"
    using assms by (simp add: trim_def dropWhile_eq_self_iff [THEN iffD2])
  moreover have "rev (dropWhile is_whitespace (rev s)) = s \<longleftrightarrow> dropWhile is_whitespace (rev s) = rev s"
    by (metis rev_rev_ident)
  ultimately show ?thesis using False assms by (simp add: dropWhile_eq_self_iff hd_rev)
qed

lemma validate_nacm_label_Ok_iff:
  "validate_nacm_label field v = Ok v' \<longleftrightarrow> label_ok v \<and> v' = v"
  by (auto simp: validate_nacm_label_def label_ok_def trim_eq_self list_ex_iff)

lemma validate_nacm_label_not_Panic [simp]: "validate_nacm_label field v \<noteq> Panic"
  by (simp add: validate_nacm_label_def)

definition group_ok :: "string \<Rightarrow> bool" where
  "group_ok g \<longleftrightarrow> g = ALL_GROUPS \<or> label_ok g"

lemma validate_group_name_Ok_iff: "validate_group_name g = Ok g' \<longleftrightarrow> group_ok g \<and> g' = g"
  by (auto simp: validate_group_name_def group_ok_def validate_nacm_label_Ok_iff)

lemma validate_group_name_not_Panic [simp]: "validate_group_name g \<noteq> Panic"
  by (simp add: validate_group_name_def)

lemma normalize_groups_loop_Ok_iff:
  "normalize_groups_loop gs acc = Ok ns \<longleftrightarrow> (\<forall>g \<in> set gs. group_ok g) \<and> ns = fold set_insert gs acc"
proof (induction gs arbitrary: acc)
  case (Cons g gs)
  then show ?case by (auto simp: outcome_simps validate_group_name_Ok_iff)
qed auto

lemma normalize_groups_loop_not_Panic [simp]: "normalize_groups_loop gs acc \<noteq> Panic"
proof (induction gs arbitrary: acc)
  case (Cons g gs)
  then show ?case using validate_group_name_not_Panic [of g] by (cases "validate_group_name g") auto
qed simp

lemma normalize_group_names_Ok_iff:
  "normalize_group_names gs = Ok ns \<longleftrightarrow> (\<forall>g \<in> set gs. group_ok g) \<and> ns = sorted_list_of_set (set gs)"
proof -
  have "fold set_insert gs [] = sorted_list_of_set (set gs)"
    by (intro sorted_distinct_set_unique)
      (use sorted_fold_set_insert [of "[]" gs] in \<open>simp_all add: strict_sorted_iff\<close>)
  then show ?thesis by (simp add: normalize_group_names_def normalize_groups_loop_Ok_iff)
qed

lemma normalize_group_names_not_Panic [simp]: "normalize_group_names gs \<noteq> Panic"
  by (simp add: normalize_group_names_def)

lemma first_visible_least:
  assumes "first_visible i vs path a = Some (k, e)" "i + j < k" "vs ! j = (True, q)"
  shows "\<not> rule_applies q path a"
  using assms
proof (induction i vs path a arbitrary: j rule: first_visible.induct)
  case (2 i seen r rs path a)
  then show ?case by (cases j) (auto split: if_splits)
qed simp

section \<open>Properties\<close>

text \<open>
  C3. For every sequence of fewer than \<open>2 ^ 64\<close> policy builds, flat requests and group-scoped
  requests, in any order and for every cache capacity, the process always answers (the eviction
  loop of the cache ends) and its answers, up to the cache-hit flag, are those of a
  specification that knows no trie, no cache and no eviction: the first applicable rule among
  those the groups can see, and denial without one. A stale entry of another policy or of other
  groups is never returned, and the cache never outgrows its capacity.
\<close>

theorem nacm_process_refines:
  assumes "length requests \<le> 2 ^ 64"
  shows "\<exists>answers s. process_run requests (process_start capacity) = Some (answers, s) \<and>
    map (map_option forget_hit) answers = spec_run requests [] \<and> cache_wf (np_evaluator s)"
  using process_run_refines [OF refines_start, of requests capacity] assms by simp

theorem nacm_process_refines_witness:
  "\<exists>answers s.
    process_run
      [BuildPolicy (add_rule (builder_new 7)
         (rule_allow Read \<lparr>yp_segments = [WildcardModule ''sys''], yp_subtree = True\<rparr>)),
       Ask 0 [\<lparr>qn_module = ''sys'', qn_name = ''ntp''\<rparr>] Read,
       BuildPolicy (builder_new 7),
       Ask 1 [\<lparr>qn_module = ''sys'', qn_name = ''ntp''\<rparr>] Read] (process_start 1) = Some (answers, s) \<and>
    map (map_option forget_hit) answers =
      [None, Some (decision_new Allow (Some 0) False 7), None, Some (decision_new Deny None False 7)] \<and>
    cache_wf (np_evaluator s)"
  using nacm_process_refines [of "[BuildPolicy (add_rule (builder_new 7)
         (rule_allow Read \<lparr>yp_segments = [WildcardModule ''sys''], yp_subtree = True\<rparr>)),
       Ask 0 [\<lparr>qn_module = ''sys'', qn_name = ''ntp''\<rparr>] Read,
       BuildPolicy (builder_new 7),
       Ask 1 [\<lparr>qn_module = ''sys'', qn_name = ''ntp''\<rparr>] Read]" 1]
  by (simp add: spec_decision_def add_rule_def builder_new_def rule_allow_def rule_new_def
      rule_applies_def pattern_matches_def decision_of_def del: process_run.simps)

text \<open>
  C9. From every evaluator state that satisfies the cache invariant, whatever policy is asked,
  both evaluations return (the eviction loop ends), leave the capacity alone and keep the
  invariant: the eviction queue lists each cached entry exactly once, the entry counter is its
  length, and it does not exceed the capacity.
\<close>

theorem evaluator_invariant:
  assumes "cache_wf ev"
  shows "(\<exists>d ev' m'. evaluator_evaluate ev m p path act = Some (d, ev', m') \<and> cache_wf ev' \<and>
      cache_capacity ev' = cache_capacity ev) \<and>
    (\<exists>d ev' m'. evaluator_evaluate_for_groups ev m p path act gs = Some (d, ev', m') \<and> cache_wf ev' \<and>
      cache_capacity ev' = cache_capacity ev)"
  using respond_total [OF assms] by (simp add: evaluator_respond)

theorem evaluator_invariant_witness:
  "\<exists>d ev' m'. evaluator_evaluate_for_groups (with_cache_capacity 0)
      \<lparr>nacm_eval_allow = 0, nacm_eval_deny = 0, nacm_default_deny = 0\<rparr>
      (fst (policy_empty 1 1)) [] Read [''ops''] = Some (d, ev', m') \<and> cache_wf ev' \<and> cache_capacity ev' = 0"
  using evaluator_invariant [OF cache_wf_new [of 0]] by (simp add: with_cache_capacity_def)

text \<open>
  C13. Access is granted only by a rule the principal can see: an allowing decision of the
  group-scoped evaluation names the index, counted over all rules of the policy, of an allow rule
  that applies to the request and that is either unscoped or in a list for one of the principal's
  groups (or for all users), and no visible rule before it applies.
\<close>

theorem allowed_by_visible_rule:
  assumes "decision_is_allowed (policy_evaluate_for_groups p path act gs)"
  shows "\<exists>k r. matched_rule_index (policy_evaluate_for_groups p path act gs) = Some k \<and>
    k < length (visible_rules (p_rules p) (p_rule_lists p) gs) \<and>
    visible_rules (p_rules p) (p_rule_lists p) gs ! k = (True, r) \<and>
    (r \<in> set (p_rules p) \<or> (\<exists>l\<in>set (p_rule_lists p). r \<in> set (rl_rules l) \<and>
       (''*'' \<in> set (rl_groups l) \<or> set (rl_groups l) \<inter> set gs \<noteq> {}))) \<and>
    rule_applies r path act \<and> r_effect r = Allow \<and>
    (\<forall>j < k. \<forall>q. visible_rules (p_rules p) (p_rule_lists p) gs ! j = (True, q) \<longrightarrow>
       \<not> rule_applies q path act)"
proof -
  let ?vs = "visible_rules (p_rules p) (p_rule_lists p) gs"
  from assms obtain k where k: "first_visible 0 ?vs path act = Some (k, Allow)"
    by (auto simp: evaluate_for_groups_visible decision_of_def decision_is_allowed_def
        effect_is_allowed_def decision_new_def split: option.splits)
  from first_visible_Some [OF k] obtain r where r: "k < length ?vs" "?vs ! k = (True, r)" "rule_applies r path act"
    "r_effect r = Allow" by auto
  then have "r \<in> set (p_rules p) \<or> (\<exists>l\<in>set (p_rule_lists p). r \<in> set (rl_rules l) \<and> for_groups l gs)"
    using nth_mem [OF r(1)] by (simp add: visible_rule_cases)
  with r first_visible_least [OF k] k show ?thesis
    by (auto simp: evaluate_for_groups_visible decision_of_def decision_new_def for_groups_def)
qed

definition ops_policy :: nacm_policy where
  "ops_policy = fst (policy_build (add_rule_list (add_rule_list (builder_new 1)
     \<lparr>rl_name = ''guests'', rl_groups = [''guest''], rl_rules = [rule_deny Read \<lparr>yp_segments = [], yp_subtree = True\<rparr>]\<rparr>)
     \<lparr>rl_name = ''ops'', rl_groups = [''ops''], rl_rules = [rule_allow Read \<lparr>yp_segments = [], yp_subtree = True\<rparr>]\<rparr>) 1)"

theorem allowed_by_visible_rule_witness:
  "decision_is_allowed (policy_evaluate_for_groups ops_policy [] Read [''ops'']) \<and>
   \<not> decision_is_allowed (policy_evaluate_for_groups ops_policy [] Read [''guest'']) \<and>
   (\<exists>l\<in>set (p_rule_lists ops_policy). set (rl_groups l) \<inter> {''ops''} \<noteq> {})"
proof -
  have allowed: "decision_is_allowed (policy_evaluate_for_groups ops_policy [] Read [''ops''])"
    and denied: "\<not> decision_is_allowed (policy_evaluate_for_groups ops_policy [] Read [''guest''])"
    and lists: "p_rules ops_policy = []" "\<forall>l\<in>set (p_rule_lists ops_policy). ''*'' \<notin> set (rl_groups l)"
    by code_simp+
  from allowed_by_visible_rule [OF allowed] lists allowed denied show ?thesis by auto
qed

text \<open>
  C31. Construction of a rule list never panics and succeeds exactly when the name is a valid label
  (non-empty, no surrounding white space, no control character), at least one group is given and
  every group is a valid label or the all-users group; the list then carries the name and rules
  unchanged and its groups in order without repetition.
\<close>

theorem rule_list_new_exact:
  "rule_list_new n gs rules \<noteq> Panic \<and>
   (rule_list_new n gs rules = Ok l \<longleftrightarrow>
      label_ok n \<and> gs \<noteq> [] \<and> list_all group_ok gs \<and>
      l = \<lparr>rl_name = n, rl_groups = sorted_list_of_set (set gs), rl_rules = rules\<rparr>)"
  by (auto simp: rule_list_new_def outcome_simps validate_nacm_label_Ok_iff
      normalize_group_names_Ok_iff list_all_iff)

end
