(* ===== verification/Session_Types.thy ===== *)
theory Session_Types
  imports Opc_Prelude "HOL-Library.AList" "HOL-Library.Product_Lexorder"
    "HOL-Library.List_Lexorder" "HOL-Library.Char_ord"
begin

text \<open>
  The vocabulary of the session store (\<^verbatim>\<open>crates/opc-session-store/src\<close>): time and TTL arithmetic
  (\<^verbatim>\<open>ttl.rs\<close>), session keys with the order that retirement uses (\<^verbatim>\<open>model.rs\<close>,
  \<^verbatim>\<open>key_retention.rs\<close>), records (\<^verbatim>\<open>record.rs\<close>), lease guards (\<^verbatim>\<open>lease.rs\<close>), backend
  capabilities (\<^verbatim>\<open>capability.rs\<close>) and the error values (\<^verbatim>\<open>error.rs\<close>). Fences, generations,
  sequences and credential identities are 64-bit numbers, kept as natural numbers with checked
  or saturating arithmetic where the code has it.
\<close>

section \<open>Errors\<close>

datatype store_error =
    NotFound
  | StaleFence
  | CasConflict
  | CasIdempotencyConflict
  | CasIdempotencyOutcomeUnavailable
  | BackendOperationOutcomeUnavailable
  | TopologyAuthorityRevoked
  | CapabilityNotSupported string
  | BackendUnavailable string
  | InvalidKey string
  | InvalidReplicationSequence
  | InvalidReplicationLogRange
  | ReplicationLogPageTooLarge usize usize
  | ReplicationLogCursorCompacted usize
  | ReplicationWatchCatchUpRequired
  | ReplicationOperationLimitExceeded
  | InvalidSessionTtl
  | InvalidRecordExpiry
  | RecordExpiryPreflightLimitExceeded
  | LeaseHeld
  | LeaseExpired
  | Crypto string
  | Serialization string
  | PayloadTooLarge usize usize
  | InvalidRestoreScanRequest string
  | InvalidRestoreScanResponse string
  | RestoreScanPageTooLarge usize usize
  | RestoreScanCursorStale
  | RestoreScanWorkBudgetExceeded
  | RestoreScanResponseTooLarge usize
  | FencedTransitionRequestConflict
  | FencedTransitionOutcomeUnknown
  | FencedTransitionRequestExpired
  | FencedTransitionHistoryFull
  | FencedTransitionRetentionExhausted
  | FencedTransitionStorageExhausted
  | FencedTransitionHistoryEpochRetired
  | FencedTransitionHistoryEpochNotActive
  | SessionRecordReserved
  | FencedTransitionVoided
  | FencedTransitionLeaseDeferred
  | FencedTransitionRecoveryJournalUnavailable
  | KeyProviderUnavailable string

primrec store_error_display :: "store_error \<Rightarrow> string" where
  "store_error_display NotFound =
     ''record not found''"
| "store_error_display StaleFence =
     ''stale fence: current fence is higher''"
| "store_error_display CasConflict =
     ''compare-and-set conflict''"
| "store_error_display CasIdempotencyConflict =
     ''compare-and-set idempotency identity was reused''"
| "store_error_display CasIdempotencyOutcomeUnavailable =
     ''compare-and-set idempotency outcome is unavailable''"
| "store_error_display BackendOperationOutcomeUnavailable =
     ''backend mutation outcome is unavailable''"
| "store_error_display TopologyAuthorityRevoked =
     ''session topology mutation authority was revoked''"
| "store_error_display (CapabilityNotSupported v) =
     ''capability not supported: '' @ v"
| "store_error_display (BackendUnavailable v) =
     ''backend unavailable: '' @ v"
| "store_error_display (InvalidKey v) =
     ''invalid key: '' @ v"
| "store_error_display InvalidReplicationSequence =
     ''invalid replication sequence''"
| "store_error_display InvalidReplicationLogRange =
     ''invalid replication log range''"
| "store_error_display (ReplicationLogPageTooLarge requested mx) =
     ''replication log page too large: requested '' @ show_nat requested @ '' exceeds maximum '' @ show_nat mx"
| "store_error_display (ReplicationLogCursorCompacted resume_from) =
     ''replication log cursor was compacted; resume from '' @ show_nat resume_from"
| "store_error_display ReplicationWatchCatchUpRequired =
     ''replication watch requires coherent catch-up''"
| "store_error_display ReplicationOperationLimitExceeded =
     ''replication operation limit exceeded''"
| "store_error_display InvalidSessionTtl =
     ''invalid session TTL''"
| "store_error_display InvalidRecordExpiry =
     ''invalid session record expiry''"
| "store_error_display RecordExpiryPreflightLimitExceeded =
     ''session record-expiry preflight limit exceeded''"
| "store_error_display LeaseHeld =
     ''lease held by another owner''"
| "store_error_display LeaseExpired =
     ''lease expired''"
| "store_error_display (Crypto v) =
     ''crypto error: '' @ v"
| "store_error_display (Serialization v) =
     ''serialization error: '' @ v"
| "store_error_display (PayloadTooLarge actual mx) =
     ''payload too large: '' @ show_nat actual @ '' bytes exceeds maximum '' @ show_nat mx @ '' bytes''"
| "store_error_display (InvalidRestoreScanRequest v) =
     ''invalid restore scan request: '' @ v"
| "store_error_display (InvalidRestoreScanResponse v) =
     ''invalid restore scan response: '' @ v"
| "store_error_display (RestoreScanPageTooLarge requested mx) =
     ''restore scan page too large: requested '' @ show_nat requested @ '' exceeds maximum '' @ show_nat mx"
| "store_error_display RestoreScanCursorStale =
     ''restore scan cursor is stale''"
| "store_error_display RestoreScanWorkBudgetExceeded =
     ''restore scan work budget was exceeded''"
| "store_error_display (RestoreScanResponseTooLarge max_bytes) =
     ''restore scan response exceeds the '' @ show_nat max_bytes @ ''-byte response limit''"
| "store_error_display FencedTransitionRequestConflict =
     ''fenced transition request identity was reused''"
| "store_error_display FencedTransitionOutcomeUnknown =
     ''fenced transition outcome is unknown''"
| "store_error_display FencedTransitionRequestExpired =
     ''fenced transition result retention expired''"
| "store_error_display FencedTransitionHistoryFull =
     ''fenced transition request history is full''"
| "store_error_display FencedTransitionRetentionExhausted =
     ''fenced transition result retention horizon is exhausted''"
| "store_error_display FencedTransitionStorageExhausted =
     ''fenced transition storage counter is exhausted''"
| "store_error_display FencedTransitionHistoryEpochRetired =
     ''fenced transition history epoch is retired''"
| "store_error_display FencedTransitionHistoryEpochNotActive =
     ''fenced transition history epoch is not active''"
| "store_error_display SessionRecordReserved =
     ''session record is reserved by a protected roster''"
| "store_error_display FencedTransitionVoided =
     ''fenced transition request was voided''"
| "store_error_display FencedTransitionLeaseDeferred =
     ''fenced transition is deferred by a live lease''"
| "store_error_display FencedTransitionRecoveryJournalUnavailable =
     ''backend unavailable: protected fenced-transition V2 recovery journal unavailable''"
| "store_error_display (KeyProviderUnavailable v) =
     ''key provider unavailable: '' @ v"

datatype lease_error =
    AlreadyHeld
  | Expired
  | LeaseStaleFence
  | LeaseNotFound
  | LeaseInvalidSessionTtl
  | OperationOutcomeUnavailable
  | LeaseBackend string

definition lease_error_from :: "store_error \<Rightarrow> lease_error" where
  "lease_error_from err =
     (case err of
        LeaseHeld \<Rightarrow> AlreadyHeld
      | LeaseExpired \<Rightarrow> Expired
      | StaleFence \<Rightarrow> LeaseStaleFence
      | TopologyAuthorityRevoked \<Rightarrow> LeaseStaleFence
      | NotFound \<Rightarrow> LeaseNotFound
      | InvalidSessionTtl \<Rightarrow> LeaseInvalidSessionTtl
      | BackendOperationOutcomeUnavailable \<Rightarrow> OperationOutcomeUnavailable
      | other \<Rightarrow> LeaseBackend (store_error_display other))"

section \<open>Time\<close>

text \<open>
  A timestamp is its distance from the Unix epoch in nanoseconds; the representable range is
  that of the calendar years -9999 to 9999. A duration is a number of nanoseconds whose whole
  seconds fit 64 bits.
\<close>

type_synonym timestamp = int
type_synonym duration = nat

definition TIMESTAMP_MIN :: timestamp where
  "TIMESTAMP_MIN = - 377705116800000000000"

definition TIMESTAMP_MAX :: timestamp where
  "TIMESTAMP_MAX = 253402300799999999999"

definition timestamp_checked_add :: "timestamp \<Rightarrow> int \<Rightarrow> timestamp option" where
  "timestamp_checked_add t d =
     (if TIMESTAMP_MIN \<le> t + d \<and> t + d \<le> TIMESTAMP_MAX then Some (t + d) else None)"

definition MAX_SESSION_TTL :: duration where
  "MAX_SESSION_TTL = 365 * 24 * 60 * 60 * 1000000000"

definition validate_session_ttl :: "duration \<Rightarrow> (unit, store_error) result" where
  "validate_session_ttl ttl = (if ttl > MAX_SESSION_TTL then Err InvalidSessionTtl else Ok ())"

definition checked_session_deadline :: "timestamp \<Rightarrow> duration \<Rightarrow> (timestamp, store_error) result" where
  "checked_session_deadline now ttl =
     and_then (validate_session_ttl ttl) (\<lambda>_.
     if ttl div 1000000000 > 2 ^ 63 - 1 then Err InvalidSessionTtl
     else ok_or InvalidSessionTtl (timestamp_checked_add now (int ttl)))"

section \<open>Keys\<close>

datatype session_key_type =
    SubscriberContext | PduSession | TeidMapping | PfcpSeid | HandoverTransaction
  | OtherKeyType string

fun key_type_str :: "session_key_type \<Rightarrow> string" where
  "key_type_str SubscriberContext = ''subscriber-context''"
| "key_type_str PduSession = ''pdu-session''"
| "key_type_str TeidMapping = ''teid-mapping''"
| "key_type_str PfcpSeid = ''pfcp-seid''"
| "key_type_str HandoverTransaction = ''handover-transaction''"
| "key_type_str (OtherKeyType s) = s"

record session_key =
  sk_tenant :: string
  sk_nf_kind :: string
  sk_key_type :: session_key_type
  sk_stable_id :: bytes

datatype fake_map_key = FakeMapKey
  (mk_tenant: string)
  (mk_nf_kind: string)
  (mk_key_type: session_key_type)
  (mk_stable_id: bytes)

definition map_key :: "session_key \<Rightarrow> fake_map_key" where
  "map_key k = FakeMapKey (sk_tenant k) (sk_nf_kind k) (sk_key_type k) (sk_stable_id k)"

lemma map_key_inject [simp]: "map_key k = map_key k' \<longleftrightarrow> k = k'"
  by (cases k; cases k') (simp add: map_key_def)

text \<open>The complete-key order of retirement: by parts, with the kind after the printed type.\<close>

fun key_kind :: "session_key_type \<Rightarrow> nat" where
  "key_kind SubscriberContext = 0"
| "key_kind PduSession = 1"
| "key_kind TeidMapping = 2"
| "key_kind PfcpSeid = 3"
| "key_kind HandoverTransaction = 4"
| "key_kind (OtherKeyType _) = 5"

definition key_parts :: "fake_map_key \<Rightarrow> string \<times> string \<times> string \<times> nat \<times> bytes" where
  "key_parts k =
     (mk_tenant k, mk_nf_kind k, key_type_str (mk_key_type k), key_kind (mk_key_type k),
      mk_stable_id k)"

lemma key_type_inject:
  "key_type_str s = key_type_str t \<Longrightarrow> key_kind s = key_kind t \<Longrightarrow> s = t"
  by (cases s; cases t) auto

lemma key_parts_inject: "key_parts k = key_parts k' \<longleftrightarrow> k = k'"
  by (cases k; cases k') (auto simp: key_parts_def dest: key_type_inject)

instantiation fake_map_key :: linorder
begin

definition less_eq_fake_map_key :: "fake_map_key \<Rightarrow> fake_map_key \<Rightarrow> bool" where
  "less_eq_fake_map_key k k' \<longleftrightarrow> key_parts k \<le> key_parts k'"

definition less_fake_map_key :: "fake_map_key \<Rightarrow> fake_map_key \<Rightarrow> bool" where
  "less_fake_map_key k k' \<longleftrightarrow> key_parts k < key_parts k'"

instance
  by standard
    (auto simp: less_eq_fake_map_key_def less_fake_map_key_def less_le_not_le
      dest: antisym simp flip: key_parts_inject)

end

definition RESERVED_KEY_TYPES :: "string list" where
  "RESERVED_KEY_TYPES =
     [''opc-scope-authority'', ''opc-scope-lease'', ''opc-scope-batch'', ''opc-scope-child'',
      ''opc-scope-claim'', ''opc-scope-profile'', ''opc-scope-continuation'']"

definition scope_key :: "fake_map_key \<Rightarrow> bool" where
  "scope_key k \<longleftrightarrow> key_type_str (mk_key_type k) \<in> set RESERVED_KEY_TYPES"

section \<open>Records and leases\<close>

datatype state_class =
    AuthoritativeSession | DataplaneLookup | ReplicatedDr | TelemetryDerived | EphemeralProcedure

definition requires_monotonic_generation :: "state_class \<Rightarrow> bool" where
  "requires_monotonic_generation c \<longleftrightarrow> c \<noteq> TelemetryDerived"

datatype payload_encoding = Plaintext | LegacyPlaintext | EnvelopeV1

record session_payload =
  pl_bytes :: bytes
  pl_encoding :: payload_encoding

record stored_record =
  sr_key :: session_key
  sr_generation :: nat
  sr_owner :: string
  sr_fence :: nat
  sr_state_class :: state_class
  sr_state_type :: string
  sr_expires_at :: "timestamp option"
  sr_payload :: session_payload

definition is_expired_at :: "stored_record \<Rightarrow> timestamp \<Rightarrow> bool" where
  "is_expired_at r now = (case sr_expires_at r of Some e \<Rightarrow> e \<le> now | None \<Rightarrow> False)"

definition validate_record_expiry_profile ::
  "timestamp option \<Rightarrow> state_class \<Rightarrow> (unit, store_error) result" where
  "validate_record_expiry_profile expires_at c =
     (if expires_at = None \<and> c = EphemeralProcedure then Err InvalidRecordExpiry else Ok ())"

definition checked_record_expiry_limit :: "timestamp \<Rightarrow> timestamp" where
  "checked_record_expiry_limit reference =
     (case timestamp_checked_add reference (365 * 24 * 60 * 60 * 1000000000) of
        Some t \<Rightarrow> t | None \<Rightarrow> TIMESTAMP_MAX)"

definition validate_record_expiry_at ::
  "timestamp option \<Rightarrow> state_class \<Rightarrow> timestamp \<Rightarrow> (unit, store_error) result" where
  "validate_record_expiry_at expires_at c reference =
     and_then (validate_record_expiry_profile expires_at c) (\<lambda>_.
     case expires_at of
       None \<Rightarrow> Ok ()
     | Some e \<Rightarrow>
         if e > checked_record_expiry_limit reference then Err InvalidRecordExpiry else Ok ())"

definition validate_stored_record_expiry_at ::
  "stored_record \<Rightarrow> timestamp \<Rightarrow> (unit, store_error) result" where
  "validate_stored_record_expiry_at r reference =
     validate_record_expiry_at (sr_expires_at r) (sr_state_class r) reference"

record lease_guard =
  lg_key :: session_key
  lg_owner :: string
  lg_fence :: nat
  lg_acquired_at :: timestamp
  lg_expires_at :: timestamp
  lg_credential_id :: nat

record backend_capabilities =
  cap_atomic_compare_and_set :: bool
  cap_monotonic_fencing_token :: bool
  cap_per_key_ttl :: bool
  cap_server_side_lease_expiry :: bool
  cap_ordered_replication_log :: bool
  cap_batch_write :: bool
  cap_watch :: bool
  cap_restore_scan :: bool
  cap_max_value_bytes :: usize

definition all_enabled :: backend_capabilities where
  "all_enabled =
     \<lparr>cap_atomic_compare_and_set = True, cap_monotonic_fencing_token = True,
      cap_per_key_ttl = True, cap_server_side_lease_expiry = True,
      cap_ordered_replication_log = True, cap_batch_write = True, cap_watch = True,
      cap_restore_scan = True, cap_max_value_bytes = max_u64\<rparr>"

end
