(* ===== verification/Session_Retention.thy ===== *)
theory Session_Retention
  imports Session_Types
begin

text \<open>
  Bounded key history: the epochs of \<^verbatim>\<open>key_retention.rs\<close> with the floors that stand for forgotten
  keys, and the replay policy of \<^verbatim>\<open>replay_policy.rs\<close>.
\<close>

section \<open>Epochs and floors\<close>

definition RETIRED_KEYS_PER_EPOCH :: nat where
  "RETIRED_KEYS_PER_EPOCH = 32768"

datatype rotation_reason = Threshold | Capacity

record key_retention =
  kr_epoch :: nat
  kr_floor_prev :: nat
  kr_floor_cur :: nat
  kr_retired_max :: nat
  kr_retired_count :: nat
  kr_last_rotation :: "rotation_reason option"

definition retention_default :: key_retention where
  "retention_default =
     \<lparr>kr_epoch = 0, kr_floor_prev = 0, kr_floor_cur = 0, kr_retired_max = 0, kr_retired_count = 0,
      kr_last_rotation = None\<rparr>"

text \<open>The result of a rotation: the new epoch data, the fence counter, and the last epoch to drop.\<close>

definition rotate_epoch ::
  "key_retention \<Rightarrow> nat \<Rightarrow> nat \<Rightarrow> nat \<Rightarrow> rotation_reason
     \<Rightarrow> (key_retention \<times> nat \<times> nat option, store_error) result" where
  "rotate_epoch kr next_fence counter_limit async_floor reason =
     and_then (ok_or FencedTransitionStorageExhausted (checked_add (kr_epoch kr) 1)) (\<lambda>epoch.
     let floor_prev = max (kr_floor_cur kr) async_floor in
     and_then (ok_or FencedTransitionStorageExhausted (checked_add floor_prev 1)) (\<lambda>succ_prev.
     and_then (ok_or FencedTransitionStorageExhausted (checked_add (kr_retired_max kr) 1)) (\<lambda>succ_max.
     let floor_cur = max succ_prev succ_max in
     and_then (ok_or FencedTransitionStorageExhausted (checked_add floor_cur 1)) (\<lambda>succ_cur.
     let allocated = max next_fence succ_cur in
     if allocated > counter_limit then Err FencedTransitionStorageExhausted
     else Ok (\<lparr>kr_epoch = epoch, kr_floor_prev = floor_prev, kr_floor_cur = floor_cur,
               kr_retired_max = 0, kr_retired_count = 0, kr_last_rotation = Some reason\<rparr>,
              allocated, checked_sub epoch 2)))))"

definition observed_absent_fence :: "key_retention \<Rightarrow> nat \<Rightarrow> nat" where
  "observed_absent_fence kr async_floor = max (kr_floor_cur kr) async_floor"

definition accepts_absent_fence :: "key_retention \<Rightarrow> nat \<Rightarrow> nat \<Rightarrow> bool" where
  "accepts_absent_fence kr expected async_floor \<longleftrightarrow>
     expected = max (kr_floor_prev kr) async_floor \<or> expected = max (kr_floor_cur kr) async_floor"

definition retains_epoch :: "key_retention \<Rightarrow> nat \<Rightarrow> bool" where
  "retains_epoch kr retired_epoch \<longleftrightarrow>
     retired_epoch = kr_epoch kr \<or> checked_sub (kr_epoch kr) 1 = Some retired_epoch"

definition valid_retired_fence :: "key_retention \<Rightarrow> nat \<Rightarrow> nat \<Rightarrow> bool" where
  "valid_retired_fence kr retired_epoch fence \<longleftrightarrow>
     retains_epoch kr retired_epoch \<and>
     (if retired_epoch = kr_epoch kr then fence \<le> kr_retired_max kr else fence < kr_floor_cur kr)"

definition retention_valid :: "key_retention \<Rightarrow> nat \<Rightarrow> bool" where
  "retention_valid kr next_fence \<longleftrightarrow>
     kr_floor_prev kr \<le> kr_floor_cur kr \<and>
     kr_floor_cur kr < next_fence \<and>
     kr_retired_max kr < next_fence \<and>
     kr_retired_count kr < RETIRED_KEYS_PER_EPOCH \<and>
     (kr_retired_count kr \<noteq> 0 \<or> kr_retired_max kr = 0) \<and>
     (kr_epoch kr \<noteq> 0 \<or> kr_floor_prev kr = 0 \<and> kr_floor_cur kr = 0) \<and>
     ((kr_epoch kr = 0) = (kr_last_rotation kr = None)) \<and>
     (kr_epoch kr = 0 \<or> kr_floor_prev kr < kr_floor_cur kr)"

section \<open>Replay policy\<close>

definition MAX_REPLICATION_INTERNAL_KEYS :: nat where
  "MAX_REPLICATION_INTERNAL_KEYS = 1048576"

datatype command_boundary = Single | Start bytes nat | Continue bytes nat

datatype recovery_boundary = NoRecovery | Recover nat

record replay_policy =
  prune_expired :: bool
  retire_dead :: bool
  policy_async_floor :: nat
  capacity_rotations :: nat
  policy_internal_keys :: nat
  policy_command :: command_boundary
  policy_recovery :: recovery_boundary

definition policy_preserve :: replay_policy where
  "policy_preserve =
     \<lparr>prune_expired = False, retire_dead = False, policy_async_floor = 0, capacity_rotations = 0,
      policy_internal_keys = 0, policy_command = Single, policy_recovery = NoRecovery\<rparr>"

definition policy_prune_expired :: replay_policy where
  "policy_prune_expired = policy_preserve\<lparr>prune_expired := True\<rparr>"

definition policy_prune_and_retire :: replay_policy where
  "policy_prune_and_retire = policy_preserve\<lparr>prune_expired := True, retire_dead := True\<rparr>"

definition command_ok :: "replay_policy \<Rightarrow> bool" where
  "command_ok p =
     (case policy_command p of
        Single \<Rightarrow> True
      | Start _ following \<Rightarrow> 1 \<le> following \<and> following \<le> 255
      | Continue _ remaining \<Rightarrow>
          remaining \<le> 254 \<and> capacity_rotations p = 0 \<and> policy_recovery p = NoRecovery)"

definition policy_validate :: "replay_policy \<Rightarrow> (unit, store_error) result" where
  "policy_validate p =
     (let invalid = Serialization ''invalid replication replay policy'' in
      if policy_async_floor p > 2 ^ 63 - 1 - 2 \<or> capacity_rotations p > 2 \<or>
         policy_internal_keys p > MAX_REPLICATION_INTERNAL_KEYS
      then Err invalid
      else if \<not> command_ok p then Err invalid
      else case policy_recovery p of
        NoRecovery \<Rightarrow> Ok ()
      | Recover previous_sequence \<Rightarrow>
          if policy_async_floor p = 0 \<or> previous_sequence > policy_async_floor p \<or>
             policy_command p \<noteq> Single \<or> prune_expired p \<or> retire_dead p
          then Err invalid else Ok ())"

section \<open>Rotation\<close>

lemma rotate_epoch_Ok_iff:
  "rotate_epoch kr nf lim af reason = Ok (kr', nf', through) \<longleftrightarrow>
     (let fp = max (kr_floor_cur kr) af; fc = max (fp + 1) (kr_retired_max kr + 1) in
      kr_epoch kr < max_u64 \<and> fc < max_u64 \<and> max nf (fc + 1) \<le> lim \<and>
      kr' = \<lparr>kr_epoch = kr_epoch kr + 1, kr_floor_prev = fp, kr_floor_cur = fc, kr_retired_max = 0,
             kr_retired_count = 0, kr_last_rotation = Some reason\<rparr> \<and>
      nf' = max nf (fc + 1) \<and> through = checked_sub (kr_epoch kr + 1) 2)"
  by (auto simp: rotate_epoch_def outcome_simps Let_def not_less split: if_splits)

lemma rotate_epoch_not_Panic [simp]: "rotate_epoch kr nf lim af reason \<noteq> Panic"
  by (auto simp: rotate_epoch_def outcome_simps Let_def not_less split: if_splits)

lemma retention_default_valid: "0 < nf \<Longrightarrow> retention_valid retention_default nf"
  by (simp add: retention_valid_def retention_default_def RETIRED_KEYS_PER_EPOCH_def)

lemma rotate_epoch_facts:
  assumes "rotate_epoch kr nf lim af reason = Ok (kr', nf', through)"
  shows "kr_epoch kr' = Suc (kr_epoch kr)" "kr_floor_prev kr' = max (kr_floor_cur kr) af"
    "kr_floor_prev kr' < kr_floor_cur kr'" "kr_retired_max kr < kr_floor_cur kr'"
    "kr_floor_cur kr' < nf'" "nf \<le> nf'" "nf' \<le> lim" "kr_retired_max kr' = 0"
    "kr_retired_count kr' = 0" "kr_last_rotation kr' = Some reason"
    "through = checked_sub (Suc (kr_epoch kr)) 2"
  using assms by (auto simp: rotate_epoch_Ok_iff Let_def max_def split: if_splits)

lemma rotate_epoch_valid:
  assumes "rotate_epoch kr nf lim af reason = Ok (kr', nf', through)"
  shows "retention_valid kr' nf'"
  using rotate_epoch_facts [OF assms] by (simp add: retention_valid_def RETIRED_KEYS_PER_EPOCH_def)

text \<open>
  A retired fence of the closing epoch or of the one before it stays valid or is below the new
  previous floor, which is when its key may be forgotten.
\<close>

definition epoch_dropped :: "nat option \<Rightarrow> nat \<Rightarrow> bool" where
  "epoch_dropped through e \<longleftrightarrow> (case through of None \<Rightarrow> False | Some t \<Rightarrow> e \<le> t)"

lemma rotate_epoch_retired:
  assumes "rotate_epoch kr nf lim af reason = Ok (kr', nf', through)" "valid_retired_fence kr e fence"
  shows "if epoch_dropped through e then fence < kr_floor_prev kr' else valid_retired_fence kr' e fence"
  using rotate_epoch_facts [OF assms(1)] assms(2)
  by (cases "kr_epoch kr")
    (auto simp: valid_retired_fence_def retains_epoch_def epoch_dropped_def checked_sub_def
      split: if_splits)

section \<open>Properties\<close>

text \<open>
  C34. Rotation of the key history keeps its validity, never lowers the fence counter, and moves
  the fence observed for an absent key strictly up. A fence prepared for an absent key before a
  rotation is still accepted after one rotation and refused after the second.
\<close>

theorem retention_two_epoch_window:
  assumes "rotate_epoch kr nf lim af r1 = Ok (kr1, nf1, t1)"
    and "rotate_epoch kr1 nf1 lim af r2 = Ok (kr2, nf2, t2)"
  shows "retention_valid kr1 nf1 \<and> retention_valid kr2 nf2 \<and> nf \<le> nf1 \<and> nf1 \<le> nf2 \<and>
    observed_absent_fence kr af < observed_absent_fence kr1 af \<and>
    accepts_absent_fence kr1 (observed_absent_fence kr af) af \<and>
    \<not> accepts_absent_fence kr2 (observed_absent_fence kr af) af"
  using rotate_epoch_valid [OF assms(1)] rotate_epoch_valid [OF assms(2)]
    rotate_epoch_facts [OF assms(1)] rotate_epoch_facts [OF assms(2)]
  by (simp add: observed_absent_fence_def accepts_absent_fence_def max_def split: if_splits)

theorem retention_two_epoch_window_witness:
  "\<exists>kr1 kr2. rotate_epoch retention_default 1 max_u64 100 Capacity = Ok (kr1, 102, None) \<and>
    rotate_epoch kr1 102 max_u64 100 Capacity = Ok (kr2, 103, Some 0) \<and>
    \<not> accepts_absent_fence kr2 100 100"
proof -
  obtain kr1 where one: "rotate_epoch retention_default 1 max_u64 100 Capacity = Ok (kr1, 102, None)"
    by (simp add: rotate_epoch_Ok_iff Let_def retention_default_def max_u64_def checked_sub_def)
  then obtain kr2 where two: "rotate_epoch kr1 102 max_u64 100 Capacity = Ok (kr2, 103, Some 0)"
    by (auto simp: rotate_epoch_Ok_iff Let_def retention_default_def max_u64_def checked_sub_def)
  from retention_two_epoch_window [OF one two] one two show ?thesis
    by (auto simp: observed_absent_fence_def retention_default_def)
qed

end
