(* ===== verification/Session_Log.thy ===== *)
theory Session_Log
  imports Session_Retention
begin

text \<open>
  The ordered replication log of \<^verbatim>\<open>backend.rs\<close>: operation trees with their structural and TTL
  validation, entries, the successor relation of cursors, prefixes and pages, log ranges and
  watch cursors, and the command cursor of \<^verbatim>\<open>replay_policy.rs\<close>.
\<close>

section \<open>Operations\<close>

datatype established_successor = Put stored_record | DeleteRow | NoOp

datatype replication_op =
    OpCompareAndSet session_key "nat option" nat timestamp stored_record
  | OpDeleteFenced session_key string nat
  | OpRefreshTtl session_key string nat duration timestamp
  | OpAcquireLease session_key string nat nat duration timestamp
  | OpRenewLease session_key string nat nat duration timestamp
  | OpReleaseLease session_key string nat nat
  | OpRosterEstablished session_key stored_record established_successor string nat nat timestamp timestamp
  | OpBatch "replication_op list"
  | OpRosterEstablishedCreate session_key stored_record string nat nat timestamp timestamp

fun op_nodes :: "replication_op \<Rightarrow> nat" where
  "op_nodes (OpBatch ops) = 1 + sum_list (map op_nodes ops)"
| "op_nodes _ = 1"

fun op_depth :: "replication_op \<Rightarrow> nat" where
  "op_depth (OpBatch ops) = 1 + fold max (map op_depth ops) 0"
| "op_depth _ = 1"

definition MAX_REPLICATION_OPERATION_DEPTH :: nat where
  "MAX_REPLICATION_OPERATION_DEPTH = 16"

definition MAX_REPLICATION_OPERATIONS_PER_ENTRY :: nat where
  "MAX_REPLICATION_OPERATIONS_PER_ENTRY = 256"

text \<open>The explicit stack of the validation, its top first.\<close>

function structure_loop :: "(replication_op \<times> nat) list \<Rightarrow> nat \<Rightarrow> (unit, store_error) result" where
  "structure_loop [] visited = Ok ()"
| "structure_loop ((op, depth) # pending) visited =
     and_then (ok_or ReplicationOperationLimitExceeded (checked_add visited 1)) (\<lambda>visited'.
     if visited' > MAX_REPLICATION_OPERATIONS_PER_ENTRY \<or> depth > MAX_REPLICATION_OPERATION_DEPTH
     then Err ReplicationOperationLimitExceeded
     else case op of
       OpBatch ops \<Rightarrow>
         if ops \<noteq> [] \<and> depth \<ge> MAX_REPLICATION_OPERATION_DEPTH
         then Err ReplicationOperationLimitExceeded
         else
         and_then (ok_or ReplicationOperationLimitExceeded (checked_add visited' (length pending))) (\<lambda>scheduled.
         and_then (ok_or ReplicationOperationLimitExceeded
           (checked_sub MAX_REPLICATION_OPERATIONS_PER_ENTRY scheduled)) (\<lambda>remaining.
         if length ops > remaining then Err ReplicationOperationLimitExceeded
         else
         and_then (ok_or ReplicationOperationLimitExceeded (checked_add depth 1)) (\<lambda>child_depth.
         structure_loop (map (\<lambda>child. (child, child_depth)) ops @ pending) visited')))
     | _ \<Rightarrow> structure_loop pending visited')"
  by pat_completeness auto
termination
  by (relation "measure (\<lambda>(pending, visited). 257 - visited)")
    (auto simp: outcome_simps MAX_REPLICATION_OPERATIONS_PER_ENTRY_def)

definition validate_structure :: "replication_op \<Rightarrow> (unit, store_error) result" where
  "validate_structure op = structure_loop [(op, 1)] 0"

text \<open>A deadline may exceed the one of its TTL by a microsecond of legacy rounding.\<close>

definition validate_deadline ::
  "timestamp \<Rightarrow> duration \<Rightarrow> timestamp \<Rightarrow> (unit, store_error) result" where
  "validate_deadline reference ttl expires_at =
     and_then (checked_session_deadline reference ttl) (\<lambda>latest.
     let tolerant = (case timestamp_checked_add latest 1000 of Some t \<Rightarrow> t | None \<Rightarrow> TIMESTAMP_MAX) in
     if expires_at > tolerant then Err InvalidSessionTtl else Ok ())"

text \<open>The check of one operation's deadlines; a batch is the business of the loop.\<close>

fun validate_op_ttls :: "timestamp \<Rightarrow> replication_op \<Rightarrow> (unit, store_error) result" where
  "validate_op_ttls t (OpRefreshTtl _ _ _ ttl expires_at) = validate_deadline t ttl expires_at"
| "validate_op_ttls t (OpAcquireLease _ _ _ _ ttl expires_at) = validate_deadline t ttl expires_at"
| "validate_op_ttls t (OpRenewLease _ _ _ _ ttl expires_at) = validate_deadline t ttl expires_at"
| "validate_op_ttls t (OpCompareAndSet _ _ _ _ r) = validate_stored_record_expiry_at r t"
| "validate_op_ttls t (OpRosterEstablished _ expected s _ _ _ _ _) =
     and_then (validate_stored_record_expiry_at expected t) (\<lambda>_.
     case s of Put r \<Rightarrow> validate_stored_record_expiry_at r t | _ \<Rightarrow> Ok ())"
| "validate_op_ttls t (OpRosterEstablishedCreate _ r _ _ _ _ _) = validate_stored_record_expiry_at r t"
| "validate_op_ttls t _ = Ok ()"

function ttls_loop :: "timestamp \<Rightarrow> replication_op list \<Rightarrow> (unit, store_error) result" where
  "ttls_loop t [] = Ok ()"
| "ttls_loop t (op # pending) =
     (case op of
        OpBatch ops \<Rightarrow> ttls_loop t (rev ops @ pending)
      | _ \<Rightarrow> and_then (validate_op_ttls t op) (\<lambda>_. ttls_loop t pending))"
  by pat_completeness auto
termination
  by (relation "measure (\<lambda>(t, pending). sum_list (map op_nodes pending))")
    (auto simp: rev_map [symmetric])

definition validate_ttls_at :: "replication_op \<Rightarrow> timestamp \<Rightarrow> (unit, store_error) result" where
  "validate_ttls_at op reference =
     and_then (validate_structure op) (\<lambda>_. ttls_loop reference [op])"

function contains_create_loop :: "replication_op list \<Rightarrow> bool" where
  "contains_create_loop [] = False"
| "contains_create_loop (op # pending) =
     (case op of
        OpRosterEstablishedCreate _ _ _ _ _ _ _ \<Rightarrow> True
      | OpBatch ops \<Rightarrow> contains_create_loop (rev ops @ pending)
      | _ \<Rightarrow> contains_create_loop pending)"
  by pat_completeness auto
termination
  by (relation "measure (\<lambda>pending. sum_list (map op_nodes pending))")
    (auto simp: rev_map [symmetric])

definition contains_protected_roster_established_create :: "replication_op \<Rightarrow> bool" where
  "contains_protected_roster_established_create op = contains_create_loop [op]"

section \<open>Entries and cursors\<close>

record replication_entry =
  re_sequence :: nat
  re_tx_id :: string
  re_op :: replication_op
  re_timestamp :: timestamp
  re_policy :: replay_policy

definition validate_sequence :: "replication_entry \<Rightarrow> (unit, store_error) result" where
  "validate_sequence e = (if re_sequence e = 0 then Err InvalidReplicationSequence else Ok ())"

definition entry_validate :: "replication_entry \<Rightarrow> (unit, store_error) result" where
  "entry_validate e =
     and_then (validate_sequence e) (\<lambda>_.
     and_then (policy_validate (re_policy e)) (\<lambda>_.
     validate_ttls_at (re_op e) (re_timestamp e)))"

definition into_validated :: "replication_entry \<Rightarrow> (replication_entry, store_error) result" where
  "into_validated e = and_then (entry_validate e) (\<lambda>_. Ok e)"

definition next_replication_sequence :: "nat \<Rightarrow> (nat, store_error) result" where
  "next_replication_sequence current =
     ok_or (BackendUnavailable ''replication sequence exhausted'') (checked_add current 1)"

definition replication_entry_follows :: "nat \<Rightarrow> replication_entry \<Rightarrow> (bool, store_error) result" where
  "replication_entry_follows previous e =
     (case policy_recovery (re_policy e) of
        NoRecovery \<Rightarrow>
          and_then (next_replication_sequence previous) (\<lambda>n. Ok (re_sequence e = n))
      | Recover previous_sequence \<Rightarrow>
          if previous_sequence = previous \<and> policy_async_floor (re_policy e) > previous
          then and_then (add_or_panic (policy_async_floor (re_policy e)) 1) (\<lambda>n. Ok (re_sequence e = n))
          else Ok False)"

text \<open>A failed successor test is an invalid sequence for prefixes and pages.\<close>

definition require_follows :: "nat \<Rightarrow> replication_entry \<Rightarrow> (unit, store_error) result" where
  "require_follows previous e =
     and_then (map_err (\<lambda>_. InvalidReplicationSequence) (replication_entry_follows previous e)) (\<lambda>ok.
     if ok then Ok () else Err InvalidReplicationSequence)"

fun prefix_loop :: "nat \<Rightarrow> replication_entry list \<Rightarrow> (unit, store_error) result" where
  "prefix_loop previous [] = Ok ()"
| "prefix_loop previous (e # es) =
     and_then (entry_validate e) (\<lambda>_.
     and_then (require_follows previous e) (\<lambda>_.
     prefix_loop (re_sequence e) es))"

definition validate_replication_prefix :: "replication_entry list \<Rightarrow> (unit, store_error) result" where
  "validate_replication_prefix es = prefix_loop 0 es"

fun page_loop :: "nat option \<Rightarrow> replication_entry list \<Rightarrow> (unit, store_error) result" where
  "page_loop previous [] = Ok ()"
| "page_loop previous (e # es) =
     and_then (entry_validate e) (\<lambda>_.
     and_then (case previous of None \<Rightarrow> Ok () | Some s \<Rightarrow> require_follows s e) (\<lambda>_.
     page_loop (Some (re_sequence e)) es))"

definition validate_replication_page :: "replication_entry list \<Rightarrow> (unit, store_error) result" where
  "validate_replication_page es = page_loop None es"

definition watch_cursor_new :: "nat \<Rightarrow> nat" where
  "watch_cursor_new start = (if start = 0 then 1 else start)"

definition cursor_not_compacted :: "nat \<Rightarrow> nat \<Rightarrow> (unit, store_error) result" where
  "cursor_not_compacted first compacted_through =
     (if compacted_through \<noteq> 0 \<and> first \<le> compacted_through
      then and_then (ok_or (BackendUnavailable ''replication sequence exhausted'')
             (checked_add compacted_through 1)) (\<lambda>n. Err (ReplicationLogCursorCompacted n))
      else Ok ())"

definition matches_watch_cursor :: "replication_entry \<Rightarrow> nat \<Rightarrow> (bool, store_error) result" where
  "matches_watch_cursor e expected =
     and_then (entry_validate e) (\<lambda>_.
     if policy_recovery (re_policy e) \<noteq> NoRecovery \<and>
        checked_add (policy_async_floor (re_policy e)) 1 \<noteq> Some (re_sequence e)
     then Ok False
     else let expected' = max expected 1 in
       if re_sequence e = expected' then Ok True
       else replication_entry_follows (expected' - 1) e)"

section \<open>Ranges of the log\<close>

definition MAX_REPLICATION_LOG_PAGE_ENTRIES :: nat where
  "MAX_REPLICATION_LOG_PAGE_ENTRIES = 65536"

record log_range =
  lr_first :: nat
  lr_last :: "nat option"
  lr_limit :: nat

definition log_range_try_new :: "nat \<Rightarrow> nat \<Rightarrow> (log_range, store_error) result" where
  "log_range_try_new start limit =
     (if limit > MAX_REPLICATION_LOG_PAGE_ENTRIES
      then Err (ReplicationLogPageTooLarge limit MAX_REPLICATION_LOG_PAGE_ENTRIES)
      else
      let first = max start 1 in
      and_then
        (if limit = 0 then Ok None
         else and_then (ok_or InvalidReplicationLogRange (checked_add first (limit - 1))) (\<lambda>l.
              Ok (Some l))) (\<lambda>last.
      Ok \<lparr>lr_first = first, lr_last = last, lr_limit = limit\<rparr>))"

definition range_not_compacted :: "log_range \<Rightarrow> nat \<Rightarrow> (unit, store_error) result" where
  "range_not_compacted r compacted_through =
     (if lr_last r \<noteq> None then cursor_not_compacted (lr_first r) compacted_through else Ok ())"

definition range_validate_page :: "log_range \<Rightarrow> replication_entry list \<Rightarrow> (unit, store_error) result" where
  "range_validate_page r es =
     and_then (validate_replication_page es) (\<lambda>_.
     if length es > lr_limit r then Err InvalidReplicationSequence
     else case es of
       [] \<Rightarrow> Ok ()
     | e # _ \<Rightarrow>
         (case lr_last r of
            None \<Rightarrow> Err InvalidReplicationSequence
          | Some l \<Rightarrow>
              if re_sequence e \<noteq> lr_first r \<or> re_sequence (List.last es) > l
              then Err InvalidReplicationSequence else Ok ()))"

definition validate_replication_log_page ::
  "nat \<Rightarrow> nat \<Rightarrow> replication_entry list \<Rightarrow> (replication_entry list, store_error) result" where
  "validate_replication_log_page start limit es =
     and_then (log_range_try_new start limit) (\<lambda>r.
     and_then (range_validate_page r es) (\<lambda>_. Ok es))"

section \<open>Command cursors\<close>

record command_cursor =
  cc_id :: bytes
  cc_remaining :: nat
  cc_timestamp :: timestamp
  cc_async_floor :: nat

definition cursor_after :: "replication_entry \<Rightarrow> command_cursor option" where
  "cursor_after e =
     map_option (\<lambda>(i, n). \<lparr>cc_id = i, cc_remaining = n, cc_timestamp = re_timestamp e,
                           cc_async_floor = policy_async_floor (re_policy e)\<rparr>)
       (case policy_command (re_policy e) of
          Start i n \<Rightarrow> Some (i, n)
        | Continue i n \<Rightarrow> if n > 0 then Some (i, n) else None
        | Single \<Rightarrow> None)"

definition cursor_advance ::
  "command_cursor option \<Rightarrow> replication_entry \<Rightarrow> (command_cursor option, store_error) result" where
  "cursor_advance pending e =
     (let refused = Err (Serialization ''inconsistent replication command continuation'');
          accepted = (case cursor_after e of
             None \<Rightarrow> Ok None
           | Some c \<Rightarrow>
               and_then (ok_or ReplicationOperationLimitExceeded
                 (checked_add (re_sequence e) (cc_remaining c))) (\<lambda>_. Ok (Some c)))
      in case pending of
        None \<Rightarrow> (case policy_command (re_policy e) of Continue _ _ \<Rightarrow> refused | _ \<Rightarrow> accepted)
      | Some p \<Rightarrow>
          (case policy_command (re_policy e) of
             Continue i n \<Rightarrow>
               if cc_id p \<noteq> i then refused
               else if n = 65535 then Panic
               else if cc_remaining p = n + 1 \<and> cc_timestamp p = re_timestamp e \<and>
                       cc_async_floor p = policy_async_floor (re_policy e)
               then accepted else refused
           | _ \<Rightarrow> refused))"

section \<open>Structure of an operation tree\<close>

lemma op_nodes_pos [simp]: "0 < op_nodes op"
  by (cases op) auto

lemma op_depth_pos [simp]: "0 < op_depth op"
  by (cases op) auto

lemma length_le_sum_nodes: "length ops \<le> sum_list (map op_nodes ops)"
proof (induction ops)
  case (Cons op ops)
  then show ?case using op_nodes_pos [of op] by (simp del: op_nodes_pos)
qed simp

lemma fold_max_le_iff: "fold max xs (a :: nat) \<le> b \<longleftrightarrow> a \<le> b \<and> (\<forall>x \<in> set xs. x \<le> b)"
  by (induction xs arbitrary: a) auto

definition fits :: "(replication_op \<times> nat) list \<Rightarrow> nat \<Rightarrow> bool" where
  "fits pending visited \<longleftrightarrow>
     visited + sum_list (map (op_nodes \<circ> fst) pending) \<le> MAX_REPLICATION_OPERATIONS_PER_ENTRY \<and>
     (\<forall>(op, depth) \<in> set pending. depth + op_depth op \<le> MAX_REPLICATION_OPERATION_DEPTH + 1)"

lemma fits_Cons:
  "fits ((op, depth) # pending) visited \<longleftrightarrow>
     fits pending (visited + op_nodes op) \<and> depth + op_depth op \<le> MAX_REPLICATION_OPERATION_DEPTH + 1"
  by (auto simp: fits_def algebra_simps)

lemma fits_append_children:
  "fits (map (\<lambda>child. (child, d)) ops @ pending) visited \<longleftrightarrow>
     fits pending (visited + sum_list (map op_nodes ops)) \<and>
     (\<forall>child \<in> set ops. d + op_depth child \<le> MAX_REPLICATION_OPERATION_DEPTH + 1)"
  by (auto simp: fits_def comp_def algebra_simps)

lemma fits_length:
  assumes "fits pending visited"
  shows "visited + length pending \<le> MAX_REPLICATION_OPERATIONS_PER_ENTRY"
  using assms length_le_sum_nodes [of "map fst pending"] by (simp add: fits_def comp_def)

lemma fits_batch:
  "fits ((OpBatch ops, d) # pending) v \<longleftrightarrow>
     d \<le> MAX_REPLICATION_OPERATION_DEPTH \<and>
     fits (map (\<lambda>child. (child, d + 1)) ops @ pending) (v + 1)"
proof -
  have "d + op_depth (OpBatch ops) \<le> MAX_REPLICATION_OPERATION_DEPTH + 1 \<longleftrightarrow>
      d \<le> MAX_REPLICATION_OPERATION_DEPTH \<and>
      (\<forall>c \<in> set ops. d + 1 + op_depth c \<le> MAX_REPLICATION_OPERATION_DEPTH + 1)"
    using fold_max_le_iff [of "map op_depth ops" 0 "MAX_REPLICATION_OPERATION_DEPTH - d"] by auto
  then show ?thesis by (auto simp: fits_Cons fits_append_children algebra_simps)
qed

lemma fits_children_depth:
  assumes "fits (map (\<lambda>child. (child, d + 1)) ops @ pending) v" "ops \<noteq> []"
  shows "d < MAX_REPLICATION_OPERATION_DEPTH"
proof -
  obtain c where "c \<in> set ops" using assms(2) by (cases ops) auto
  with assms(1) have "d + 1 + op_depth c \<le> MAX_REPLICATION_OPERATION_DEPTH + 1"
    by (simp add: fits_append_children)
  with op_depth_pos [of c] show ?thesis by linarith
qed

lemma structure_loop_exact:
  assumes "v \<le> MAX_REPLICATION_OPERATIONS_PER_ENTRY"
  shows "structure_loop pending v =
    (if fits pending v then Ok () else Err ReplicationOperationLimitExceeded)"
  using assms
proof (induction pending v rule: structure_loop.induct)
  case (1 v)
  then show ?case by (simp add: fits_def)
next
  case (2 op d pending v)
  note IH = "2.IH" and le = "2.prems"
  have u64: "checked_add v 1 = Some (v + 1)"
    using le by (simp add: checked_add_def max_u64_def MAX_REPLICATION_OPERATIONS_PER_ENTRY_def)
  show ?case
  proof (cases "v + 1 > MAX_REPLICATION_OPERATIONS_PER_ENTRY \<or> d > MAX_REPLICATION_OPERATION_DEPTH")
    case True
    moreover have "\<not> fits ((op, d) # pending) v"
      using True op_nodes_pos [of op] op_depth_pos [of op]
      by (auto simp: fits_def simp del: op_nodes_pos op_depth_pos)
    ultimately show ?thesis using u64 by simp
  next
    case False
    show ?thesis
    proof (cases op)
      case (OpBatch ops)
      let ?kids = "map (\<lambda>child. (child, d + 1)) ops"
      have fits: "fits ((op, d) # pending) v \<longleftrightarrow> fits (?kids @ pending) (v + 1)"
        using False by (simp add: OpBatch fits_batch)
      consider "ops \<noteq> []" "d \<ge> MAX_REPLICATION_OPERATION_DEPTH"
        | "\<not> (ops \<noteq> [] \<and> d \<ge> MAX_REPLICATION_OPERATION_DEPTH)"
          "v + 1 + length pending + length ops > MAX_REPLICATION_OPERATIONS_PER_ENTRY"
        | "\<not> (ops \<noteq> [] \<and> d \<ge> MAX_REPLICATION_OPERATION_DEPTH)"
          "v + 1 + length pending + length ops \<le> MAX_REPLICATION_OPERATIONS_PER_ENTRY"
        by linarith
      then show ?thesis
      proof cases
        case 1
        then have "\<not> fits ((op, d) # pending) v" using fits fits_children_depth [of d ops pending "v + 1"] by auto
        with 1 False u64 OpBatch show ?thesis by simp
      next
        case 2
        then have "\<not> fits ((op, d) # pending) v" using fits fits_length [of "?kids @ pending" "v + 1"] by auto
        with 2 False u64 OpBatch show ?thesis by (auto simp: checked_add_def checked_sub_def)
      next
        case 3
        have more: "checked_add (v + 1) (length pending) = Some (v + 1 + length pending)"
          "checked_sub MAX_REPLICATION_OPERATIONS_PER_ENTRY (v + 1 + length pending) =
             Some (MAX_REPLICATION_OPERATIONS_PER_ENTRY - (v + 1 + length pending))"
          "checked_add d 1 = Some (d + 1)"
          using 3(2) False
          by (simp_all add: checked_add_def checked_sub_def max_u64_def MAX_REPLICATION_OPERATION_DEPTH_def
              MAX_REPLICATION_OPERATIONS_PER_ENTRY_def)
        have "structure_loop ((op, d) # pending) v = structure_loop (?kids @ pending) (v + 1)"
          using 3 False u64 more by (auto simp: OpBatch simp del: One_nat_def)
        moreover have "structure_loop (?kids @ pending) (v + 1) =
            (if fits (?kids @ pending) (v + 1) then Ok () else Err ReplicationOperationLimitExceeded)"
          using IH(8) [of "v + 1" ops] 3 False u64 more OpBatch by auto
        ultimately show ?thesis using fits by simp
      qed
    qed (use IH le False u64 in \<open>auto simp: fits_Cons\<close>)
  qed
qed

section \<open>Properties\<close>

text \<open>
  C35. The bounded-stack validation of an operation tree, with its early refusals, computes exactly
  the declared limits: a tree is accepted when it has at most 256 nodes and depth at most 16, and
  refused with the limit error otherwise.
\<close>

theorem validate_structure_exact:
  "validate_structure op =
     (if op_nodes op \<le> 256 \<and> op_depth op \<le> 16 then Ok () else Err ReplicationOperationLimitExceeded)"
  by (simp add: validate_structure_def structure_loop_exact fits_def
      MAX_REPLICATION_OPERATION_DEPTH_def MAX_REPLICATION_OPERATIONS_PER_ENTRY_def del: structure_loop.simps)

end
