(* ===== verification/Session_Store.thy ===== *)
theory Session_Store
  imports Session_Log
begin

text \<open>
  The in-memory session backend of \<^verbatim>\<open>crates/opc-session-store/src/fake\<close>: fenced
  compare-and-set, fenced deletion, TTL refresh, batches, reads with their local expiry marks, and
  the lease manager. Every operation holds the backend's lock for its whole duration, stages a
  copy of the committed data and publishes it at the end, so an operation is one step of the
  state. The clock sample is an argument. A map is its association list, an ordered set its
  increasing list. Watcher channels are left out: \<open>fb_notified\<close> lists the entries handed to
  them. The optional lab-memory feature is not compiled in.
\<close>

section \<open>State\<close>

record lease_entry =
  le_active :: bool
  le_credential_id :: nat
  le_owner :: string
  le_fence :: nat
  le_acquired_at :: timestamp
  le_expires_at :: timestamp
  le_guard_expires_at :: timestamp

type_synonym 'v key_map = "(fake_map_key \<times> 'v) list"

record pending_replay =
  pr_fences :: "nat key_map"
  pr_floor_prev :: nat
  pr_remaining :: nat
  pr_id :: bytes
  pr_async_floor :: nat
  pr_timestamp :: timestamp

record fake_state =
  fs_records :: "stored_record key_map"
  fs_leases :: "lease_entry key_map"
  fs_key_fences :: "nat key_map"
  fs_retention :: key_retention
  fs_async_floor :: nat
  fs_internal_keys :: nat
  fs_pending :: "pending_replay option"
  fs_retired_keys :: "nat key_map"
  fs_retired_index :: "(nat \<times> fake_map_key) list"
  fs_candidates :: "fake_map_key list"
  fs_committed_time :: "timestamp option"
  fs_next_fence :: nat
  fs_next_credential :: nat
  fs_compacted :: nat
  fs_last_sequence :: nat
  fs_log :: "replication_entry list"

definition state_empty :: fake_state where
  "state_empty =
     \<lparr>fs_records = [], fs_leases = [], fs_key_fences = [], fs_retention = retention_default,
      fs_async_floor = 0, fs_internal_keys = 0, fs_pending = None, fs_retired_keys = [],
      fs_retired_index = [], fs_candidates = [], fs_committed_time = None, fs_next_fence = 1,
      fs_next_credential = 1, fs_compacted = 0, fs_last_sequence = 0, fs_log = []\<rparr>"

record fake_limits =
  max_tracked_keys :: usize
  max_replication_entries :: usize

definition limits_default :: fake_limits where
  "limits_default = \<lparr>max_tracked_keys = 1000000, max_replication_entries = 1000000\<rparr>"

text \<open>The fixed part of a backend, and the part that its operations change.\<close>

record fake_config =
  fc_caps :: backend_capabilities
  fc_limits :: fake_limits

record fake_backend =
  fb_state :: fake_state
  fb_hidden :: "fake_map_key list"
  fb_writer_time :: "timestamp option"
  fb_notified :: "replication_entry list"

definition backend_new :: fake_backend where
  "backend_new =
     \<lparr>fb_state = state_empty, fb_hidden = [], fb_writer_time = None, fb_notified = []\<rparr>"

section \<open>Time and reads\<close>

definition command_time :: "timestamp \<Rightarrow> fake_backend \<Rightarrow> timestamp \<times> fake_backend" where
  "command_time sampled be =
     (let now = fold max (case fb_writer_time be of None \<Rightarrow> [] | Some t \<Rightarrow> [t])
                  (fold max (case fs_committed_time (fb_state be) of None \<Rightarrow> [] | Some t \<Rightarrow> [t]) sampled)
      in (now, be\<lparr>fb_writer_time := Some now\<rparr>))"

definition record_hidden :: "fake_backend \<Rightarrow> fake_map_key \<Rightarrow> bool" where
  "record_hidden be k \<longleftrightarrow> k \<in> set (fb_hidden be)"

definition record_expired :: "fake_backend \<Rightarrow> stored_record \<Rightarrow> timestamp \<Rightarrow> bool \<times> fake_backend" where
  "record_expired be r now =
     (let k = map_key (sr_key r) in
      if is_expired_at r now then (True, be\<lparr>fb_hidden := List.insert k (fb_hidden be)\<rparr>)
      else (k \<in> set (fb_hidden be), be))"

definition get_for_read ::
  "fake_backend \<Rightarrow> session_key \<Rightarrow> timestamp \<Rightarrow> stored_record option \<times> fake_backend" where
  "get_for_read be k now =
     (case map_of (fs_records (fb_state be)) (map_key k) of
        None \<Rightarrow> (None, be)
      | Some r \<Rightarrow> (case record_expired be r now of (expired, be') \<Rightarrow> (if expired then None else Some r, be')))"

definition backend_get ::
  "timestamp \<Rightarrow> session_key \<Rightarrow> fake_backend \<Rightarrow> fake_backend \<times> (stored_record option, store_error) result" where
  "backend_get clock k be = (case get_for_read be k clock of (r, be') \<Rightarrow> (be', Ok r))"

definition get_with_state :: "fake_state \<Rightarrow> session_key \<Rightarrow> timestamp \<Rightarrow> stored_record option" where
  "get_with_state st k now =
     (case map_of (fs_records st) (map_key k) of
        None \<Rightarrow> None | Some r \<Rightarrow> if is_expired_at r now then None else Some r)"

section \<open>Fences, capacity and retirement\<close>

definition current_fence :: "fake_state \<Rightarrow> fake_map_key \<Rightarrow> nat" where
  "current_fence st k =
     max (case map_of (fs_key_fences st) k of
            None \<Rightarrow> if scope_key k then 0 else observed_absent_fence (fs_retention st) 0
          | Some f \<Rightarrow> f)
       (fs_async_floor st)"

definition is_live :: "fake_state \<Rightarrow> fake_map_key \<Rightarrow> bool" where
  "is_live st k \<longleftrightarrow> map_of (fs_records st) k \<noteq> None \<or> map_of (fs_leases st) k \<noteq> None"

definition unretire :: "fake_map_key \<Rightarrow> fake_state \<Rightarrow> fake_state" where
  "unretire k st =
     (case map_of (fs_retired_keys st) k of
        None \<Rightarrow> st
      | Some epoch \<Rightarrow>
          st\<lparr>fs_retired_keys := AList.delete k (fs_retired_keys st),
             fs_retired_index := removeAll (epoch, k) (fs_retired_index st)\<rparr>)"

definition set_fence :: "fake_map_key \<Rightarrow> nat \<Rightarrow> fake_state \<Rightarrow> fake_state" where
  "set_fence k fence st =
     (let st1 = st\<lparr>fs_key_fences := AList.update k fence (fs_key_fences st)\<rparr>;
          st2 = (if is_live st1 k then unretire k st1 else st1)
      in st2\<lparr>fs_candidates := set_insert k (fs_candidates st2)\<rparr>)"

definition key_limit_error :: store_error where
  "key_limit_error = BackendUnavailable ''fake backend tracked-key limit reached''"

definition pending_dead :: "fake_state \<Rightarrow> nat" where
  "pending_dead st =
     length (filter (\<lambda>k. \<not> scope_key k \<and> map_of (fs_retired_keys st) k = None \<and> \<not> is_live st k \<and>
         (case map_of (fs_key_fences st) k of None \<Rightarrow> False | Some f \<Rightarrow> f < fs_next_fence st))
       (fs_candidates st))"

definition ensure_key_capacity :: "fake_state \<Rightarrow> fake_map_key \<Rightarrow> usize \<Rightarrow> (unit, store_error) result" where
  "ensure_key_capacity st k limit =
     (if map_of (fs_key_fences st) k \<noteq> None \<or>
         saturating_add (length (fs_key_fences st)) (fs_internal_keys st) < limit
      then Ok ()
      else
      and_then (ok_or (BackendUnavailable ''fake key capacity index differs'')
        (Option.bind (checked_sub (length (fs_key_fences st)) (length (fs_retired_keys st)))
          (\<lambda>count. checked_sub count (pending_dead st)))) (\<lambda>live.
      if saturating_add live (fs_internal_keys st) < limit then Ok () else Err key_limit_error))"

definition floor_lease :: "nat \<Rightarrow> lease_entry \<Rightarrow> lease_entry" where
  "floor_lease floor e =
     (if le_fence e \<le> floor \<or> le_credential_id e \<le> floor then e\<lparr>le_active := False\<rparr> else e)"

definition apply_async_floor_to_key :: "fake_map_key \<Rightarrow> fake_state \<Rightarrow> fake_state" where
  "apply_async_floor_to_key k st =
     st\<lparr>fs_key_fences := AList.map_entry k (\<lambda>f. max f (fs_async_floor st)) (fs_key_fences st),
        fs_leases := AList.map_entry k (floor_lease (fs_async_floor st)) (fs_leases st)\<rparr>"

definition prune_record :: "fake_map_key \<Rightarrow> fake_state \<Rightarrow> fake_state" where
  "prune_record k st =
     (let st1 = apply_async_floor_to_key k st
      in st1\<lparr>fs_records := AList.delete k (fs_records st1),
             fs_candidates := set_insert k (fs_candidates st1)\<rparr>)"

definition prune_lease :: "fake_map_key \<Rightarrow> fake_state \<Rightarrow> fake_state" where
  "prune_lease k st =
     (let st1 = apply_async_floor_to_key k st
      in st1\<lparr>fs_leases := AList.delete k (fs_leases st1),
             fs_candidates := set_insert k (fs_candidates st1)\<rparr>)"

definition prune_state :: "timestamp \<Rightarrow> fake_state \<Rightarrow> fake_state" where
  "prune_state now st =
     (let st1 = fold prune_record
            (map fst (filter (\<lambda>(k, r). is_expired_at r now) (fs_records st))) st
      in fold prune_lease
           (map fst (filter (\<lambda>(k, e). \<not> le_active e \<or> le_expires_at e \<le> now) (fs_leases st1))) st1)"

text \<open>
  Forgetting the retired keys of the dropped epochs: the index gives them in order, and each is
  checked against the maps before it goes.
\<close>

fun drain_retired ::
  "nat \<Rightarrow> nat \<Rightarrow> (nat \<times> fake_map_key) list \<Rightarrow> fake_state \<Rightarrow> (fake_state, store_error) result" where
  "drain_retired through floor_prev [] st = Ok (st\<lparr>fs_retired_index := []\<rparr>)"
| "drain_retired through floor_prev ((epoch, k) # index) st =
     (if epoch \<le> through
      then if map_of (fs_retired_keys st) k \<noteq> Some epoch \<or>
              (case map_of (fs_key_fences st) k of None \<Rightarrow> True | Some f \<Rightarrow> f \<ge> floor_prev)
           then Err (BackendUnavailable ''fake exact retirement index differs'')
           else drain_retired through floor_prev index
                  (st\<lparr>fs_retired_keys := AList.delete k (fs_retired_keys st),
                      fs_key_fences := AList.delete k (fs_key_fences st)\<rparr>)
      else Ok (st\<lparr>fs_retired_index := (epoch, k) # index\<rparr>))"

definition rotate_keys_with_floor ::
  "rotation_reason \<Rightarrow> nat \<Rightarrow> fake_state \<Rightarrow> (fake_state, store_error) result" where
  "rotate_keys_with_floor reason async_floor st =
     and_then (rotate_epoch (fs_retention st) (fs_next_fence st) max_u64 async_floor reason)
       (\<lambda>(retention, next_fence, through).
     let st1 = st\<lparr>fs_retention := retention, fs_next_fence := next_fence\<rparr> in
     case through of
       None \<Rightarrow> Ok st1
     | Some t \<Rightarrow> drain_retired t (kr_floor_prev retention) (fs_retired_index st1) st1)"

definition rotate_keys :: "rotation_reason \<Rightarrow> fake_state \<Rightarrow> (fake_state, store_error) result" where
  "rotate_keys reason st = rotate_keys_with_floor reason (fs_async_floor st) st"

definition retire_key :: "fake_map_key \<Rightarrow> nat \<Rightarrow> fake_state \<Rightarrow> (fake_state, store_error) result" where
  "retire_key k fence st =
     and_then (ok_or FencedTransitionStorageExhausted
       (checked_add (kr_retired_count (fs_retention st)) 1)) (\<lambda>count.
     let kr = (fs_retention st)\<lparr>kr_retired_count := count,
                kr_retired_max := max (kr_retired_max (fs_retention st)) fence\<rparr>;
         epoch = kr_epoch kr;
         st1 = st\<lparr>fs_retention := kr,
                  fs_retired_keys := AList.update k epoch (fs_retired_keys st),
                  fs_retired_index := set_insert (epoch, k) (fs_retired_index st)\<rparr>
     in if kr_retired_count kr = RETIRED_KEYS_PER_EPOCH then rotate_keys Threshold st1 else Ok st1)"

fun retire_loop :: "fake_map_key list \<Rightarrow> fake_state \<Rightarrow> (fake_state, store_error) result" where
  "retire_loop [] st = Ok st"
| "retire_loop (k # ks) st =
     (if is_live st k then retire_loop ks (unretire k st)
      else if scope_key k \<or> map_of (fs_retired_keys st) k \<noteq> None then retire_loop ks st
      else case map_of (fs_key_fences st) k of
        None \<Rightarrow> retire_loop ks st
      | Some fence \<Rightarrow>
          if fence \<ge> fs_next_fence st then retire_loop ks st
          else and_then (retire_key k fence st) (retire_loop ks))"

definition retire_dead_keys :: "fake_state \<Rightarrow> (fake_state, store_error) result" where
  "retire_dead_keys st = retire_loop (fs_candidates st) (st\<lparr>fs_candidates := []\<rparr>)"

lemma drain_retired_retention:
  "drain_retired t fp index st = Ok st' \<Longrightarrow> fs_retention st' = fs_retention st"
  by (induction t fp index st rule: drain_retired.induct) (auto split: if_splits)

lemma rotate_keys_epoch:
  assumes "rotate_keys reason st = Ok st'"
  shows "kr_epoch (fs_retention st') = Suc (kr_epoch (fs_retention st))" "kr_epoch (fs_retention st) < max_u64"
proof -
  from assms obtain kr nf through where rot:
    "rotate_epoch (fs_retention st) (fs_next_fence st) max_u64 (fs_async_floor st) reason = Ok (kr, nf, through)"
    and st': "(case through of None \<Rightarrow> Ok (st\<lparr>fs_retention := kr, fs_next_fence := nf\<rparr>)
       | Some t \<Rightarrow> drain_retired t (kr_floor_prev kr) (fs_retired_index st)
           (st\<lparr>fs_retention := kr, fs_next_fence := nf\<rparr>)) = Ok st'"
    by (auto simp: rotate_keys_def rotate_keys_with_floor_def outcome_simps Let_def)
  have "fs_retention st' = kr"
    using st' by (auto split: option.splits dest: drain_retired_retention)
  with rot show "kr_epoch (fs_retention st') = Suc (kr_epoch (fs_retention st))"
    "kr_epoch (fs_retention st) < max_u64"
    by (auto simp: rotate_epoch_Ok_iff Let_def)
qed

text \<open>The capacity loop; its rotation counter is an octet.\<close>

function finalize_loop :: "usize \<Rightarrow> nat \<Rightarrow> fake_state \<Rightarrow> (nat \<times> fake_state, store_error) result" where
  "finalize_loop maximum rotations st =
     (if saturating_add (length (fs_key_fences st)) (fs_internal_keys st) > maximum
      then if fs_retired_keys st = [] then Err key_limit_error
           else and_then (rotate_keys Capacity st) (\<lambda>st'.
                if rotations = 255 then Panic else finalize_loop maximum (rotations + 1) st')
      else Ok (rotations, st))"
  by pat_completeness auto
termination
  by (relation "measure (\<lambda>(maximum, rotations, st). max_u64 - kr_epoch (fs_retention st))")
    (simp, frule rotate_keys_epoch(2), drule rotate_keys_epoch(1), simp)

declare finalize_loop.simps [simp del]

definition finalize_key_capacity :: "usize \<Rightarrow> fake_state \<Rightarrow> (nat \<times> fake_state, store_error) result" where
  "finalize_key_capacity maximum st = finalize_loop maximum 0 st"

section \<open>Fenced mutations\<close>

definition validate_fenced_mutation ::
  "fake_state \<Rightarrow> lease_guard \<Rightarrow> timestamp \<Rightarrow> (fake_map_key, store_error) result" where
  "validate_fenced_mutation st lease now =
     (let k = map_key (lg_key lease) in
      if lg_expires_at lease \<le> now \<and> map_of (fs_key_fences st) k = None then Err LeaseExpired
      else if lg_fence lease < current_fence st k then Err StaleFence
      else if lg_expires_at lease \<le> now then Err LeaseExpired
      else case map_of (fs_leases st) k of
        None \<Rightarrow> Err StaleFence
      | Some entry \<Rightarrow>
          if \<not> le_active entry then Err StaleFence
          else if le_credential_id entry \<noteq> lg_credential_id lease then Err StaleFence
          else if le_owner entry \<noteq> lg_owner lease then Err StaleFence
          else if le_fence entry \<noteq> lg_fence lease then Err StaleFence
          else if le_guard_expires_at entry \<noteq> lg_expires_at lease then Err StaleFence
          else if lg_expires_at lease \<le> now then Err LeaseExpired
          else if le_expires_at entry \<le> now then Err LeaseExpired
          else Ok k)"

record compare_and_set =
  cas_key :: session_key
  cas_lease :: lease_guard
  cas_expected :: "nat option"
  cas_record :: stored_record

datatype cas_result = CasSuccess | CasConflictWith "stored_record option"

text \<open>The write of a compare-and-set whose expectation holds.\<close>

definition put_record :: "fake_map_key \<Rightarrow> stored_record \<Rightarrow> nat \<Rightarrow> fake_state \<Rightarrow> fake_state" where
  "put_record k r fence st = set_fence k fence (st\<lparr>fs_records := AList.update k r (fs_records st)\<rparr>)"

definition generation_conflict :: "stored_record \<Rightarrow> stored_record \<Rightarrow> bool" where
  "generation_conflict current new \<longleftrightarrow>
     (requires_monotonic_generation (sr_state_class current) \<or>
      requires_monotonic_generation (sr_state_class new)) \<and>
     sr_generation new \<le> sr_generation current"

definition compare_and_set_with_state ::
  "fake_config \<Rightarrow> fake_state \<Rightarrow> compare_and_set \<Rightarrow> timestamp
     \<Rightarrow> (fake_state \<times> cas_result, store_error) result" where
  "compare_and_set_with_state cfg st op now =
     and_then (validate_stored_record_expiry_at (cas_record op) now) (\<lambda>_.
     if \<not> cap_atomic_compare_and_set (fc_caps cfg)
     then Err (CapabilityNotSupported ''atomic_compare_and_set'')
     else if \<not> cap_monotonic_fencing_token (fc_caps cfg)
     then Err (CapabilityNotSupported ''monotonic_fencing_token'')
     else if lg_key (cas_lease op) \<noteq> cas_key op
     then Err (InvalidKey ''compare-and-set key does not match lease key'')
     else if sr_key (cas_record op) \<noteq> cas_key op
     then Err (InvalidKey ''compare-and-set key does not match record key'')
     else if sr_owner (cas_record op) \<noteq> lg_owner (cas_lease op) \<or>
             sr_fence (cas_record op) \<noteq> lg_fence (cas_lease op)
     then Err StaleFence
     else if length (pl_bytes (sr_payload (cas_record op))) > cap_max_value_bytes (fc_caps cfg)
     then Err (PayloadTooLarge (length (pl_bytes (sr_payload (cas_record op))))
            (cap_max_value_bytes (fc_caps cfg)))
     else
     and_then (validate_fenced_mutation st (cas_lease op) now) (\<lambda>k.
     if lg_fence (cas_lease op) < current_fence st k then Err StaleFence
     else
     and_then (ensure_key_capacity st k (max_tracked_keys (fc_limits cfg))) (\<lambda>_.
     let existing = (case map_of (fs_records st) k of
           None \<Rightarrow> None | Some r \<Rightarrow> if is_expired_at r now then None else Some r);
         written = (put_record k (cas_record op) (lg_fence (cas_lease op)) st, CasSuccess)
     in case (cas_expected op, existing) of
          (None, None) \<Rightarrow> Ok written
        | (Some expected, Some current) \<Rightarrow>
            if sr_generation current \<noteq> expected then Ok (st, CasConflictWith (Some current))
            else if generation_conflict current (cas_record op)
            then Ok (st, CasConflictWith (Some current))
            else Ok written
        | (None, Some current) \<Rightarrow> Ok (st, CasConflictWith (Some current))
        | (Some _, None) \<Rightarrow> Ok (st, CasConflictWith None))))"

definition delete_fenced_with_state ::
  "fake_config \<Rightarrow> fake_state \<Rightarrow> lease_guard \<Rightarrow> timestamp \<Rightarrow> (fake_state, store_error) result" where
  "delete_fenced_with_state cfg st lease now =
     (if \<not> cap_monotonic_fencing_token (fc_caps cfg)
      then Err (CapabilityNotSupported ''monotonic_fencing_token'')
      else
      and_then (validate_fenced_mutation st lease now) (\<lambda>k.
      if lg_fence lease < current_fence st k then Err StaleFence
      else
      and_then (ensure_key_capacity st k (max_tracked_keys (fc_limits cfg))) (\<lambda>_.
      Ok (set_fence k (lg_fence lease) (st\<lparr>fs_records := AList.delete k (fs_records st)\<rparr>)))))"

definition refresh_ttl_with_state ::
  "fake_config \<Rightarrow> fake_state \<Rightarrow> lease_guard \<Rightarrow> duration \<Rightarrow> timestamp
     \<Rightarrow> (fake_state \<times> timestamp, store_error) result" where
  "refresh_ttl_with_state cfg st lease ttl now =
     and_then (checked_session_deadline now ttl) (\<lambda>expires_at.
     if \<not> cap_per_key_ttl (fc_caps cfg) then Err (CapabilityNotSupported ''per_key_ttl'')
     else if \<not> cap_monotonic_fencing_token (fc_caps cfg)
     then Err (CapabilityNotSupported ''monotonic_fencing_token'')
     else
     and_then (validate_fenced_mutation st lease now) (\<lambda>k.
     if lg_fence lease < current_fence st k then Err StaleFence
     else
     and_then (ensure_key_capacity st k (max_tracked_keys (fc_limits cfg))) (\<lambda>_.
     case map_of (fs_records st) k of
       None \<Rightarrow> Err NotFound
     | Some r \<Rightarrow>
         if is_expired_at r now then Err NotFound
         else Ok (put_record k (r\<lparr>sr_expires_at := Some expires_at\<rparr>) (lg_fence lease) st, expires_at))))"

section \<open>The log and publication\<close>

definition hex_digit :: "nat \<Rightarrow> char" where
  "hex_digit n = ''0123456789abcdef'' ! n"

definition encode_lower :: "bytes \<Rightarrow> string" where
  "encode_lower bs = concat (map (\<lambda>b. [hex_digit (unat b div 16), hex_digit (unat b mod 16)]) bs)"

definition u64_bytes :: "nat \<Rightarrow> bytes" where
  "u64_bytes n = map (\<lambda>i. word_of_nat (n div 256 ^ i mod 256)) [7, 6, 5, 4, 3, 2, 1, 0]"

definition from_request_bytes :: "bytes \<Rightarrow> string" where
  "from_request_bytes request_id = encode_lower request_id"

definition compact_replication_log :: "usize \<Rightarrow> fake_state \<Rightarrow> fake_state" where
  "compact_replication_log limit st =
     (if length (fs_log st) \<le> limit then st
      else if limit = 0
      then st\<lparr>fs_log := [], fs_compacted := max (fs_compacted st) (re_sequence (last (fs_log st)))\<rparr>
      else let drop_count = length (fs_log st) - limit in
        st\<lparr>fs_log := drop drop_count (fs_log st),
           fs_compacted := max (fs_compacted st) (re_sequence (fs_log st ! (drop_count - 1)))\<rparr>)"

definition require_complete_replay_command :: "fake_state \<Rightarrow> (unit, store_error) result" where
  "require_complete_replay_command st =
     (if fs_pending st \<noteq> None then Err (BackendUnavailable ''replication command is incomplete'')
      else Ok ())"

definition next_direct_replication_sequence ::
  "fake_config \<Rightarrow> fake_state \<Rightarrow> (nat option, store_error) result" where
  "next_direct_replication_sequence cfg st =
     and_then (require_complete_replay_command st) (\<lambda>_.
     if \<not> cap_ordered_replication_log (fc_caps cfg) then Ok None
     else and_then (next_replication_sequence (fs_last_sequence st)) (\<lambda>n. Ok (Some n)))"

definition direct_entry ::
  "nat \<Rightarrow> replication_op \<Rightarrow> timestamp \<Rightarrow> replay_policy \<Rightarrow> replication_entry" where
  "direct_entry sequence op t policy =
     \<lparr>re_sequence = sequence, re_tx_id = from_request_bytes (replicate 8 0 @ u64_bytes sequence),
      re_op = op, re_timestamp = t, re_policy = policy\<rparr>"

definition append_entry :: "fake_config \<Rightarrow> replication_entry \<Rightarrow> fake_state \<Rightarrow> fake_state" where
  "append_entry cfg e st =
     compact_replication_log (max_replication_entries (fc_limits cfg))
       (st\<lparr>fs_last_sequence := re_sequence e, fs_log := fs_log st @ [e]\<rparr>)"

definition append_direct_replication_entry ::
  "fake_config \<Rightarrow> nat option \<Rightarrow> replication_op \<Rightarrow> timestamp \<Rightarrow> replay_policy \<Rightarrow> fake_state
     \<Rightarrow> replication_entry option \<times> fake_state" where
  "append_direct_replication_entry cfg seqn op t policy st =
     (case seqn of
        None \<Rightarrow> (None, st)
      | Some n \<Rightarrow> let e = direct_entry n op t policy in (Some e, append_entry cfg e st))"

text \<open>Publication drops the expiry marks of the records that changed.\<close>

definition publish_staged_data :: "fake_state \<Rightarrow> fake_backend \<Rightarrow> fake_backend" where
  "publish_staged_data staged be =
     be\<lparr>fb_hidden := filter (\<lambda>k. map_of (fs_records (fb_state be)) k = map_of (fs_records staged) k)
          (fb_hidden be),
        fb_state := staged\<rparr>"

definition notify_watchers :: "replication_entry \<Rightarrow> fake_backend \<Rightarrow> fake_backend" where
  "notify_watchers e be = be\<lparr>fb_notified := fb_notified be @ [e]\<rparr>"

definition direct_policy :: "fake_state \<Rightarrow> nat \<Rightarrow> replay_policy" where
  "direct_policy staged rotations =
     policy_prune_and_retire\<lparr>policy_async_floor := fs_async_floor staged,
       policy_internal_keys := fs_internal_keys staged, capacity_rotations := rotations\<rparr>"

definition commit_direct_data ::
  "fake_config \<Rightarrow> fake_backend \<Rightarrow> fake_state \<Rightarrow> nat option \<Rightarrow> replication_op \<Rightarrow> timestamp
     \<Rightarrow> (fake_backend, store_error) result" where
  "commit_direct_data cfg be staged seqn op t =
     and_then (retire_dead_keys staged) (\<lambda>st1.
     and_then (finalize_key_capacity (max_tracked_keys (fc_limits cfg)) st1) (\<lambda>(rotations, st2).
     and_then (if seqn \<noteq> None then validate_structure op else Ok ()) (\<lambda>_.
     let policy = direct_policy st2 rotations in
     and_then (policy_validate policy) (\<lambda>_.
     let (entry, st3) = append_direct_replication_entry cfg seqn op t policy st2;
         be1 = publish_staged_data (st3\<lparr>fs_committed_time := Some t\<rparr>) be
     in Ok (case entry of
          Some e \<Rightarrow> if cap_watch (fc_caps cfg) then notify_watchers e be1 else be1
        | None \<Rightarrow> be1)))))"

text \<open>
  An operation that fails leaves the backend as it was when the failure was found: with its
  sampled time and the marks of its reads, but without staged data.
\<close>

definition finish ::
  "fake_backend \<Rightarrow> (fake_backend \<times> 'a, 'e) result \<Rightarrow> fake_backend \<times> ('a, 'e) result" where
  "finish be m =
     (case m of Ok (be', v) \<Rightarrow> (be', Ok v) | Err e \<Rightarrow> (be, Err e) | Panic \<Rightarrow> (be, Panic))"

section \<open>Store operations\<close>

definition cas_replication_op :: "compare_and_set \<Rightarrow> replication_op" where
  "cas_replication_op op =
     OpCompareAndSet (cas_key op) (cas_expected op) (lg_credential_id (cas_lease op))
       (lg_expires_at (cas_lease op)) (cas_record op)"

definition backend_compare_and_set ::
  "fake_config \<Rightarrow> timestamp \<Rightarrow> compare_and_set \<Rightarrow> fake_backend
     \<Rightarrow> fake_backend \<times> (cas_result, store_error) result" where
  "backend_compare_and_set cfg clock op be =
     (let (now, be1) = command_time clock be;
          be2 = snd (get_for_read be1 (cas_key op) now)
      in finish be2 (
        and_then (validate_stored_record_expiry_at (cas_record op) now) (\<lambda>_.
        let st = prune_state now (fb_state be2) in
        and_then (next_direct_replication_sequence cfg st) (\<lambda>seqn.
        and_then (compare_and_set_with_state cfg st op now) (\<lambda>(st', result).
        if result = CasSuccess
        then and_then (commit_direct_data cfg be2 st' seqn (cas_replication_op op) now) (\<lambda>be3.
             Ok (be3, result))
        else Ok (be2, result))))))"

definition delete_replication_op :: "lease_guard \<Rightarrow> replication_op" where
  "delete_replication_op lease = OpDeleteFenced (lg_key lease) (lg_owner lease) (lg_fence lease)"

definition backend_delete_fenced ::
  "fake_config \<Rightarrow> timestamp \<Rightarrow> lease_guard \<Rightarrow> fake_backend
     \<Rightarrow> fake_backend \<times> (unit, store_error) result" where
  "backend_delete_fenced cfg clock lease be =
     (let (now, be1) = command_time clock be;
          st = prune_state now (fb_state be1)
      in finish be1 (
        and_then (next_direct_replication_sequence cfg st) (\<lambda>seqn.
        and_then (delete_fenced_with_state cfg st lease now) (\<lambda>st'.
        and_then (commit_direct_data cfg be1 st' seqn (delete_replication_op lease) now) (\<lambda>be2.
        Ok (be2, ()))))))"

definition refresh_replication_op :: "lease_guard \<Rightarrow> duration \<Rightarrow> timestamp \<Rightarrow> replication_op" where
  "refresh_replication_op lease ttl expires_at =
     OpRefreshTtl (lg_key lease) (lg_owner lease) (lg_fence lease) ttl expires_at"

definition backend_refresh_ttl ::
  "fake_config \<Rightarrow> timestamp \<Rightarrow> lease_guard \<Rightarrow> duration \<Rightarrow> fake_backend
     \<Rightarrow> fake_backend \<times> (unit, store_error) result" where
  "backend_refresh_ttl cfg clock lease ttl be =
     (case validate_session_ttl ttl of
        Err e \<Rightarrow> (be, Err e)
      | Panic \<Rightarrow> (be, Panic)
      | Ok _ \<Rightarrow>
          let (now, be1) = command_time clock be;
              be2 = snd (get_for_read be1 (lg_key lease) now)
          in finish be2 (
            and_then (checked_session_deadline now ttl) (\<lambda>_.
            let st = prune_state now (fb_state be2) in
            and_then (next_direct_replication_sequence cfg st) (\<lambda>seqn.
            and_then (refresh_ttl_with_state cfg st lease ttl now) (\<lambda>(st', expires_at).
            and_then (commit_direct_data cfg be2 st' seqn
              (refresh_replication_op lease ttl expires_at) now) (\<lambda>be3.
            Ok (be3, ())))))))"

section \<open>The lease manager\<close>

definition lease_held_by_other :: "fake_state \<Rightarrow> fake_map_key \<Rightarrow> string \<Rightarrow> timestamp \<Rightarrow> bool" where
  "lease_held_by_other st k owner now \<longleftrightarrow>
     (case map_of (fs_leases st) k of
        None \<Rightarrow> False
      | Some e \<Rightarrow> le_active e \<and> le_owner e \<noteq> owner \<and> le_expires_at e > now)"

definition capacity_lease_error :: "store_error \<Rightarrow> lease_error" where
  "capacity_lease_error err =
     (case err of BackendUnavailable m \<Rightarrow> LeaseBackend m | other \<Rightarrow> lease_error_from other)"

definition install_lease ::
  "fake_map_key \<Rightarrow> lease_entry \<Rightarrow> fake_state \<Rightarrow> fake_state" where
  "install_lease k e st =
     set_fence k (le_fence e) (st\<lparr>fs_leases := AList.update k e (fs_leases st)\<rparr>)"

definition backend_acquire ::
  "fake_config \<Rightarrow> timestamp \<Rightarrow> session_key \<Rightarrow> string \<Rightarrow> duration \<Rightarrow> fake_backend
     \<Rightarrow> fake_backend \<times> (lease_guard, lease_error) result" where
  "backend_acquire cfg clock key owner ttl be =
     (case map_err lease_error_from (validate_session_ttl ttl) of
        Err e \<Rightarrow> (be, Err e)
      | Panic \<Rightarrow> (be, Panic)
      | Ok _ \<Rightarrow>
          let (now, be1) = command_time clock be in
          finish be1 (
            and_then (map_err lease_error_from (checked_session_deadline now ttl)) (\<lambda>expires_at.
            let st0 = prune_state now (fb_state be1) in
            and_then (map_err lease_error_from (next_direct_replication_sequence cfg st0)) (\<lambda>seqn.
            let k = map_key key;
                st = apply_async_floor_to_key k st0
            in
            if lease_held_by_other st k owner now then Err AlreadyHeld
            else
            and_then (map_err capacity_lease_error
              (ensure_key_capacity st k (max_tracked_keys (fc_limits cfg)))) (\<lambda>_.
            and_then (ok_or (LeaseBackend ''fence token exhausted'')
              (checked_add (current_fence st k) 1)) (\<lambda>next_for_key.
            let fence = max (fs_next_fence st) next_for_key;
                credential_id = fs_next_credential st;
                entry = \<lparr>le_active = True, le_credential_id = credential_id, le_owner = owner,
                         le_fence = fence, le_acquired_at = now, le_expires_at = expires_at,
                         le_guard_expires_at = expires_at\<rparr>;
                st' = install_lease k entry
                  (st\<lparr>fs_next_fence := saturating_add fence 1,
                      fs_next_credential := saturating_add (fs_next_credential st) 1\<rparr>)
            in
            and_then (map_err lease_error_from (commit_direct_data cfg be1 st' seqn
              (OpAcquireLease key owner fence credential_id ttl expires_at) now)) (\<lambda>be2.
            Ok (be2, \<lparr>lg_key = key, lg_owner = owner, lg_fence = fence, lg_acquired_at = now,
                      lg_expires_at = expires_at, lg_credential_id = credential_id\<rparr>))))))))"

text \<open>The common checks of renewal and release on the lease entry.\<close>

definition guard_floor_stale :: "fake_state \<Rightarrow> lease_guard \<Rightarrow> bool" where
  "guard_floor_stale st lease \<longleftrightarrow>
     lg_fence lease \<le> fs_async_floor st \<or> lg_credential_id lease \<le> fs_async_floor st"

definition match_lease ::
  "fake_state \<Rightarrow> lease_guard \<Rightarrow> (lease_entry, lease_error) result" where
  "match_lease st lease =
     (let k = map_key (lg_key lease) in
      case map_of (fs_leases st) k of
        None \<Rightarrow> if lg_fence lease \<le> current_fence st k then Err LeaseStaleFence else Err LeaseNotFound
      | Some entry \<Rightarrow>
          if \<not> le_active entry then Err LeaseStaleFence
          else if le_credential_id entry \<noteq> lg_credential_id lease then Err LeaseStaleFence
          else if le_owner entry \<noteq> lg_owner lease then Err AlreadyHeld
          else if le_fence entry \<noteq> lg_fence lease \<or> le_guard_expires_at entry \<noteq> lg_expires_at lease
          then Err LeaseStaleFence
          else Ok entry)"

definition backend_renew ::
  "fake_config \<Rightarrow> timestamp \<Rightarrow> lease_guard \<Rightarrow> duration \<Rightarrow> fake_backend
     \<Rightarrow> fake_backend \<times> (lease_guard, lease_error) result" where
  "backend_renew cfg clock lease ttl be =
     (case map_err lease_error_from (validate_session_ttl ttl) of
        Err e \<Rightarrow> (be, Err e)
      | Panic \<Rightarrow> (be, Panic)
      | Ok _ \<Rightarrow>
          let (now, be1) = command_time clock be in
          finish be1 (
            and_then (map_err lease_error_from (checked_session_deadline now ttl)) (\<lambda>expires_at.
            let st0 = prune_state now (fb_state be1) in
            and_then (map_err lease_error_from (next_direct_replication_sequence cfg st0)) (\<lambda>seqn.
            let k = map_key (lg_key lease);
                st = apply_async_floor_to_key k st0
            in
            if guard_floor_stale st lease then Err LeaseStaleFence
            else if lg_expires_at lease \<le> now then Err Expired
            else
            and_then (match_lease st lease) (\<lambda>entry.
            if le_expires_at entry \<le> now then Err Expired
            else
            let entry' = entry\<lparr>le_expires_at := expires_at, le_guard_expires_at := expires_at\<rparr>;
                st' = st\<lparr>fs_leases := AList.update k entry' (fs_leases st)\<rparr>
            in
            and_then (map_err lease_error_from (commit_direct_data cfg be1 st' seqn
              (OpRenewLease (lg_key lease) (lg_owner lease) (lg_fence lease) (le_credential_id entry)
                 ttl expires_at) now)) (\<lambda>be2.
            Ok (be2, \<lparr>lg_key = lg_key lease, lg_owner = lg_owner lease, lg_fence = lg_fence lease,
                      lg_acquired_at = lg_acquired_at lease, lg_expires_at = expires_at,
                      lg_credential_id = le_credential_id entry\<rparr>)))))))"

definition backend_release ::
  "fake_config \<Rightarrow> timestamp \<Rightarrow> lease_guard \<Rightarrow> fake_backend
     \<Rightarrow> fake_backend \<times> (unit, lease_error) result" where
  "backend_release cfg clock lease be =
     (let (now, be1) = command_time clock be;
          st0 = prune_state now (fb_state be1)
      in finish be1 (
        and_then (map_err lease_error_from (next_direct_replication_sequence cfg st0)) (\<lambda>seqn.
        let k = map_key (lg_key lease);
            st = apply_async_floor_to_key k st0
        in
        if guard_floor_stale st lease then Err LeaseStaleFence
        else
        and_then (match_lease st lease) (\<lambda>entry.
        let entry' = entry\<lparr>le_active := False, le_guard_expires_at := now\<rparr>;
            st' = st\<lparr>fs_leases := AList.update k entry' (fs_leases st)\<rparr>
        in
        and_then (map_err lease_error_from (commit_direct_data cfg be1 st' seqn
          (OpReleaseLease (lg_key lease) (lg_owner lease) (lg_fence lease) (lg_credential_id lease))
          now)) (\<lambda>be2.
        Ok (be2, ()))))))"

section \<open>Batches\<close>

datatype session_op =
    SGet session_key
  | SCompareAndSet compare_and_set
  | SDeleteFenced lease_guard
  | SRefreshTtl lease_guard duration

datatype session_op_result =
    RGet "(stored_record option, store_error) result"
  | RCompareAndSet "(cas_result, store_error) result"
  | RDeleteFenced "(unit, store_error) result"
  | RRefreshTtl "(unit, store_error) result"

fun op_validate_ttls :: "session_op \<Rightarrow> (unit, store_error) result" where
  "op_validate_ttls (SRefreshTtl _ ttl) = validate_session_ttl ttl"
| "op_validate_ttls _ = Ok ()"

fun op_validate_record_expiry_at :: "timestamp \<Rightarrow> session_op \<Rightarrow> (unit, store_error) result" where
  "op_validate_record_expiry_at t (SCompareAndSet op) = validate_stored_record_expiry_at (cas_record op) t"
| "op_validate_record_expiry_at t _ = Ok ()"

fun op_validate_deadline :: "timestamp \<Rightarrow> session_op \<Rightarrow> (unit, store_error) result" where
  "op_validate_deadline t (SRefreshTtl _ ttl) = and_then (checked_session_deadline t ttl) (\<lambda>_. Ok ())"
| "op_validate_deadline t _ = Ok ()"

fun try_for_each :: "('a \<Rightarrow> (unit, 'e) result) \<Rightarrow> 'a list \<Rightarrow> (unit, 'e) result" where
  "try_for_each f [] = Ok ()"
| "try_for_each f (x # xs) = and_then (f x) (\<lambda>_. try_for_each f xs)"

definition validate_session_ops_at :: "session_op list \<Rightarrow> timestamp \<Rightarrow> (unit, store_error) result" where
  "validate_session_ops_at ops t =
     and_then (try_for_each op_validate_ttls ops) (\<lambda>_. try_for_each (op_validate_record_expiry_at t) ops)"

fun is_write :: "session_op \<Rightarrow> bool" where
  "is_write (SGet _) = False"
| "is_write _ = True"

text \<open>The data a batch threads through its slots.\<close>

record batch_state =
  bs_state :: fake_state
  bs_replication :: "replication_op list"
  bs_expired :: "stored_record list"
  bs_results :: "session_op_result list"

text \<open>A failing slot keeps the state of the earlier ones; a panic ends the batch.\<close>

fun batch_slot ::
  "fake_config \<Rightarrow> fake_backend \<Rightarrow> timestamp \<Rightarrow> session_op \<Rightarrow> batch_state \<Rightarrow> (batch_state, store_error) result" where
  "batch_slot cfg be now (SGet key) b =
     (let k = map_key key;
          current = map_of (fs_records (bs_state b)) k;
          prior = map_of (fs_records (fb_state be)) k;
          observed = (case current of Some r \<Rightarrow> Some r | None \<Rightarrow> prior);
          visible = (case current of
             None \<Rightarrow> None
           | Some r \<Rightarrow> if \<not> is_expired_at r now \<and> (Some r \<noteq> prior \<or> \<not> record_hidden be k)
                       then Some r else None)
      in Ok (b\<lparr>bs_expired := bs_expired b @
                 (case observed of None \<Rightarrow> [] | Some r \<Rightarrow> if is_expired_at r now then [r] else []),
               bs_results := bs_results b @ [RGet (Ok visible)]\<rparr>))"
| "batch_slot cfg be now (SCompareAndSet op) b =
     (case compare_and_set_with_state cfg (bs_state b) op now of
        Panic \<Rightarrow> Panic
      | Err e \<Rightarrow> Ok (b\<lparr>bs_results := bs_results b @ [RCompareAndSet (Err e)]\<rparr>)
      | Ok (st', result) \<Rightarrow>
          let b1 = b\<lparr>bs_results := bs_results b @ [RCompareAndSet (Ok result)]\<rparr> in
          Ok (if result = CasSuccess
              then b1\<lparr>bs_state := st', bs_replication := bs_replication b1 @ [cas_replication_op op]\<rparr>
              else b1))"
| "batch_slot cfg be now (SDeleteFenced lease) b =
     (case delete_fenced_with_state cfg (bs_state b) lease now of
        Panic \<Rightarrow> Panic
      | Err e \<Rightarrow> Ok (b\<lparr>bs_results := bs_results b @ [RDeleteFenced (Err e)]\<rparr>)
      | Ok st' \<Rightarrow>
          Ok (b\<lparr>bs_state := st', bs_replication := bs_replication b @ [delete_replication_op lease],
                bs_results := bs_results b @ [RDeleteFenced (Ok ())]\<rparr>))"
| "batch_slot cfg be now (SRefreshTtl lease ttl) b =
     (case refresh_ttl_with_state cfg (bs_state b) lease ttl now of
        Panic \<Rightarrow> Panic
      | Err e \<Rightarrow> Ok (b\<lparr>bs_results := bs_results b @ [RRefreshTtl (Err e)]\<rparr>)
      | Ok (st', expires_at) \<Rightarrow>
          Ok (b\<lparr>bs_state := st',
                bs_replication := bs_replication b @ [refresh_replication_op lease ttl expires_at],
                bs_results := bs_results b @ [RRefreshTtl (Ok ())]\<rparr>))"

fun batch_loop ::
  "fake_config \<Rightarrow> fake_backend \<Rightarrow> timestamp \<Rightarrow> session_op list \<Rightarrow> batch_state
     \<Rightarrow> (batch_state, store_error) result" where
  "batch_loop cfg be now [] b = Ok b"
| "batch_loop cfg be now (op # ops) b = and_then (batch_slot cfg be now op b) (batch_loop cfg be now ops)"

definition mark_expired :: "timestamp \<Rightarrow> stored_record \<Rightarrow> fake_backend \<Rightarrow> fake_backend" where
  "mark_expired now r be =
     (if map_of (fs_records (fb_state be)) (map_key (sr_key r)) = Some r
      then snd (record_expired be r now) else be)"

definition batch_body ::
  "fake_config \<Rightarrow> timestamp \<Rightarrow> session_op list \<Rightarrow> fake_backend
     \<Rightarrow> (fake_backend \<times> session_op_result list, store_error) result" where
  "batch_body cfg now ops be =
     and_then (validate_session_ops_at ops now) (\<lambda>_.
     and_then (try_for_each (op_validate_deadline now) ops) (\<lambda>_.
     if \<not> cap_batch_write (fc_caps cfg) then Err (CapabilityNotSupported ''batch_write'')
     else
     let st = (if list_ex is_write ops then prune_state now (fb_state be) else fb_state be) in
     and_then (batch_loop cfg be now ops
       \<lparr>bs_state = st, bs_replication = [], bs_expired = [], bs_results = []\<rparr>) (\<lambda>b.
     and_then
       (if bs_replication b \<noteq> []
        then and_then (next_direct_replication_sequence cfg (fb_state be)) (\<lambda>seqn.
             commit_direct_data cfg be (bs_state b) seqn (OpBatch (bs_replication b)) now)
        else Ok be) (\<lambda>be'.
     Ok (fold (mark_expired now) (bs_expired b) be', bs_results b)))))"

definition backend_batch ::
  "fake_config \<Rightarrow> timestamp \<Rightarrow> session_op list \<Rightarrow> fake_backend
     \<Rightarrow> fake_backend \<times> (session_op_result list, store_error) result" where
  "backend_batch cfg clock ops be =
     (if list_ex is_write ops
      then case require_complete_replay_command (fb_state be) of
          Err e \<Rightarrow> (be, Err e)
        | Panic \<Rightarrow> (be, Panic)
        | Ok _ \<Rightarrow> (case command_time clock be of (now, be1) \<Rightarrow> finish be1 (batch_body cfg now ops be1))
      else finish be (batch_body cfg clock ops be))"

section \<open>Reading the log\<close>

definition max_replication_sequence :: "fake_backend \<Rightarrow> nat" where
  "max_replication_sequence be = fs_last_sequence (fb_state be)"

definition next_lease_info :: "fake_backend \<Rightarrow> nat \<times> nat" where
  "next_lease_info be = (fs_next_fence (fb_state be), fs_next_credential (fb_state be))"

definition get_replication_log ::
  "nat \<Rightarrow> nat \<Rightarrow> fake_backend \<Rightarrow> (replication_entry list, store_error) result" where
  "get_replication_log start limit be =
     and_then (log_range_try_new start limit) (\<lambda>r.
     if lr_last r = None then Ok []
     else
     and_then (range_not_compacted r (fs_compacted (fb_state be))) (\<lambda>_.
     validate_replication_log_page start limit
       (take (lr_limit r) (filter (\<lambda>e. re_sequence e \<ge> lr_first r) (fs_log (fb_state be))))))"

end
