(* ===== verification/Session_Invariant.thy ===== *)
theory Session_Invariant
  imports Session_Store
begin

text \<open>
  The invariant of the in-memory session backend, its preservation by every internal step, and
  the growth of fences across pruning, retirement, rotation and the fenced mutations.
\<close>

section \<open>The invariant\<close>

definition keys_ok :: "fake_state \<Rightarrow> bool" where
  "keys_ok st \<longleftrightarrow>
     distinct (map fst (fs_records st)) \<and> distinct (map fst (fs_leases st)) \<and>
     distinct (map fst (fs_key_fences st)) \<and> distinct (map fst (fs_retired_keys st)) \<and>
     sorted_wrt (<) (fs_candidates st)"

definition tracked_ok :: "fake_state \<Rightarrow> bool" where
  "tracked_ok st \<longleftrightarrow> (\<forall>k. is_live st k \<longrightarrow> map_of (fs_key_fences st) k \<noteq> None)"

definition bounds_ok :: "fake_state \<Rightarrow> bool" where
  "bounds_ok st \<longleftrightarrow>
     fs_next_fence st \<le> max_u64 \<and> fs_next_credential st \<le> max_u64 \<and>
     fs_async_floor st < fs_next_fence st \<and> fs_async_floor st < fs_next_credential st \<and>
     (fs_next_fence st < max_u64 \<longrightarrow>
        (\<forall>k f. map_of (fs_key_fences st) k = Some f \<longrightarrow> f < fs_next_fence st)) \<and>
     (fs_next_credential st < max_u64 \<longrightarrow>
        (\<forall>k e. map_of (fs_leases st) k = Some e \<longrightarrow> le_credential_id e < fs_next_credential st))"

definition leases_ok :: "fake_state \<Rightarrow> bool" where
  "leases_ok st \<longleftrightarrow>
     (\<forall>k e. map_of (fs_leases st) k = Some e \<longrightarrow> le_active e \<longrightarrow>
        map_of (fs_key_fences st) k = Some (le_fence e))"

definition retired_ok :: "fake_state \<Rightarrow> bool" where
  "retired_ok st \<longleftrightarrow>
     sorted_wrt (<) (fs_retired_index st) \<and>
     (\<forall>e k. (e, k) \<in> set (fs_retired_index st) \<longleftrightarrow> map_of (fs_retired_keys st) k = Some e) \<and>
     (\<forall>k e. map_of (fs_retired_keys st) k = Some e \<longrightarrow>
        \<not> is_live st k \<and> \<not> scope_key k \<and>
        (\<exists>f. map_of (fs_key_fences st) k = Some f \<and> valid_retired_fence (fs_retention st) e f))"

definition store_ok :: "fake_state \<Rightarrow> bool" where
  "store_ok st \<longleftrightarrow> keys_ok st \<and> tracked_ok st \<and> bounds_ok st \<and> leases_ok st \<and> retired_ok st"

lemmas store_ok_defs = store_ok_def keys_ok_def tracked_ok_def bounds_ok_def leases_ok_def
  retired_ok_def

text \<open>Fences only grow from one state to the next.\<close>

definition fences_grow :: "fake_state \<Rightarrow> fake_state \<Rightarrow> bool" where
  "fences_grow st st' \<longleftrightarrow> (\<forall>k. current_fence st k \<le> current_fence st' k)"

lemma fences_grow_refl [simp]: "fences_grow st st"
  by (simp add: fences_grow_def)

lemma fences_grow_trans: "fences_grow st st' \<Longrightarrow> fences_grow st' st'' \<Longrightarrow> fences_grow st st''"
  by (meson fences_grow_def order_trans)

lemma store_ok_empty: "store_ok state_empty"
  by (simp add: store_ok_defs state_empty_def is_live_def max_u64_def)

section \<open>Association lists\<close>

lemma map_of_map_entry [simp]:
  "map_of (AList.map_entry k f xs) j = (if j = k then map_option f (map_of xs k) else map_of xs j)"
  by (induction xs) auto

lemma map_fst_map_entry [simp]: "map fst (AList.map_entry k f xs) = map fst xs"
  by (induction xs) auto

lemmas alist_simps = update_conv' delete_conv' distinct_update distinct_delete

lemma map_of_None_delete: "map_of xs k = None \<Longrightarrow> AList.delete k xs = xs"
  by (induction xs) (auto split: if_splits)

section \<open>Pruning\<close>

lemma floor_lease_sel [simp]:
  "le_active (floor_lease af e) \<longleftrightarrow> le_active e \<and> af < le_fence e \<and> af < le_credential_id e"
  "le_fence (floor_lease af e) = le_fence e"
  "le_credential_id (floor_lease af e) = le_credential_id e"
  "le_owner (floor_lease af e) = le_owner e"
  "le_acquired_at (floor_lease af e) = le_acquired_at e"
  "le_expires_at (floor_lease af e) = le_expires_at e"
  "le_guard_expires_at (floor_lease af e) = le_guard_expires_at e"
  by (auto simp: floor_lease_def)

lemma current_fence_tracked:
  "map_of (fs_key_fences st) k = Some f \<Longrightarrow> current_fence st k = max f (fs_async_floor st)"
  by (simp add: current_fence_def)

lemma apply_floor_current [simp]:
  "current_fence (apply_async_floor_to_key k st) j = current_fence st j"
  by (auto simp: current_fence_def apply_async_floor_to_key_def split: option.split)

lemma apply_floor_fields [simp]:
  "fs_records (apply_async_floor_to_key k st) = fs_records st"
  "fs_retention (apply_async_floor_to_key k st) = fs_retention st"
  "fs_async_floor (apply_async_floor_to_key k st) = fs_async_floor st"
  "fs_internal_keys (apply_async_floor_to_key k st) = fs_internal_keys st"
  "fs_pending (apply_async_floor_to_key k st) = fs_pending st"
  "fs_retired_keys (apply_async_floor_to_key k st) = fs_retired_keys st"
  "fs_retired_index (apply_async_floor_to_key k st) = fs_retired_index st"
  "fs_candidates (apply_async_floor_to_key k st) = fs_candidates st"
  "fs_committed_time (apply_async_floor_to_key k st) = fs_committed_time st"
  "fs_next_fence (apply_async_floor_to_key k st) = fs_next_fence st"
  "fs_next_credential (apply_async_floor_to_key k st) = fs_next_credential st"
  "fs_compacted (apply_async_floor_to_key k st) = fs_compacted st"
  "fs_last_sequence (apply_async_floor_to_key k st) = fs_last_sequence st"
  "fs_log (apply_async_floor_to_key k st) = fs_log st"
  by (simp_all add: apply_async_floor_to_key_def)

lemma apply_floor_live [simp]: "is_live (apply_async_floor_to_key k st) j = is_live st j"
  by (auto simp: is_live_def apply_async_floor_to_key_def)

lemma apply_floor_maps:
  "map_of (fs_key_fences (apply_async_floor_to_key k st)) j =
     (if j = k then map_option (\<lambda>f. max f (fs_async_floor st)) (map_of (fs_key_fences st) k)
      else map_of (fs_key_fences st) j)"
  "map_of (fs_leases (apply_async_floor_to_key k st)) j =
     (if j = k then map_option (floor_lease (fs_async_floor st)) (map_of (fs_leases st) k)
      else map_of (fs_leases st) j)"
  by (simp_all add: apply_async_floor_to_key_def)

text \<open>On a key that is not retired the floor keeps the invariant.\<close>

lemma apply_floor_ok:
  assumes "store_ok st" "map_of (fs_retired_keys st) k = None"
  shows "store_ok (apply_async_floor_to_key k st)"
proof -
  have "keys_ok (apply_async_floor_to_key k st)"
    using assms by (simp add: store_ok_def keys_ok_def apply_async_floor_to_key_def)
  moreover have "tracked_ok (apply_async_floor_to_key k st)"
    using assms by (simp add: store_ok_def tracked_ok_def apply_floor_maps)
  moreover have "bounds_ok (apply_async_floor_to_key k st)"
    using assms by (auto simp: store_ok_def bounds_ok_def apply_floor_maps split: if_splits)
  moreover have "leases_ok (apply_async_floor_to_key k st)"
    using assms by (auto simp: store_ok_def leases_ok_def apply_floor_maps max_def split: if_splits)
  moreover have "retired_ok (apply_async_floor_to_key k st)"
    using assms by (auto simp: store_ok_def retired_ok_def apply_floor_maps split: if_splits)
  ultimately show ?thesis by (simp add: store_ok_def)
qed

lemma live_not_retired: "store_ok st \<Longrightarrow> is_live st k \<Longrightarrow> map_of (fs_retired_keys st) k = None"
  by (cases "map_of (fs_retired_keys st) k") (auto simp: store_ok_def retired_ok_def)

lemma apply_floor_keys [simp]:
  "map fst (fs_leases (apply_async_floor_to_key k st)) = map fst (fs_leases st)"
  "map fst (fs_key_fences (apply_async_floor_to_key k st)) = map fst (fs_key_fences st)"
  by (simp_all add: apply_async_floor_to_key_def)

lemma current_fence_cong:
  "fs_key_fences st' = fs_key_fences st \<Longrightarrow> fs_retention st' = fs_retention st \<Longrightarrow>
   fs_async_floor st' = fs_async_floor st \<Longrightarrow> current_fence st' k = current_fence st k"
  by (simp add: current_fence_def cong: option.case_cong)

text \<open>
  A step that leaves fences and retirement alone and lets records and leases at most shrink, or
  leases lose their activity, keeps the invariant.
\<close>

definition lease_weaker :: "lease_entry \<Rightarrow> lease_entry \<Rightarrow> bool" where
  "lease_weaker e e0 \<longleftrightarrow>
     le_fence e = le_fence e0 \<and> le_credential_id e = le_credential_id e0 \<and>
     (le_active e \<longrightarrow> le_active e0)"

lemma store_ok_shrink:
  assumes ok: "store_ok st"
    and same: "fs_key_fences st' = fs_key_fences st" "fs_retention st' = fs_retention st"
      "fs_async_floor st' = fs_async_floor st" "fs_retired_keys st' = fs_retired_keys st"
      "fs_retired_index st' = fs_retired_index st" "fs_next_fence st' = fs_next_fence st"
      "fs_next_credential st' = fs_next_credential st"
    and shape: "distinct (map fst (fs_records st'))" "distinct (map fst (fs_leases st'))"
      "sorted_wrt (<) (fs_candidates st')"
    and recs: "\<And>k r. map_of (fs_records st') k = Some r \<Longrightarrow> map_of (fs_records st) k \<noteq> None"
    and leases: "\<And>k e. map_of (fs_leases st') k = Some e \<Longrightarrow>
      \<exists>e0. map_of (fs_leases st) k = Some e0 \<and> lease_weaker e e0"
  shows "store_ok st'"
proof -
  have live: "is_live st k" if "is_live st' k" for k
    using that recs leases by (fastforce simp: is_live_def)
  have "keys_ok st'" using ok same shape by (simp add: store_ok_def keys_ok_def)
  moreover have "tracked_ok st'" using ok same(1) live by (simp add: store_ok_def tracked_ok_def)
  moreover have "bounds_ok st'"
    using ok same leases unfolding store_ok_def bounds_ok_def lease_weaker_def by metis
  moreover have "leases_ok st'"
    using ok same(1) leases unfolding store_ok_def leases_ok_def lease_weaker_def by metis
  moreover have "retired_ok st'"
    using ok same live unfolding store_ok_def retired_ok_def by metis
  ultimately show ?thesis by (simp add: store_ok_def)
qed

lemma prune_record_ok:
  assumes "store_ok st" "map_of (fs_retired_keys st) k = None"
  shows "store_ok (prune_record k st)"
proof -
  have "store_ok (apply_async_floor_to_key k st)" using assms by (rule apply_floor_ok)
  then show ?thesis
    by (rule store_ok_shrink)
      (use assms in \<open>auto simp: prune_record_def Let_def delete_conv' distinct_delete lease_weaker_def
        store_ok_def keys_ok_def sorted_set_insert apply_floor_maps split: if_splits\<close>)
qed

lemma prune_lease_ok:
  assumes "store_ok st" "map_of (fs_retired_keys st) k = None"
  shows "store_ok (prune_lease k st)"
proof -
  have "store_ok (apply_async_floor_to_key k st)" using assms by (rule apply_floor_ok)
  then show ?thesis
    by (rule store_ok_shrink)
      (use assms in \<open>auto simp: prune_lease_def Let_def delete_conv' distinct_delete lease_weaker_def
        store_ok_def keys_ok_def sorted_set_insert apply_async_floor_to_key_def split: if_splits\<close>)
qed

lemma prune_step_fields [simp]:
  "fs_retired_keys (prune_record k st) = fs_retired_keys st"
  "fs_retired_keys (prune_lease k st) = fs_retired_keys st"
  "current_fence (prune_record k st) j = current_fence st j"
  "current_fence (prune_lease k st) j = current_fence st j"
proof -
  have "current_fence (st\<lparr>fs_records := r, fs_candidates := c\<rparr>) j = current_fence st j"
    "current_fence (st\<lparr>fs_leases := l, fs_candidates := c\<rparr>) j = current_fence st j" for r l c st
    by (rule current_fence_cong; simp)+
  then show "current_fence (prune_record k st) j = current_fence st j"
    "current_fence (prune_lease k st) j = current_fence st j"
    by (simp_all add: prune_record_def prune_lease_def Let_def)
qed (simp_all add: prune_record_def prune_lease_def Let_def)

lemma fold_prune_ok:
  assumes "store_ok st" "\<forall>k \<in> set ks. map_of (fs_retired_keys st) k = None"
    "step = prune_record \<or> step = prune_lease"
  shows "store_ok (fold step ks st) \<and> fs_retired_keys (fold step ks st) = fs_retired_keys st \<and>
    (\<forall>j. current_fence (fold step ks st) j = current_fence st j)"
  using assms
proof (induction ks arbitrary: st)
  case (Cons k ks)
  have "store_ok (step k st)" using Cons.prems prune_record_ok prune_lease_ok by auto
  moreover have "fs_retired_keys (step k st) = fs_retired_keys st"
    "current_fence (step k st) j = current_fence st j" for j
    using Cons.prems(3) by auto
  ultimately show ?case using Cons.IH [of "step k st"] Cons.prems by simp
qed simp

lemma filter_fst_map_of:
  assumes "distinct (map fst xs)" "k \<in> set (map fst (filter P xs))"
  shows "map_of xs k \<noteq> None"
  using assms(2) by (auto simp: map_of_eq_None_iff intro: rev_image_eqI)

lemma prune_state_ok:
  assumes "store_ok st"
  shows "store_ok (prune_state now st)" "current_fence (prune_state now st) j = current_fence st j"
proof -
  let ?ks = "map fst (filter (\<lambda>(k, r). is_expired_at r now) (fs_records st))"
  let ?st1 = "fold prune_record ?ks st"
  let ?ls = "map fst (filter (\<lambda>(k, e). \<not> le_active e \<or> le_expires_at e \<le> now) (fs_leases ?st1))"
  have "\<forall>k \<in> set ?ks. map_of (fs_retired_keys st) k = None"
  proof
    fix k assume "k \<in> set ?ks"
    then have "map_of (fs_records st) k \<noteq> None"
      using assms by (intro filter_fst_map_of) (auto simp: store_ok_def keys_ok_def)
    then show "map_of (fs_retired_keys st) k = None"
      using live_not_retired [OF assms] by (auto simp: is_live_def)
  qed
  from fold_prune_ok [OF assms this, of prune_record]
  have one: "store_ok ?st1" "fs_retired_keys ?st1 = fs_retired_keys st"
    "current_fence ?st1 j = current_fence st j" by auto
  have "\<forall>k \<in> set ?ls. map_of (fs_retired_keys ?st1) k = None"
  proof
    fix k assume "k \<in> set ?ls"
    then have "map_of (fs_leases ?st1) k \<noteq> None"
      using one(1) by (intro filter_fst_map_of) (auto simp: store_ok_def keys_ok_def)
    then show "map_of (fs_retired_keys ?st1) k = None"
      using live_not_retired [OF one(1)] by (auto simp: is_live_def)
  qed
  from fold_prune_ok [OF one(1) this, of prune_lease] one
  show "store_ok (prune_state now st)" "current_fence (prune_state now st) j = current_fence st j"
    by (simp_all add: prune_state_def Let_def)
qed

section \<open>Rotation and retirement\<close>

lemma map_of_fold_delete:
  "map_of (fold AList.delete ks xs) k = (if k \<in> set ks then None else map_of xs k)"
  by (induction ks arbitrary: xs) (auto simp: delete_conv')

lemma distinct_fold_delete:
  "distinct (map fst xs) \<Longrightarrow> distinct (map fst (fold AList.delete ks xs))"
  by (induction ks arbitrary: xs) (auto simp: distinct_delete)

text \<open>The keys of the epochs up to a bound, in the order of the index.\<close>

definition dropped_keys :: "nat \<Rightarrow> (nat \<times> fake_map_key) list \<Rightarrow> fake_map_key list" where
  "dropped_keys t index = map snd (filter (\<lambda>(e, k). e \<le> t) index)"

lemma dropped_keys_later:
  "\<forall>(e', k') \<in> set index. t < e' \<Longrightarrow> dropped_keys t index = []"
  by (auto simp: dropped_keys_def filter_empty_conv)

lemma drain_retired_ok:
  assumes "sorted_wrt (<) index" "distinct (map snd index)"
    and "\<And>e k. (e, k) \<in> set index \<Longrightarrow> e \<le> t \<Longrightarrow>
      map_of (fs_retired_keys st) k = Some e \<and> (\<exists>f < fp. map_of (fs_key_fences st) k = Some f)"
  shows "drain_retired t fp index st =
    Ok (st\<lparr>fs_retired_index := filter (\<lambda>(e, k). t < e) index,
           fs_retired_keys := fold AList.delete (dropped_keys t index) (fs_retired_keys st),
           fs_key_fences := fold AList.delete (dropped_keys t index) (fs_key_fences st)\<rparr>)"
  using assms
proof (induction t fp index st rule: drain_retired.induct)
  case (1 t fp st)
  show ?case by (simp add: dropped_keys_def)
next
  case (2 t fp e k index st)
  show ?case
  proof (cases "e \<le> t")
    case True
    let ?st = "st\<lparr>fs_retired_keys := AList.delete k (fs_retired_keys st),
      fs_key_fences := AList.delete k (fs_key_fences st)\<rparr>"
    have fresh: "k' \<noteq> k" if "(e', k') \<in> set index" for e' k'
      using 2(3) that by force
    have kept: "map_of (fs_retired_keys ?st) k' = Some e' \<and> (\<exists>f < fp. map_of (fs_key_fences ?st) k' = Some f)"
      if "(e', k') \<in> set index" "e' \<le> t" for e' k'
      using 2(4) [of e' k'] that fresh by (simp add: delete_conv')
    have "map_of (fs_retired_keys st) k = Some e" "\<exists>f < fp. map_of (fs_key_fences st) k = Some f"
      using 2(4) [of e k] True by auto
    then show ?thesis
      using True 2(1) [OF True _ _ _ kept] 2(2,3) by (auto simp: dropped_keys_def)
  next
    case False
    then have "\<forall>(e', k') \<in> set index. t < e'" using 2(2) by (auto simp: less_prod_def)
    moreover from this have "dropped_keys t ((e, k) # index) = []"
      using False by (intro dropped_keys_later) auto
    ultimately show ?thesis
      using False by (auto intro!: filter_True [symmetric])
  qed
qed

lemma sorted_index_distinct:
  assumes "retired_ok st"
  shows "distinct (map snd (fs_retired_index st))"
proof -
  have "inj_on snd (set (fs_retired_index st))"
    using assms by (auto simp: retired_ok_def inj_on_def)
  moreover have "distinct (fs_retired_index st)"
    using assms by (auto simp: retired_ok_def strict_sorted_iff)
  ultimately show ?thesis by (simp add: distinct_map)
qed

definition rotated ::
  "key_retention \<Rightarrow> nat \<Rightarrow> nat option \<Rightarrow> fake_state \<Rightarrow> fake_state" where
  "rotated kr nf through st =
     (let ks = (case through of None \<Rightarrow> [] | Some t \<Rightarrow> dropped_keys t (fs_retired_index st)) in
      st\<lparr>fs_retention := kr, fs_next_fence := nf,
         fs_retired_index := filter (\<lambda>(e, k). \<not> epoch_dropped through e) (fs_retired_index st),
         fs_retired_keys := fold AList.delete ks (fs_retired_keys st),
         fs_key_fences := fold AList.delete ks (fs_key_fences st)\<rparr>)"

lemma rotated_fields [simp]:
  "fs_records (rotated kr nf t st) = fs_records st" "fs_leases (rotated kr nf t st) = fs_leases st"
  "fs_retention (rotated kr nf t st) = kr" "fs_next_fence (rotated kr nf t st) = nf"
  "fs_async_floor (rotated kr nf t st) = fs_async_floor st"
  "fs_internal_keys (rotated kr nf t st) = fs_internal_keys st"
  "fs_candidates (rotated kr nf t st) = fs_candidates st"
  "fs_next_credential (rotated kr nf t st) = fs_next_credential st"
  by (simp_all add: rotated_def Let_def)

lemma rotated_live [simp]: "is_live (rotated kr nf t st) k = is_live st k"
  by (simp add: is_live_def)

lemma rotated_maps:
  assumes "retired_ok st"
  shows "map_of (fs_key_fences (rotated kr nf through st)) k =
      (if \<exists>e. map_of (fs_retired_keys st) k = Some e \<and> epoch_dropped through e then None
       else map_of (fs_key_fences st) k)"
    and "map_of (fs_retired_keys (rotated kr nf through st)) k =
      (case map_of (fs_retired_keys st) k of
         None \<Rightarrow> None | Some e \<Rightarrow> if epoch_dropped through e then None else Some e)"
proof -
  have "k \<in> set (dropped_keys t (fs_retired_index st)) \<longleftrightarrow>
      (\<exists>e. map_of (fs_retired_keys st) k = Some e \<and> e \<le> t)" for t
    using assms by (force simp: dropped_keys_def retired_ok_def)
  then show "map_of (fs_key_fences (rotated kr nf through st)) k =
      (if \<exists>e. map_of (fs_retired_keys st) k = Some e \<and> epoch_dropped through e then None
       else map_of (fs_key_fences st) k)"
    and "map_of (fs_retired_keys (rotated kr nf through st)) k =
      (case map_of (fs_retired_keys st) k of
         None \<Rightarrow> None | Some e \<Rightarrow> if epoch_dropped through e then None else Some e)"
    by (auto simp: rotated_def Let_def map_of_fold_delete epoch_dropped_def split: option.splits)
qed

lemma rotate_keys_rotated:
  assumes "retired_ok st"
    and rot: "rotate_epoch (fs_retention st) (fs_next_fence st) max_u64 af reason = Ok (kr, nf, through)"
  shows "rotate_keys_with_floor reason af st = Ok (rotated kr nf through st)"
proof (cases through)
  case None
  then show ?thesis
    using rot by (simp add: rotate_keys_with_floor_def rotated_def epoch_dropped_def)
next
  case (Some t)
  have "map_of (fs_retired_keys st) k = Some e \<and> (\<exists>f < kr_floor_prev kr. map_of (fs_key_fences st) k = Some f)"
    if "(e, k) \<in> set (fs_retired_index st)" "e \<le> t" for e k
  proof -
    from that(1) assms(1) obtain f where f: "map_of (fs_retired_keys st) k = Some e"
      "map_of (fs_key_fences st) k = Some f" "valid_retired_fence (fs_retention st) e f"
      unfolding retired_ok_def by metis
    then show ?thesis
      using rotate_epoch_retired [OF rot f(3)] Some that(2) by (auto simp: epoch_dropped_def)
  qed
  note dropped = this
  have sorted: "sorted_wrt (<) (fs_retired_index st)"
    using assms(1) by (simp add: retired_ok_def)
  let ?s = "st\<lparr>fs_retention := kr, fs_next_fence := nf\<rparr>"
  have "drain_retired t (kr_floor_prev kr) (fs_retired_index st) ?s = Ok (rotated kr nf through st)"
  proof (rule trans, rule drain_retired_ok [OF sorted sorted_index_distinct [OF assms(1)]])
    show "map_of (fs_retired_keys ?s) k = Some e \<and> (\<exists>f < kr_floor_prev kr. map_of (fs_key_fences ?s) k = Some f)"
      if "(e, k) \<in> set (fs_retired_index st)" "e \<le> t" for e k
      using dropped [OF that] by simp
  qed (simp add: Some rotated_def epoch_dropped_def not_le Let_def)
  then show ?thesis
    using rot Some by (simp add: rotate_keys_with_floor_def)
qed

lemma rotated_bounds_ok:
  assumes ok: "bounds_ok st" and r: "retired_ok st"
    and rot: "rotate_epoch (fs_retention st) (fs_next_fence st) max_u64 af reason = Ok (kr, nf, through)"
  shows "bounds_ok (rotated kr nf through st)"
proof -
  have "f < nf" if "nf < max_u64" "map_of (fs_key_fences (rotated kr nf through st)) k = Some f" for k f
    using ok that rotate_epoch_facts(6) [OF rot] unfolding bounds_ok_def rotated_maps [OF r]
    by (metis option.distinct(1) order.strict_trans1 order.strict_trans2)
  then show ?thesis
    using ok rotate_epoch_facts(6,7) [OF rot] by (simp add: bounds_ok_def)
qed

lemma live_fence_rotated:
  assumes "retired_ok st" "is_live st k"
  shows "map_of (fs_key_fences (rotated kr nf through st)) k = map_of (fs_key_fences st) k"
  using assms by (auto simp: rotated_maps retired_ok_def)

lemma rotated_retired_ok:
  assumes r: "retired_ok st"
    and rot: "rotate_epoch (fs_retention st) (fs_next_fence st) max_u64 af reason = Ok (kr, nf, through)"
  shows "retired_ok (rotated kr nf through st)"
proof -
  let ?s = "rotated kr nf through st"
  note maps = rotated_maps [OF r]
  have idx: "(e, k) \<in> set (fs_retired_index ?s) \<longleftrightarrow> map_of (fs_retired_keys ?s) k = Some e" for e k
    using r unfolding maps by (auto simp: rotated_def Let_def retired_ok_def split: option.splits if_splits)
  have fence: "\<not> is_live st k \<and> \<not> scope_key k \<and>
      (\<exists>f. map_of (fs_key_fences ?s) k = Some f \<and> valid_retired_fence kr e f)"
    if "map_of (fs_retired_keys ?s) k = Some e" for k e
  proof -
    from that have e: "map_of (fs_retired_keys st) k = Some e" "\<not> epoch_dropped through e"
      by (auto simp: maps split: option.splits if_splits)
    with r obtain f where "map_of (fs_key_fences st) k = Some f" "\<not> is_live st k" "\<not> scope_key k"
      "valid_retired_fence (fs_retention st) e f"
      unfolding retired_ok_def by metis
    then show ?thesis using rotate_epoch_retired [OF rot] e by (auto simp: maps)
  qed
  have "sorted_wrt (<) (fs_retired_index ?s)"
    using r by (simp add: rotated_def Let_def retired_ok_def sorted_wrt_filter)
  with idx fence show ?thesis by (simp add: retired_ok_def)
qed

lemma rotated_ok:
  assumes ok: "store_ok st"
    and rot: "rotate_epoch (fs_retention st) (fs_next_fence st) max_u64 af reason = Ok (kr, nf, through)"
  shows "store_ok (rotated kr nf through st)"
proof -
  have r: "retired_ok st" using ok by (simp add: store_ok_def)
  have "keys_ok (rotated kr nf through st)"
    using ok by (auto simp: store_ok_def keys_ok_def rotated_def Let_def distinct_fold_delete)
  moreover have "tracked_ok (rotated kr nf through st)"
    using ok live_fence_rotated [OF r] by (simp add: store_ok_def tracked_ok_def)
  moreover have "leases_ok (rotated kr nf through st)"
    unfolding leases_ok_def
  proof (intro allI impI)
    fix k e assume "map_of (fs_leases (rotated kr nf through st)) k = Some e" "le_active e"
    then show "map_of (fs_key_fences (rotated kr nf through st)) k = Some (le_fence e)"
      using ok live_fence_rotated [OF r, of k] by (auto simp: store_ok_def leases_ok_def is_live_def)
  qed
  ultimately show ?thesis
    using rotated_bounds_ok [OF _ r rot] rotated_retired_ok [OF r rot] ok by (simp add: store_ok_def)
qed

lemma rotated_grow:
  assumes ok: "store_ok st"
    and rot: "rotate_epoch (fs_retention st) (fs_next_fence st) max_u64 af reason = Ok (kr, nf, through)"
  shows "fences_grow st (rotated kr nf through st)"
  unfolding fences_grow_def
proof
  fix k
  have r: "retired_ok st" using ok by (simp add: store_ok_def)
  note maps = rotated_maps [OF r] and facts = rotate_epoch_facts [OF rot]
  show "current_fence st k \<le> current_fence (rotated kr nf through st) k"
  proof (cases "\<exists>e. map_of (fs_retired_keys st) k = Some e \<and> epoch_dropped through e")
    case True
    then obtain e where e: "map_of (fs_retired_keys st) k = Some e" "epoch_dropped through e" by blast
    with r obtain f where f: "map_of (fs_key_fences st) k = Some f" "\<not> scope_key k"
      "valid_retired_fence (fs_retention st) e f"
      unfolding retired_ok_def by metis
    have "f < kr_floor_prev kr" using rotate_epoch_retired [OF rot f(3)] e by simp
    then show ?thesis
      using f True facts(3) by (simp add: current_fence_def maps observed_absent_fence_def)
  next
    case False
    have "kr_floor_cur (fs_retention st) \<le> kr_floor_cur kr" using facts(2,3) by simp
    then show ?thesis
      using False by (auto simp: current_fence_def maps observed_absent_fence_def split: option.splits)
  qed
qed

lemma unretire_fields [simp]:
  "fs_records (unretire k st) = fs_records st" "fs_leases (unretire k st) = fs_leases st"
  "fs_key_fences (unretire k st) = fs_key_fences st" "fs_retention (unretire k st) = fs_retention st"
  "fs_async_floor (unretire k st) = fs_async_floor st"
  "fs_internal_keys (unretire k st) = fs_internal_keys st"
  "fs_candidates (unretire k st) = fs_candidates st"
  "fs_next_fence (unretire k st) = fs_next_fence st"
  "fs_next_credential (unretire k st) = fs_next_credential st"
  "fs_pending (unretire k st) = fs_pending st" "fs_log (unretire k st) = fs_log st"
  "fs_last_sequence (unretire k st) = fs_last_sequence st"
  "fs_compacted (unretire k st) = fs_compacted st"
  "fs_committed_time (unretire k st) = fs_committed_time st"
  by (simp_all add: unretire_def split: option.split)

lemma unretire_not_retired: "map_of (fs_retired_keys st) k = None \<Longrightarrow> unretire k st = st"
  by (simp add: unretire_def)

text \<open>
  The part of the invariant that a step on one key may suspend: everything holds of the other
  keys, and the retirement index agrees with its map.
\<close>

definition ok_except :: "fake_map_key \<Rightarrow> fake_state \<Rightarrow> bool" where
  "ok_except k st \<longleftrightarrow>
     keys_ok st \<and> bounds_ok st \<and>
     (\<forall>j. j \<noteq> k \<longrightarrow> is_live st j \<longrightarrow> map_of (fs_key_fences st) j \<noteq> None) \<and>
     (\<forall>j e. j \<noteq> k \<longrightarrow> map_of (fs_leases st) j = Some e \<longrightarrow> le_active e \<longrightarrow>
        map_of (fs_key_fences st) j = Some (le_fence e)) \<and>
     sorted_wrt (<) (fs_retired_index st) \<and>
     (\<forall>e j. (e, j) \<in> set (fs_retired_index st) \<longleftrightarrow> map_of (fs_retired_keys st) j = Some e) \<and>
     (\<forall>j e. j \<noteq> k \<longrightarrow> map_of (fs_retired_keys st) j = Some e \<longrightarrow>
        \<not> is_live st j \<and> \<not> scope_key j \<and>
        (\<exists>f. map_of (fs_key_fences st) j = Some f \<and> valid_retired_fence (fs_retention st) e f))"

lemma store_ok_except: "store_ok st \<Longrightarrow> ok_except k st"
  unfolding store_ok_defs ok_except_def by blast

lemma unretire_map:
  "map_of (fs_retired_keys (unretire k st)) j = (if j = k then None else map_of (fs_retired_keys st) j)"
  by (auto simp: unretire_def delete_conv' split: option.split)

lemma unretire_distinct:
  "distinct (map fst (fs_retired_keys st)) \<Longrightarrow> distinct (map fst (fs_retired_keys (unretire k st)))"
  by (auto simp: unretire_def distinct_delete split: option.split)

lemma unretire_sorted:
  "sorted_wrt (<) (fs_retired_index st) \<Longrightarrow> sorted_wrt (<) (fs_retired_index (unretire k st))"
  by (auto simp: unretire_def sorted_removeAll split: option.split)

lemma unretire_index:
  assumes "\<And>e j. (e, j) \<in> set (fs_retired_index st) \<longleftrightarrow> map_of (fs_retired_keys st) j = Some e"
  shows "(e, j) \<in> set (fs_retired_index (unretire k st)) \<longleftrightarrow>
      map_of (fs_retired_keys (unretire k st)) j = Some e"
  using assms by (auto simp: unretire_def delete_conv' split: option.split)

lemma unretire_ok:
  assumes "ok_except k st" "is_live st k" "map_of (fs_key_fences st) k = Some f"
    and "\<And>e. map_of (fs_leases st) k = Some e \<Longrightarrow> le_active e \<Longrightarrow> le_fence e = f"
  shows "store_ok (unretire k st)"
proof -
  have "keys_ok (unretire k st)"
    using assms(1) unretire_distinct by (simp add: ok_except_def keys_ok_def)
  moreover have "tracked_ok (unretire k st)"
    using assms(1,3) by (simp add: ok_except_def tracked_ok_def is_live_def) (metis option.distinct(1))
  moreover have "bounds_ok (unretire k st)"
    using assms(1) by (simp add: ok_except_def bounds_ok_def)
  moreover have "leases_ok (unretire k st)"
    using assms(1,3,4) by (simp add: ok_except_def leases_ok_def) metis
  moreover have "retired_ok (unretire k st)"
  proof -
    have "is_live (unretire k st) j = is_live st j" for j by (simp add: is_live_def)
    moreover have "(e, j) \<in> set (fs_retired_index (unretire k st)) \<longleftrightarrow>
        map_of (fs_retired_keys (unretire k st)) j = Some e" for e j
      using assms(1) by (intro unretire_index) (simp add: ok_except_def)
    ultimately show ?thesis
      using assms(1) unretire_sorted by (simp add: ok_except_def retired_ok_def unretire_map)
  qed
  ultimately show ?thesis by (simp add: store_ok_def)
qed

text \<open>Setting the fence of a live key closes the step.\<close>

lemma ok_except_fence:
  assumes "ok_except k st" "fs_next_fence st < max_u64 \<Longrightarrow> f < fs_next_fence st"
  shows "ok_except k (st\<lparr>fs_key_fences := AList.update k f (fs_key_fences st)\<rparr>)"
proof -
  let ?s = "st\<lparr>fs_key_fences := AList.update k f (fs_key_fences st)\<rparr>"
  have "keys_ok ?s" using assms(1) by (simp add: ok_except_def keys_ok_def distinct_update)
  moreover have "bounds_ok ?s"
    using assms by (simp add: ok_except_def bounds_ok_def update_conv')
  moreover have "is_live ?s j = is_live st j" for j by (simp add: is_live_def)
  ultimately show ?thesis using assms(1) by (simp add: ok_except_def update_conv')
qed

lemma store_ok_candidates:
  assumes "store_ok st" "sorted_wrt (<) cs"
  shows "store_ok (st\<lparr>fs_candidates := cs\<rparr>)"
  using assms(1)
  by (rule store_ok_shrink) (use assms in \<open>auto simp: store_ok_def keys_ok_def lease_weaker_def\<close>)

lemma set_fence_ok:
  assumes ok: "ok_except k st" and live: "is_live st k"
    and fence: "fs_next_fence st < max_u64 \<Longrightarrow> f < fs_next_fence st"
    and lease: "\<And>e. map_of (fs_leases st) k = Some e \<Longrightarrow> le_active e \<Longrightarrow> le_fence e = f"
  shows "store_ok (set_fence k f st)"
proof -
  let ?s1 = "st\<lparr>fs_key_fences := AList.update k f (fs_key_fences st)\<rparr>"
  have live1: "is_live ?s1 k" using live by (simp add: is_live_def)
  have "store_ok (unretire k ?s1)"
    using ok_except_fence [OF ok fence] live1 lease by (intro unretire_ok) (simp_all add: update_conv')
  moreover have "sorted_wrt (<) (set_insert k (fs_candidates st))"
    using ok by (intro sorted_set_insert) (simp add: ok_except_def keys_ok_def)
  ultimately show ?thesis
    using store_ok_candidates live1 by (simp add: set_fence_def Let_def)
qed

lemma set_fence_fields [simp]:
  "fs_records (set_fence k f st) = fs_records st" "fs_leases (set_fence k f st) = fs_leases st"
  "fs_key_fences (set_fence k f st) = AList.update k f (fs_key_fences st)"
  "fs_retention (set_fence k f st) = fs_retention st"
  "fs_async_floor (set_fence k f st) = fs_async_floor st"
  "fs_internal_keys (set_fence k f st) = fs_internal_keys st"
  "fs_next_fence (set_fence k f st) = fs_next_fence st"
  "fs_next_credential (set_fence k f st) = fs_next_credential st"
  "fs_pending (set_fence k f st) = fs_pending st" "fs_log (set_fence k f st) = fs_log st"
  "fs_last_sequence (set_fence k f st) = fs_last_sequence st"
  "fs_compacted (set_fence k f st) = fs_compacted st"
  "fs_committed_time (set_fence k f st) = fs_committed_time st"
  by (simp_all add: set_fence_def Let_def)

lemma set_fence_current:
  "current_fence (set_fence k f st) j =
     (if j = k then max f (fs_async_floor st) else current_fence st j)"
  by (simp add: current_fence_def update_conv' cong: option.case_cong)

lemma set_fence_grow: "current_fence st k \<le> f \<Longrightarrow> fences_grow st (set_fence k f st)"
  by (simp add: fences_grow_def set_fence_current)

section \<open>Fenced mutations\<close>

lemma validate_fenced_mutation_Ok:
  assumes "validate_fenced_mutation st lease now = Ok k"
  shows "k = map_key (lg_key lease)" "current_fence st k \<le> lg_fence lease" "now < lg_expires_at lease"
    "\<exists>e. map_of (fs_leases st) k = Some e \<and> le_active e \<and> le_credential_id e = lg_credential_id lease \<and>
       le_owner e = lg_owner lease \<and> le_fence e = lg_fence lease \<and>
       le_guard_expires_at e = lg_expires_at lease \<and> now < le_expires_at e"
  using assms
  by (auto simp: validate_fenced_mutation_def Let_def not_less not_le split: option.splits if_splits)

lemma validated_key_live:
  "validate_fenced_mutation st lease now = Ok k \<Longrightarrow> is_live st k"
  using validate_fenced_mutation_Ok(4) by (fastforce simp: is_live_def)

lemma validated_key_fence:
  assumes "store_ok st" "validate_fenced_mutation st lease now = Ok k"
  shows "map_of (fs_key_fences st) k = Some (lg_fence lease)"
  using assms(1) validate_fenced_mutation_Ok(4) [OF assms(2)]
  unfolding store_ok_def leases_ok_def by metis

lemma ok_except_records:
  assumes "ok_except k st" "distinct (map fst rs)" "\<And>j. j \<noteq> k \<Longrightarrow> map_of rs j = map_of (fs_records st) j"
  shows "ok_except k (st\<lparr>fs_records := rs\<rparr>)"
proof -
  have "is_live (st\<lparr>fs_records := rs\<rparr>) j = is_live st j" if "j \<noteq> k" for j
    using assms(3) [OF that] by (simp add: is_live_def)
  moreover have "keys_ok (st\<lparr>fs_records := rs\<rparr>)" "bounds_ok (st\<lparr>fs_records := rs\<rparr>)"
    using assms(1,2) by (simp_all add: ok_except_def keys_ok_def bounds_ok_def)
  ultimately show ?thesis using assms(1) by (simp add: ok_except_def)
qed

text \<open>
  A fenced mutation writes the records of its key and sets the fence of its guard, which the key
  already carries.
\<close>

lemma fenced_write_ok:
  assumes ok: "store_ok st" and v: "validate_fenced_mutation st lease now = Ok k"
    and recs: "distinct (map fst rs)" "\<And>j. j \<noteq> k \<Longrightarrow> map_of rs j = map_of (fs_records st) j"
  shows "store_ok (set_fence k (lg_fence lease) (st\<lparr>fs_records := rs\<rparr>))"
    and "fences_grow st (set_fence k (lg_fence lease) (st\<lparr>fs_records := rs\<rparr>))"
proof -
  let ?s = "st\<lparr>fs_records := rs\<rparr>"
  note fence = validated_key_fence [OF ok v] and le = validate_fenced_mutation_Ok(4) [OF v]
  have "ok_except k ?s" using store_ok_except [OF ok] recs by (rule ok_except_records)
  moreover have "is_live ?s k" using le by (auto simp: is_live_def)
  moreover have "fs_next_fence ?s < max_u64 \<Longrightarrow> lg_fence lease < fs_next_fence ?s"
    using ok fence by (simp add: store_ok_def bounds_ok_def)
  moreover have "le_fence e = lg_fence lease" if "map_of (fs_leases ?s) k = Some e" "le_active e" for e
    using le that by auto
  ultimately show "store_ok (set_fence k (lg_fence lease) ?s)" by (intro set_fence_ok)
  have "current_fence ?s j = current_fence st j" for j by (rule current_fence_cong) simp_all
  then show "fences_grow st (set_fence k (lg_fence lease) ?s)"
    using validate_fenced_mutation_Ok(2) [OF v] set_fence_grow [of ?s k] by (simp add: fences_grow_def)
qed

lemma compare_and_set_Ok:
  assumes "compare_and_set_with_state cfg st op now = Ok (st', result)"
  shows "validate_fenced_mutation st (cas_lease op) now = Ok (map_key (cas_key op))"
    and "result = CasSuccess \<Longrightarrow>
      st' = put_record (map_key (cas_key op)) (cas_record op) (lg_fence (cas_lease op)) st"
    and "result \<noteq> CasSuccess \<Longrightarrow> st' = st"
  using assms validate_fenced_mutation_Ok(1) [of st "cas_lease op" now]
  by (auto simp: compare_and_set_with_state_def outcome_simps Let_def split: if_splits option.splits)

lemma delete_fenced_Ok:
  assumes "delete_fenced_with_state cfg st lease now = Ok st'"
  shows "validate_fenced_mutation st lease now = Ok (map_key (lg_key lease))"
    and "st' = set_fence (map_key (lg_key lease)) (lg_fence lease)
      (st\<lparr>fs_records := AList.delete (map_key (lg_key lease)) (fs_records st)\<rparr>)"
  using assms validate_fenced_mutation_Ok(1) [of st lease now]
  by (auto simp: delete_fenced_with_state_def outcome_simps split: if_splits)

lemma refresh_ttl_Ok:
  assumes "refresh_ttl_with_state cfg st lease ttl now = Ok (st', expires_at)"
  shows "validate_fenced_mutation st lease now = Ok (map_key (lg_key lease))"
    and "\<exists>r. map_of (fs_records st) (map_key (lg_key lease)) = Some r \<and> \<not> is_expired_at r now \<and>
      st' = put_record (map_key (lg_key lease)) (r\<lparr>sr_expires_at := Some expires_at\<rparr>) (lg_fence lease) st"
  using assms validate_fenced_mutation_Ok(1) [of st lease now]
  by (auto simp: refresh_ttl_with_state_def outcome_simps split: if_splits option.splits)

lemma put_record_ok:
  assumes "store_ok st" "validate_fenced_mutation st lease now = Ok k"
  shows "store_ok (put_record k r (lg_fence lease) st)" "fences_grow st (put_record k r (lg_fence lease) st)"
  unfolding put_record_def
  using fenced_write_ok [OF assms, of "AList.update k r (fs_records st)"] assms(1)
  by (simp_all add: update_conv' distinct_update store_ok_def keys_ok_def)

lemma fenced_steps_ok:
  assumes "store_ok st"
  shows "compare_and_set_with_state cfg st op now = Ok (st', result) \<Longrightarrow> store_ok st' \<and> fences_grow st st'"
    and "delete_fenced_with_state cfg st lease now = Ok st' \<Longrightarrow> store_ok st' \<and> fences_grow st st'"
    and "refresh_ttl_with_state cfg st lease ttl now = Ok (st', t) \<Longrightarrow> store_ok st' \<and> fences_grow st st'"
proof -
  show "compare_and_set_with_state cfg st op now = Ok (st', result) \<Longrightarrow> store_ok st' \<and> fences_grow st st'"
    using compare_and_set_Ok [of cfg st op now st' result] put_record_ok [OF assms] assms
    by (cases "result = CasSuccess") auto
  show "delete_fenced_with_state cfg st lease now = Ok st' \<Longrightarrow> store_ok st' \<and> fences_grow st st'"
    using delete_fenced_Ok [of cfg st lease now st'] assms
      fenced_write_ok [OF assms, of lease now _ "AList.delete (map_key (lg_key lease)) (fs_records st)"]
    by (auto simp: delete_conv' distinct_delete store_ok_def keys_ok_def)
  show "refresh_ttl_with_state cfg st lease ttl now = Ok (st', t) \<Longrightarrow> store_ok st' \<and> fences_grow st st'"
    using refresh_ttl_Ok [of cfg st lease ttl now st' t] put_record_ok [OF assms] by auto
qed

section \<open>Retirement\<close>

definition retention_ok :: "fake_state \<Rightarrow> bool" where
  "retention_ok st \<longleftrightarrow> retention_valid (fs_retention st) (fs_next_fence st)"

lemma rotate_keys_ok:
  assumes "store_ok st" "rotate_keys reason st = Ok st'"
  shows "store_ok st'" "retention_ok st'" "fences_grow st st'" "fs_next_fence st \<le> fs_next_fence st'"
proof -
  obtain kr nf through where rot:
    "rotate_epoch (fs_retention st) (fs_next_fence st) max_u64 (fs_async_floor st) reason = Ok (kr, nf, through)"
    using assms(2) by (auto simp: rotate_keys_def rotate_keys_with_floor_def outcome_simps)
  have st': "st' = rotated kr nf through st"
    using rotate_keys_rotated [OF _ rot] assms by (simp add: rotate_keys_def store_ok_def)
  show "store_ok st'" "fences_grow st st'"
    using rotated_ok [OF assms(1) rot] rotated_grow [OF assms(1) rot] by (simp_all add: st')
  show "retention_ok st'" "fs_next_fence st \<le> fs_next_fence st'"
    using rotate_epoch_valid [OF rot] rotate_epoch_facts(6) [OF rot] by (simp_all add: st' retention_ok_def)
qed

definition retired_state :: "fake_map_key \<Rightarrow> nat \<Rightarrow> fake_state \<Rightarrow> fake_state" where
  "retired_state k fence st =
     (let kr = fs_retention st in
      st\<lparr>fs_retention := kr\<lparr>kr_retired_count := kr_retired_count kr + 1,
            kr_retired_max := max (kr_retired_max kr) fence\<rparr>,
         fs_retired_keys := AList.update k (kr_epoch kr) (fs_retired_keys st),
         fs_retired_index := set_insert (kr_epoch kr, k) (fs_retired_index st)\<rparr>)"

lemma retired_state_fields [simp]:
  "fs_records (retired_state k f st) = fs_records st" "fs_leases (retired_state k f st) = fs_leases st"
  "fs_key_fences (retired_state k f st) = fs_key_fences st"
  "fs_async_floor (retired_state k f st) = fs_async_floor st"
  "fs_candidates (retired_state k f st) = fs_candidates st"
  "fs_next_fence (retired_state k f st) = fs_next_fence st"
  "fs_next_credential (retired_state k f st) = fs_next_credential st"
  by (simp_all add: retired_state_def Let_def)

lemma retired_state_retention:
  "fs_retention (retired_state k f st) = (fs_retention st)
     \<lparr>kr_retired_count := kr_retired_count (fs_retention st) + 1,
      kr_retired_max := max (kr_retired_max (fs_retention st)) f\<rparr>"
  by (simp add: retired_state_def Let_def)

lemma valid_retired_raise:
  "valid_retired_fence kr e f \<Longrightarrow>
   valid_retired_fence (kr\<lparr>kr_retired_count := n, kr_retired_max := max (kr_retired_max kr) m\<rparr>) e f"
  by (auto simp: valid_retired_fence_def retains_epoch_def)

lemma retired_state_ok:
  assumes ok: "store_ok st" and dead: "\<not> is_live st k" "\<not> scope_key k"
    and fresh: "map_of (fs_retired_keys st) k = None" and fence: "map_of (fs_key_fences st) k = Some f"
  shows "store_ok (retired_state k f st)"
proof -
  let ?s = "retired_state k f st" and ?e = "kr_epoch (fs_retention st)"
  have r: "retired_ok st" using ok by (simp add: store_ok_def)
  have map: "map_of (fs_retired_keys ?s) j = (if j = k then Some ?e else map_of (fs_retired_keys st) j)" for j
    by (simp add: retired_state_def Let_def update_conv')
  have live: "is_live ?s j = is_live st j" for j by (simp add: is_live_def)
  have "keys_ok ?s"
    using ok by (simp add: store_ok_def keys_ok_def) (simp add: retired_state_def Let_def distinct_update)
  moreover have "tracked_ok ?s" "bounds_ok ?s" "leases_ok ?s"
    using ok by (simp_all add: store_ok_def tracked_ok_def bounds_ok_def leases_ok_def live)
  moreover have "retired_ok ?s"
  proof -
    have "sorted_wrt (<) (fs_retired_index ?s)"
      using r by (simp add: retired_state_def Let_def retired_ok_def sorted_set_insert)
    moreover have "(e, j) \<in> set (fs_retired_index ?s) \<longleftrightarrow> map_of (fs_retired_keys ?s) j = Some e" for e j
      using r fresh by (auto simp: map) (auto simp: retired_state_def Let_def retired_ok_def)
    moreover have "\<exists>f. map_of (fs_key_fences st) j = Some f \<and> valid_retired_fence (fs_retention ?s) e f"
      if "map_of (fs_retired_keys ?s) j = Some e" for j e
    proof (cases "j = k")
      case True
      with that fence show ?thesis
        by (simp add: map retired_state_retention valid_retired_fence_def retains_epoch_def)
    next
      case False
      with that r show ?thesis
        unfolding map retired_ok_def retired_state_retention by (metis valid_retired_raise)
    qed
    ultimately show ?thesis
      using r dead by (auto simp: retired_ok_def live map split: if_splits)
  qed
  ultimately show ?thesis by (simp add: store_ok_def)
qed

lemma retired_state_grow: "fences_grow st (retired_state k f st)"
  by (simp add: fences_grow_def current_fence_def retired_state_retention observed_absent_fence_def
      cong: option.case_cong)

lemma retire_key_Ok:
  "retire_key k f st = Ok st' \<Longrightarrow>
   (if Suc (kr_retired_count (fs_retention st)) = RETIRED_KEYS_PER_EPOCH
    then rotate_keys Threshold (retired_state k f st) = Ok st' else st' = retired_state k f st)"
  by (auto simp: retire_key_def retired_state_def outcome_simps Let_def split: if_splits)

lemma retire_key_ok:
  assumes ok: "store_ok st" "retention_ok st" and dead: "\<not> is_live st k" "\<not> scope_key k"
    and fresh: "map_of (fs_retired_keys st) k = None" and fence: "map_of (fs_key_fences st) k = Some f"
    and bound: "f < fs_next_fence st" and res: "retire_key k f st = Ok st'"
  shows "store_ok st'" "retention_ok st'" "fences_grow st st'"
proof -
  let ?s = "retired_state k f st"
  have s: "store_ok ?s" using ok(1) dead fresh fence by (rule retired_state_ok)
  have count: "kr_retired_count (fs_retention st) < RETIRED_KEYS_PER_EPOCH"
    using ok(2) by (simp add: retention_ok_def retention_valid_def)
  have keep: "retention_ok ?s" if "Suc (kr_retired_count (fs_retention st)) \<noteq> RETIRED_KEYS_PER_EPOCH"
    using ok(2) bound that count
    by (auto simp: retention_ok_def retention_valid_def retired_state_retention)
  show "store_ok st'" "retention_ok st'" "fences_grow st st'"
    using retire_key_Ok [OF res] s keep rotate_keys_ok [OF s]
      fences_grow_trans [OF retired_state_grow [of st k f]]
    by (auto simp: retired_state_grow split: if_splits)
qed

lemma retire_loop_ok:
  assumes "store_ok st" "retention_ok st" "retire_loop ks st = Ok st'"
  shows "store_ok st' \<and> retention_ok st' \<and> fences_grow st st'"
  using assms
proof (induction ks arbitrary: st)
  case (Cons k ks)
  note loop = Cons.prems(3)
  have live: "unretire k st = st" if "is_live st k"
    using live_not_retired [OF Cons.prems(1) that] by (rule unretire_not_retired)
  show ?case
  proof (cases "is_live st k \<or> scope_key k \<or> map_of (fs_retired_keys st) k \<noteq> None \<or>
      map_of (fs_key_fences st) k = None \<or> the (map_of (fs_key_fences st) k) \<ge> fs_next_fence st")
    case True
    then have "retire_loop ks st = Ok st'"
      using loop live by (auto split: if_splits option.splits)
    with Cons.IH Cons.prems(1,2) show ?thesis .
  next
    case False
    then obtain f where f: "map_of (fs_key_fences st) k = Some f" "f < fs_next_fence st"
      "\<not> is_live st k" "\<not> scope_key k" "map_of (fs_retired_keys st) k = None"
      by auto
    then obtain st1 where st1: "retire_key k f st = Ok st1" "retire_loop ks st1 = Ok st'"
      using loop by (auto simp: outcome_simps)
    note r = retire_key_ok [OF Cons.prems(1,2) f(3,4,5,1,2) st1(1)]
    then show ?thesis using Cons.IH [OF r(1,2) st1(2)] fences_grow_trans by blast
  qed
qed simp

lemma retire_dead_keys_ok:
  assumes "store_ok st" "retention_ok st" "retire_dead_keys st = Ok st'"
  shows "store_ok st'" "retention_ok st'" "fences_grow st st'"
proof -
  let ?s = "st\<lparr>fs_candidates := []\<rparr>"
  have s: "store_ok ?s" "retention_ok ?s" "retire_loop (fs_candidates st) ?s = Ok st'"
    using assms store_ok_candidates [OF assms(1)] by (simp_all add: retention_ok_def retire_dead_keys_def)
  have "current_fence ?s k = current_fence st k" for k by (rule current_fence_cong) simp_all
  then show "store_ok st'" "retention_ok st'" "fences_grow st st'"
    using retire_loop_ok [OF s] by (simp_all add: fences_grow_def)
qed

section \<open>The capacity bound\<close>

lemma retired_epochs:
  assumes "store_ok st" "map_of (fs_retired_keys st) k = Some e"
  shows "e = kr_epoch (fs_retention st) \<or> Suc e = kr_epoch (fs_retention st)"
proof -
  obtain f where "valid_retired_fence (fs_retention st) e f"
    using assms unfolding store_ok_def retired_ok_def by blast
  then show ?thesis
    by (auto simp: valid_retired_fence_def retains_epoch_def checked_sub_def split: if_splits)
qed

lemma alist_empty_iff: "xs = [] \<longleftrightarrow> (\<forall>k. map_of xs k = None)"
  by (cases xs) auto

text \<open>A rotation forgets the older of the two retained epochs; a second one forgets the other.\<close>

lemma rotate_keys_ages:
  assumes "store_ok st" "rotate_keys reason st = Ok st'" "map_of (fs_retired_keys st') k = Some e"
  shows "map_of (fs_retired_keys st) k = Some e" "Suc e = kr_epoch (fs_retention st')"
proof -
  obtain kr nf through where rot:
    "rotate_epoch (fs_retention st) (fs_next_fence st) max_u64 (fs_async_floor st) reason = Ok (kr, nf, through)"
    using assms(2) by (auto simp: rotate_keys_def rotate_keys_with_floor_def outcome_simps)
  have r: "retired_ok st" using assms(1) by (simp add: store_ok_def)
  have st': "st' = rotated kr nf through st"
    using rotate_keys_rotated [OF r rot] assms(2) by (simp add: rotate_keys_def)
  have e: "map_of (fs_retired_keys st) k = Some e" "\<not> epoch_dropped through e"
    using assms(3) by (auto simp: st' rotated_maps [OF r] split: option.splits if_splits)
  show "map_of (fs_retired_keys st) k = Some e" by (fact e(1))
  show "Suc e = kr_epoch (fs_retention st')"
    using retired_epochs [OF assms(1) e(1)] e(2) rotate_epoch_facts(1,11) [OF rot]
    by (auto simp: st' epoch_dropped_def checked_sub_def)
qed

lemma rotate_keys_not_Panic: "store_ok st \<Longrightarrow> rotate_keys reason st \<noteq> Panic"
  using rotate_keys_rotated [of st "fs_async_floor st" reason]
  by (auto simp: rotate_keys_def store_ok_def rotate_keys_with_floor_def outcome_simps)

definition within_limit :: "usize \<Rightarrow> fake_state \<Rightarrow> bool" where
  "within_limit maximum st \<longleftrightarrow>
     saturating_add (length (fs_key_fences st)) (fs_internal_keys st) \<le> maximum"

text \<open>What a run of the capacity loop with at most some number of rotations left gives.\<close>

definition loop_gives :: "usize \<Rightarrow> nat \<Rightarrow> nat \<Rightarrow> fake_state \<Rightarrow> bool" where
  "loop_gives maximum r n st \<longleftrightarrow>
     finalize_loop maximum r st \<noteq> Panic \<and>
     (\<forall>r' st'. finalize_loop maximum r st = Ok (r', st') \<longrightarrow>
        r' \<le> r + n \<and> store_ok st' \<and> (retention_ok st \<longrightarrow> retention_ok st') \<and> fences_grow st st' \<and>
        within_limit maximum st')"

lemma finalize_step:
  assumes ok: "store_ok st" and r: "r < 255"
    and next_: "\<And>st'. rotate_keys Capacity st = Ok st' \<Longrightarrow> fs_retired_keys st \<noteq> [] \<Longrightarrow>
      loop_gives maximum (Suc r) n st'"
  shows "loop_gives maximum r (Suc n) st"
proof (cases "within_limit maximum st \<or> fs_retired_keys st = []")
  case True
  then show ?thesis
    using ok by (auto simp: loop_gives_def finalize_loop.simps [of maximum r st] within_limit_def)
next
  case False
  show ?thesis
  proof (cases "rotate_keys Capacity st")
    case (Ok st')
    have "finalize_loop maximum r st = finalize_loop maximum (Suc r) st'"
      using False Ok r by (simp add: finalize_loop.simps [of maximum r st] within_limit_def)
    then show ?thesis
      using next_ [OF Ok] False rotate_keys_ok [OF ok Ok] fences_grow_trans
      by (auto simp: loop_gives_def)
  next
    case (Err e)
    then show ?thesis
      using False by (simp add: loop_gives_def finalize_loop.simps [of maximum r st] within_limit_def)
  qed (use rotate_keys_not_Panic [OF ok] in simp)
qed

lemma finalize_loop_bounded:
  assumes "store_ok st"
  shows "loop_gives maximum 0 2 st"
proof -
  have empty: "loop_gives maximum r 0 st" if "store_ok st" "fs_retired_keys st = []" for r st
    using that by (auto simp: loop_gives_def finalize_loop.simps [of maximum r st] within_limit_def)
  have young: "loop_gives maximum 1 1 st1" if st1: "store_ok st1"
    and epochs: "\<And>k e. map_of (fs_retired_keys st1) k = Some e \<Longrightarrow> Suc e = kr_epoch (fs_retention st1)" for st1
    unfolding One_nat_def
  proof (rule finalize_step [OF st1])
    fix st2 assume rot: "rotate_keys Capacity st1 = Ok st2"
    have "fs_retired_keys st2 = []"
    proof (rule ccontr)
      assume "fs_retired_keys st2 \<noteq> []"
      then obtain k e where "map_of (fs_retired_keys st2) k = Some e" by (auto simp: alist_empty_iff)
      from rotate_keys_ages [OF st1 rot this] epochs [of k e] rotate_keys_epoch(1) [OF rot] show False by simp
    qed
    with empty rotate_keys_ok(1) [OF st1 rot] show "loop_gives maximum (Suc (Suc 0)) 0 st2" by simp
  qed simp
  have "loop_gives maximum 0 (Suc 1) st"
    by (rule finalize_step [OF assms])
      (use young rotate_keys_ok(1) [OF assms] rotate_keys_ages(2) [OF assms] in auto)
  then show ?thesis by (simp add: numeral_2_eq_2)
qed

end
