(* ===== verification/Session_Safety.thy ===== *)
theory Session_Safety
  imports Session_Invariant "HOL-Library.Code_Target_Nat"
begin

text \<open>
  What the in-memory session backend promises its clients: publication keeps the invariant and
  the key limit, fences never go back, and a guard that a later grant has superseded is refused.
\<close>

section \<open>Publication\<close>

lemma store_ok_cong:
  assumes "store_ok st" "fs_records st' = fs_records st" "fs_leases st' = fs_leases st"
    "fs_key_fences st' = fs_key_fences st" "fs_retention st' = fs_retention st"
    "fs_async_floor st' = fs_async_floor st" "fs_retired_keys st' = fs_retired_keys st"
    "fs_retired_index st' = fs_retired_index st" "fs_next_fence st' = fs_next_fence st"
    "fs_next_credential st' = fs_next_credential st" "fs_candidates st' = fs_candidates st"
  shows "store_ok st'"
  using assms(1) unfolding store_ok_defs is_live_def assms(2-) .

lemma append_entry_fields [simp]:
  "fs_records (append_entry cfg e st) = fs_records st" "fs_leases (append_entry cfg e st) = fs_leases st"
  "fs_key_fences (append_entry cfg e st) = fs_key_fences st"
  "fs_retention (append_entry cfg e st) = fs_retention st"
  "fs_async_floor (append_entry cfg e st) = fs_async_floor st"
  "fs_internal_keys (append_entry cfg e st) = fs_internal_keys st"
  "fs_retired_keys (append_entry cfg e st) = fs_retired_keys st"
  "fs_retired_index (append_entry cfg e st) = fs_retired_index st"
  "fs_next_fence (append_entry cfg e st) = fs_next_fence st"
  "fs_next_credential (append_entry cfg e st) = fs_next_credential st"
  "fs_candidates (append_entry cfg e st) = fs_candidates st"
  "fs_pending (append_entry cfg e st) = fs_pending st"
  by (simp_all add: append_entry_def compact_replication_log_def Let_def)

text \<open>A published state: the invariant, the retention window and the key limit.\<close>

definition published_ok :: "fake_config \<Rightarrow> fake_state \<Rightarrow> bool" where
  "published_ok cfg st \<longleftrightarrow>
     store_ok st \<and> retention_ok st \<and> within_limit (max_tracked_keys (fc_limits cfg)) st"

lemma published_ok_cong:
  assumes "published_ok cfg st" "fs_records st' = fs_records st" "fs_leases st' = fs_leases st"
    "fs_key_fences st' = fs_key_fences st" "fs_retention st' = fs_retention st"
    "fs_async_floor st' = fs_async_floor st" "fs_retired_keys st' = fs_retired_keys st"
    "fs_retired_index st' = fs_retired_index st" "fs_next_fence st' = fs_next_fence st"
    "fs_next_credential st' = fs_next_credential st" "fs_candidates st' = fs_candidates st"
    "fs_internal_keys st' = fs_internal_keys st"
  shows "published_ok cfg st'"
proof -
  have "store_ok st'" by (rule store_ok_cong [of st]) (use assms in \<open>simp_all add: published_ok_def\<close>)
  then show ?thesis using assms by (simp add: published_ok_def retention_ok_def within_limit_def)
qed

lemma commit_direct_data_Ok:
  assumes "commit_direct_data cfg be staged seqn op t = Ok be'"
  shows "\<exists>st1 rotations st2. retire_dead_keys staged = Ok st1 \<and>
    finalize_key_capacity (max_tracked_keys (fc_limits cfg)) st1 = Ok (rotations, st2) \<and>
    (seqn \<noteq> None \<longrightarrow> validate_structure op = Ok ()) \<and>
    policy_validate (direct_policy st2 rotations) = Ok () \<and>
    fb_state be' = (case seqn of
       None \<Rightarrow> st2
     | Some n \<Rightarrow> append_entry cfg (direct_entry n op t (direct_policy st2 rotations)) st2)
       \<lparr>fs_committed_time := Some t\<rparr>"
proof -
  obtain st1 rotations st2 where st: "retire_dead_keys staged = Ok st1"
    "finalize_key_capacity (max_tracked_keys (fc_limits cfg)) st1 = Ok (rotations, st2)"
    "seqn \<noteq> None \<longrightarrow> validate_structure op = Ok ()"
    "policy_validate (direct_policy st2 rotations) = Ok ()"
    using assms by (auto simp: commit_direct_data_def outcome_simps Let_def split: if_splits)
  have "fb_state be' = (case seqn of
       None \<Rightarrow> st2
     | Some n \<Rightarrow> append_entry cfg (direct_entry n op t (direct_policy st2 rotations)) st2)
       \<lparr>fs_committed_time := Some t\<rparr>"
    using assms st
    by (auto simp: commit_direct_data_def outcome_simps Let_def append_direct_replication_entry_def
        publish_staged_data_def notify_watchers_def split: option.splits if_splits)
  with st show ?thesis by blast
qed

lemma commit_direct_data_ok:
  assumes ok: "store_ok staged" "retention_ok staged"
    and commit: "commit_direct_data cfg be staged seqn op t = Ok be'"
  shows "published_ok cfg (fb_state be')" "fences_grow staged (fb_state be')"
proof -
  obtain st1 rotations st2 where st: "retire_dead_keys staged = Ok st1"
    "finalize_key_capacity (max_tracked_keys (fc_limits cfg)) st1 = Ok (rotations, st2)"
    and be': "fb_state be' = (case seqn of
       None \<Rightarrow> st2
     | Some n \<Rightarrow> append_entry cfg (direct_entry n op t (direct_policy st2 rotations)) st2)
       \<lparr>fs_committed_time := Some t\<rparr>"
    using commit_direct_data_Ok [OF commit] by blast
  note retired = retire_dead_keys_ok [OF ok st(1)]
  have st2: "published_ok cfg st2" "fences_grow st1 st2"
    using finalize_loop_bounded [OF retired(1)] st(2) retired(2)
    by (auto simp: finalize_key_capacity_def loop_gives_def published_ok_def)
  show "published_ok cfg (fb_state be')"
    unfolding be' by (rule published_ok_cong [OF st2(1)]) (simp_all split: option.split)
  have "current_fence (fb_state be') k = current_fence st2 k" for k
    unfolding be' by (rule current_fence_cong) (simp_all split: option.split)
  then show "fences_grow staged (fb_state be')"
    using fences_grow_trans [OF retired(3) st2(2)] by (simp add: fences_grow_def)
qed

section \<open>Leases\<close>

lemma ok_except_lease:
  assumes ok: "ok_except k st" and nf: "fs_next_fence st \<le> nf" and nc: "fs_next_credential st \<le> nc"
    and cred: "nc < max_u64 \<Longrightarrow> le_credential_id e < nc" and top: "nf \<le> max_u64" "nc \<le> max_u64"
  shows "ok_except k (st\<lparr>fs_next_fence := nf, fs_next_credential := nc,
    fs_leases := AList.update k e (fs_leases st)\<rparr>)" (is "ok_except k ?s")
proof -
  have "keys_ok ?s" using ok by (simp add: ok_except_def keys_ok_def distinct_update)
  moreover have "bounds_ok ?s"
  proof -
    have b: "bounds_ok st" using ok by (simp add: ok_except_def)
    have "f < nf" if "nf < max_u64" "map_of (fs_key_fences st) j = Some f" for j f
      using b nf that unfolding bounds_ok_def by (meson order.strict_trans1 order.strict_trans2)
    moreover have "le_credential_id e' < nc" if "nc < max_u64"
      "map_of (AList.update k e (fs_leases st)) j = Some e'" for j e'
      using b nc cred that unfolding bounds_ok_def update_conv'
      by (cases "j = k") (auto dest: order.strict_trans1 intro: order.strict_trans2)
    ultimately show ?thesis using b nf nc top by (simp add: bounds_ok_def)
  qed
  moreover have "is_live ?s j = is_live st j" if "j \<noteq> k" for j
    using that by (simp add: is_live_def update_conv')
  ultimately show ?thesis using ok by (simp add: ok_except_def update_conv')
qed

lemma ok_except_floor:
  assumes "ok_except k st"
  shows "ok_except k (apply_async_floor_to_key k st)"
proof -
  have "keys_ok (apply_async_floor_to_key k st)"
    using assms by (simp add: ok_except_def keys_ok_def)
  moreover have "bounds_ok (apply_async_floor_to_key k st)"
    using assms by (auto simp: ok_except_def bounds_ok_def apply_floor_maps split: if_splits)
  ultimately show ?thesis using assms by (simp add: ok_except_def apply_floor_maps)
qed

text \<open>The state a grant stages.\<close>

lemma install_lease_ok:
  assumes ok: "store_ok st0" and st: "st = apply_async_floor_to_key k st0"
    and fence: "fs_next_fence st \<le> le_fence e" "current_fence st k < le_fence e" "le_fence e \<le> max_u64"
    and cred: "le_credential_id e = fs_next_credential st"
    and st': "st' = install_lease k e (st\<lparr>fs_next_fence := saturating_add (le_fence e) 1,
        fs_next_credential := saturating_add (fs_next_credential st) 1\<rparr>)"
  shows "store_ok st'" "fences_grow st0 st'" "current_fence st' k = le_fence e"
    "fs_next_fence st0 \<le> fs_next_fence st'" "fs_retention st' = fs_retention st0"
proof -
  have bounds: "fs_next_fence st \<le> max_u64" "fs_next_credential st \<le> max_u64"
    using ok by (simp_all add: st store_ok_def bounds_ok_def)
  let ?s = "st\<lparr>fs_next_fence := saturating_add (le_fence e) 1,
    fs_next_credential := saturating_add (fs_next_credential st) 1,
    fs_leases := AList.update k e (fs_leases st)\<rparr>"
  have s': "st' = set_fence k (le_fence e) ?s" by (simp add: st' install_lease_def)
  have "ok_except k ?s"
    using ok_except_floor [OF store_ok_except [OF ok]] fence cred bounds
    by (intro ok_except_lease) (simp_all add: st saturating_add_def min_def split: if_splits)
  then show "store_ok st'"
    unfolding s' by (rule set_fence_ok)
      (use fence in \<open>auto simp: is_live_def update_conv' saturating_add_def min_def split: if_splits\<close>)
  have cur: "current_fence ?s j = current_fence st0 j" for j
    using current_fence_cong [of ?s st j] by (simp add: st)
  with fence(2) show "fences_grow st0 st'"
    using set_fence_grow [of ?s k "le_fence e"] by (simp add: s' fences_grow_def st)
  have "fs_async_floor st < le_fence e"
    using fence(1) ok by (simp add: st store_ok_def bounds_ok_def)
  then show "current_fence st' k = le_fence e" by (simp add: s' set_fence_current max_def)
  show "fs_next_fence st0 \<le> fs_next_fence st'" "fs_retention st' = fs_retention st0"
    using fence(1,3) by (simp_all add: s' st saturating_add_def)
qed

section \<open>Requests\<close>

lemma fold_field: "(\<And>k s. g (f k s) = g s) \<Longrightarrow> g (fold f ks s) = g s"
  by (induction ks arbitrary: s) simp_all

lemma prune_state_fields [simp]:
  "fs_retention (prune_state now st) = fs_retention st"
  "fs_next_fence (prune_state now st) = fs_next_fence st"
  "fs_next_credential (prune_state now st) = fs_next_credential st"
  "fs_async_floor (prune_state now st) = fs_async_floor st"
  "fs_internal_keys (prune_state now st) = fs_internal_keys st"
  "fs_pending (prune_state now st) = fs_pending st"
  "fs_last_sequence (prune_state now st) = fs_last_sequence st"
  "fs_log (prune_state now st) = fs_log st"
  "fs_compacted (prune_state now st) = fs_compacted st"
  "fs_committed_time (prune_state now st) = fs_committed_time st"
  by (simp_all add: prune_state_def prune_record_def prune_lease_def Let_def fold_field)

definition step_ok :: "fake_config \<Rightarrow> fake_backend \<Rightarrow> fake_backend \<Rightarrow> bool" where
  "step_ok cfg be be' \<longleftrightarrow>
     published_ok cfg (fb_state be') \<and> fences_grow (fb_state be) (fb_state be')"

lemma step_ok_same: "published_ok cfg (fb_state be) \<Longrightarrow> fb_state be' = fb_state be \<Longrightarrow> step_ok cfg be be'"
  by (simp add: step_ok_def)

lemma command_time_state [simp]:
  "fb_state (snd (command_time clock be)) = fb_state be"
  "fb_notified (snd (command_time clock be)) = fb_notified be"
  by (simp_all add: command_time_def Let_def)

lemma record_expired_state [simp]:
  "fb_state (snd (record_expired be r now)) = fb_state be"
  "fb_notified (snd (record_expired be r now)) = fb_notified be"
  by (simp_all add: record_expired_def Let_def)

lemma get_for_read_state [simp]:
  "fb_state (snd (get_for_read be k now)) = fb_state be"
  "fb_notified (snd (get_for_read be k now)) = fb_notified be"
proof -
  have "fb_state (snd (get_for_read be k now)) = fb_state be \<and>
      fb_notified (snd (get_for_read be k now)) = fb_notified be"
  proof (cases "map_of (fs_records (fb_state be)) (map_key k)")
    case (Some r)
    then show ?thesis using record_expired_state [of be r now]
      by (simp add: get_for_read_def split_beta del: record_expired_state)
  qed (simp add: get_for_read_def)
  then show "fb_state (snd (get_for_read be k now)) = fb_state be"
    "fb_notified (snd (get_for_read be k now)) = fb_notified be" by simp_all
qed

text \<open>A commit of data staged on top of the pruned state is a step of the backend.\<close>

lemma commit_step:
  assumes be: "published_ok cfg (fb_state be)"
    and staged: "store_ok staged" "fences_grow (prune_state now (fb_state be)) staged"
      "fs_retention staged = fs_retention (fb_state be)" "fs_next_fence (fb_state be) \<le> fs_next_fence staged"
    and commit: "commit_direct_data cfg be0 staged seqn op t = Ok be'"
  shows "step_ok cfg be be'"
proof -
  have "store_ok (fb_state be)" "retention_ok (fb_state be)" using be by (simp_all add: published_ok_def)
  then have "retention_ok staged"
    using staged(3,4) by (auto simp: retention_ok_def retention_valid_def)
  note c = commit_direct_data_ok [OF staged(1) this commit]
  have "fences_grow (fb_state be) staged"
    using staged(2) prune_state_ok(2) [OF \<open>store_ok (fb_state be)\<close>] by (simp add: fences_grow_def)
  with c show ?thesis using fences_grow_trans by (auto simp: step_ok_def)
qed

lemma fenced_fields:
  "compare_and_set_with_state cfg st op now = Ok (st', result) \<Longrightarrow>
     fs_retention st' = fs_retention st \<and> fs_next_fence st' = fs_next_fence st"
  "delete_fenced_with_state cfg st lease now = Ok st' \<Longrightarrow>
     fs_retention st' = fs_retention st \<and> fs_next_fence st' = fs_next_fence st"
  "refresh_ttl_with_state cfg st lease ttl now = Ok (st', t) \<Longrightarrow>
     fs_retention st' = fs_retention st \<and> fs_next_fence st' = fs_next_fence st"
proof -
  show "compare_and_set_with_state cfg st op now = Ok (st', result) \<Longrightarrow>
     fs_retention st' = fs_retention st \<and> fs_next_fence st' = fs_next_fence st"
    using compare_and_set_Ok [of cfg st op now st' result]
    by (cases "result = CasSuccess") (auto simp: put_record_def)
  show "delete_fenced_with_state cfg st lease now = Ok st' \<Longrightarrow>
     fs_retention st' = fs_retention st \<and> fs_next_fence st' = fs_next_fence st"
    using delete_fenced_Ok(2) [of cfg st lease now st'] by auto
  show "refresh_ttl_with_state cfg st lease ttl now = Ok (st', t) \<Longrightarrow>
     fs_retention st' = fs_retention st \<and> fs_next_fence st' = fs_next_fence st"
    using refresh_ttl_Ok(2) by (fastforce simp: put_record_def)
qed

lemma published_prune: "published_ok cfg (fb_state be) \<Longrightarrow> store_ok (prune_state now (fb_state be))"
  by (simp add: published_ok_def prune_state_ok)

text \<open>
  An operation either keeps the published data and does not report success, or commits the data
  it staged on the pruned state.
\<close>

definition commits ::
  "fake_config \<Rightarrow> fake_backend \<Rightarrow> replication_op \<Rightarrow> fake_state \<Rightarrow> timestamp \<Rightarrow> fake_backend \<Rightarrow> bool" where
  "commits cfg be op staged t be' \<longleftrightarrow>
     (\<exists>be0 seqn. fb_state be0 = fb_state be \<and> fb_notified be0 = fb_notified be \<and>
        next_direct_replication_sequence cfg (fb_state be) = Ok seqn \<and>
        commit_direct_data cfg be0 staged seqn op t = Ok be')"

lemma next_direct_prune [simp]:
  "next_direct_replication_sequence cfg (prune_state now st) = next_direct_replication_sequence cfg st"
  by (simp add: next_direct_replication_sequence_def require_complete_replay_command_def)

lemma finish_cases:
  assumes "finish be0 m = (be', r)"
  shows "(be' = be0 \<and> (\<forall>v. r \<noteq> Ok v)) \<or> (\<exists>v. r = Ok v \<and> m = Ok (be', v))"
  using assms by (auto simp: finish_def split: result.splits)

lemma compare_and_set_cases:
  assumes "backend_compare_and_set cfg clock op be = (be', r)"
  defines "now \<equiv> fst (command_time clock be)"
  shows "(fb_state be' = fb_state be \<and> fb_notified be' = fb_notified be \<and> r \<noteq> Ok CasSuccess) \<or>
    (r = Ok CasSuccess \<and> (\<exists>staged.
       compare_and_set_with_state cfg (prune_state now (fb_state be)) op now = Ok (staged, CasSuccess) \<and>
       commits cfg be (cas_replication_op op) staged now be'))"
  using finish_cases [OF assms(1) [unfolded backend_compare_and_set_def Let_def split_beta]]
  by (auto simp: outcome_simps commits_def now_def split: if_splits)

lemma delete_fenced_cases:
  assumes "backend_delete_fenced cfg clock lease be = (be', r)"
  defines "now \<equiv> fst (command_time clock be)"
  shows "(fb_state be' = fb_state be \<and> fb_notified be' = fb_notified be \<and> r \<noteq> Ok ()) \<or>
    (r = Ok () \<and> (\<exists>staged.
       delete_fenced_with_state cfg (prune_state now (fb_state be)) lease now = Ok staged \<and>
       commits cfg be (delete_replication_op lease) staged now be'))"
  using finish_cases [OF assms(1) [unfolded backend_delete_fenced_def Let_def split_beta]]
  by (auto simp: outcome_simps commits_def now_def split: if_splits)

lemma refresh_ttl_cases:
  assumes "backend_refresh_ttl cfg clock lease ttl be = (be', r)"
  defines "now \<equiv> fst (command_time clock be)"
  shows "(fb_state be' = fb_state be \<and> fb_notified be' = fb_notified be \<and> r \<noteq> Ok ()) \<or>
    (r = Ok () \<and> (\<exists>staged expires_at.
       refresh_ttl_with_state cfg (prune_state now (fb_state be)) lease ttl now = Ok (staged, expires_at) \<and>
       commits cfg be (refresh_replication_op lease ttl expires_at) staged now be'))"
proof (cases "validate_session_ttl ttl")
  case (Ok u)
  show ?thesis
    using finish_cases [OF assms(1) [unfolded backend_refresh_ttl_def Let_def split_beta Ok result.case]]
    by (auto simp: outcome_simps commits_def now_def split: if_splits)
qed (use assms(1) in \<open>auto simp: backend_refresh_ttl_def\<close>)

lemma acquire_cases:
  assumes "backend_acquire cfg clock key owner ttl be = (be', r)"
  defines "now \<equiv> fst (command_time clock be)" and "k \<equiv> map_key key"
  defines "st \<equiv> apply_async_floor_to_key k (prune_state now (fb_state be))"
  shows "(fb_state be' = fb_state be \<and> fb_notified be' = fb_notified be \<and> (\<forall>g. r \<noteq> Ok g)) \<or>
    (\<exists>g. r = Ok g \<and> lg_key g = key \<and> lg_owner g = owner \<and> \<not> lease_held_by_other st k owner now \<and>
       current_fence st k < max_u64 \<and>
       lg_fence g = max (fs_next_fence st) (current_fence st k + 1) \<and>
       lg_credential_id g = fs_next_credential st \<and>
       checked_session_deadline now ttl = Ok (lg_expires_at g) \<and>
       ensure_key_capacity st k (max_tracked_keys (fc_limits cfg)) = Ok () \<and>
       commits cfg be
         (OpAcquireLease key owner (lg_fence g) (fs_next_credential st) ttl (lg_expires_at g))
         (install_lease k
         \<lparr>le_active = True, le_credential_id = fs_next_credential st, le_owner = owner,
          le_fence = lg_fence g, le_acquired_at = now, le_expires_at = lg_expires_at g,
          le_guard_expires_at = lg_expires_at g\<rparr>
         (st\<lparr>fs_next_fence := saturating_add (lg_fence g) 1,
             fs_next_credential := saturating_add (fs_next_credential st) 1\<rparr>)) now be')"
proof (cases "validate_session_ttl ttl")
  case (Ok u)
  show ?thesis
    using finish_cases [OF assms(1) [unfolded backend_acquire_def Let_def split_beta Ok map_err.simps result.case]]
    by (auto simp: outcome_simps commits_def assms(2-) Let_def split: if_splits)
qed (use assms(1) in \<open>auto simp: backend_acquire_def\<close>)

lemma match_lease_Ok:
  assumes "match_lease st lease = Ok e"
  shows "map_of (fs_leases st) (map_key (lg_key lease)) = Some e" "le_active e"
    "le_credential_id e = lg_credential_id lease" "le_owner e = lg_owner lease"
    "le_fence e = lg_fence lease" "le_guard_expires_at e = lg_expires_at lease"
  using assms by (auto simp: match_lease_def Let_def split: option.splits if_splits)

lemma renew_cases:
  assumes "backend_renew cfg clock lease ttl be = (be', r)"
  defines "now \<equiv> fst (command_time clock be)" and "k \<equiv> map_key (lg_key lease)"
  defines "st \<equiv> apply_async_floor_to_key k (prune_state now (fb_state be))"
  shows "(fb_state be' = fb_state be \<and> fb_notified be' = fb_notified be \<and> (\<forall>g. r \<noteq> Ok g)) \<or>
    (\<exists>g e. r = Ok g \<and> lg_key g = lg_key lease \<and> lg_owner g = lg_owner lease \<and>
       lg_fence g = lg_fence lease \<and> lg_credential_id g = lg_credential_id lease \<and>
       match_lease st lease = Ok e \<and> now < le_expires_at e \<and>
       guard_floor_stale st lease = False \<and> checked_session_deadline now ttl = Ok (lg_expires_at g) \<and>
       commits cfg be (OpRenewLease (lg_key lease) (lg_owner lease) (lg_fence lease)
         (lg_credential_id lease) ttl (lg_expires_at g))
       (st\<lparr>fs_leases := AList.update k
         (e\<lparr>le_expires_at := lg_expires_at g, le_guard_expires_at := lg_expires_at g\<rparr>)
         (fs_leases st)\<rparr>) now be')"
proof (cases "validate_session_ttl ttl")
  case (Ok u)
  show ?thesis
    using finish_cases [OF assms(1) [unfolded backend_renew_def Let_def split_beta Ok map_err.simps result.case]]
      match_lease_Ok(3)
    by (auto simp: outcome_simps commits_def assms(2-) Let_def split: if_splits)
qed (use assms(1) in \<open>auto simp: backend_renew_def\<close>)

lemma release_cases:
  assumes "backend_release cfg clock lease be = (be', r)"
  defines "now \<equiv> fst (command_time clock be)" and "k \<equiv> map_key (lg_key lease)"
  defines "st \<equiv> apply_async_floor_to_key k (prune_state now (fb_state be))"
  shows "(fb_state be' = fb_state be \<and> fb_notified be' = fb_notified be \<and> r \<noteq> Ok ()) \<or>
    (\<exists>e. r = Ok () \<and> match_lease st lease = Ok e \<and>
       guard_floor_stale st lease = False \<and>
       commits cfg be (OpReleaseLease (lg_key lease) (lg_owner lease) (lg_fence lease) (lg_credential_id lease))
       (st\<lparr>fs_leases := AList.update k (e\<lparr>le_active := False, le_guard_expires_at := now\<rparr>)
         (fs_leases st)\<rparr>) now be')"
  using finish_cases [OF assms(1) [unfolded backend_release_def Let_def split_beta]]
  by (auto simp: outcome_simps commits_def assms(2-) Let_def split: if_splits)

text \<open>What the staged data of an operation owes to the pruned state.\<close>

definition stage_ok :: "fake_state \<Rightarrow> fake_state \<Rightarrow> bool" where
  "stage_ok st staged \<longleftrightarrow>
     store_ok staged \<and> fences_grow st staged \<and> fs_retention staged = fs_retention st \<and>
     fs_next_fence st \<le> fs_next_fence staged"

lemma stage_ok_trans: "stage_ok st st' \<Longrightarrow> stage_ok st' st'' \<Longrightarrow> stage_ok st st''"
  using fences_grow_trans by (auto simp: stage_ok_def)

lemma stage_ok_refl: "store_ok st \<Longrightarrow> stage_ok st st"
  by (simp add: stage_ok_def)

lemma commits_step:
  assumes "published_ok cfg (fb_state be)" "commits cfg be op staged now be'"
    "stage_ok (prune_state now (fb_state be)) staged"
  shows "step_ok cfg be be'" "fences_grow staged (fb_state be')"
proof -
  obtain be0 seqn where commit: "commit_direct_data cfg be0 staged seqn op now = Ok be'"
    using assms(2) by (auto simp: commits_def)
  show "step_ok cfg be be'"
    using assms(3) by (intro commit_step [where now = now, OF assms(1) _ _ _ _ commit]) (simp_all add: stage_ok_def)
  have "retention_ok staged"
    using assms(1,3) by (auto simp: published_ok_def retention_ok_def retention_valid_def stage_ok_def)
  then show "fences_grow staged (fb_state be')"
    using commit_direct_data_ok(2) [OF _ _ commit] assms(3) by (simp add: stage_ok_def)
qed

lemma fenced_stage:
  assumes "store_ok st"
  shows "compare_and_set_with_state cfg st op now = Ok (st', result) \<Longrightarrow> stage_ok st st'"
    and "delete_fenced_with_state cfg st lease now = Ok st' \<Longrightarrow> stage_ok st st'"
    and "refresh_ttl_with_state cfg st lease ttl now = Ok (st', t) \<Longrightarrow> stage_ok st st'"
  unfolding stage_ok_def
  using fenced_steps_ok [OF assms] fenced_fields [of cfg st] by (metis order_refl)+

lemma lease_update_stage:
  assumes ok: "store_ok st0" and e: "map_of (fs_leases (apply_async_floor_to_key k st0)) k = Some e"
    and e': "lease_weaker e' e"
  defines "st \<equiv> apply_async_floor_to_key k st0"
  shows "stage_ok st0 (st\<lparr>fs_leases := AList.update k e' (fs_leases st)\<rparr>)"
proof -
  have "is_live st0 k" using e by (auto simp: is_live_def apply_floor_maps)
  then have st: "store_ok st" unfolding st_def by (intro apply_floor_ok [OF ok] live_not_retired [OF ok])
  have "store_ok (st\<lparr>fs_leases := AList.update k e' (fs_leases st)\<rparr>)"
    using st
    by (rule store_ok_shrink)
      (use st e e' in \<open>auto simp: store_ok_def keys_ok_def distinct_update update_conv' st_def
        lease_weaker_def split: if_splits\<close>)
  moreover have "current_fence (st\<lparr>fs_leases := AList.update k e' (fs_leases st)\<rparr>) j = current_fence st0 j" for j
    using current_fence_cong [of "st\<lparr>fs_leases := AList.update k e' (fs_leases st)\<rparr>" st j] by (simp add: st_def)
  ultimately show ?thesis by (simp add: stage_ok_def fences_grow_def st_def)
qed

lemma compare_and_set_step:
  assumes be: "published_ok cfg (fb_state be)" and eq: "backend_compare_and_set cfg clock op be = (be', r)"
  shows "step_ok cfg be be'"
  using compare_and_set_cases [OF eq] step_ok_same [OF be] commits_step(1) [OF be]
    fenced_stage(1) [OF published_prune [OF be]] by blast

lemma delete_fenced_step:
  assumes be: "published_ok cfg (fb_state be)" and eq: "backend_delete_fenced cfg clock lease be = (be', r)"
  shows "step_ok cfg be be'"
  using delete_fenced_cases [OF eq] step_ok_same [OF be] commits_step(1) [OF be]
    fenced_stage(2) [OF published_prune [OF be]] by blast

lemma refresh_ttl_step:
  assumes be: "published_ok cfg (fb_state be)" and eq: "backend_refresh_ttl cfg clock lease ttl be = (be', r)"
  shows "step_ok cfg be be'"
  using refresh_ttl_cases [OF eq] step_ok_same [OF be] commits_step(1) [OF be]
    fenced_stage(3) [OF published_prune [OF be]] by blast

lemma renew_step:
  assumes be: "published_ok cfg (fb_state be)" and eq: "backend_renew cfg clock lease ttl be = (be', r)"
  shows "step_ok cfg be be'"
  using renew_cases [OF eq]
proof (elim disjE exE conjE)
  fix g :: lease_guard and e :: lease_entry
  let ?now = "fst (command_time clock be)" and ?k = "map_key (lg_key lease)"
  let ?st = "apply_async_floor_to_key ?k (prune_state ?now (fb_state be))"
  let ?e = "e\<lparr>le_expires_at := lg_expires_at g, le_guard_expires_at := lg_expires_at g\<rparr>"
  assume "match_lease ?st lease = Ok e"
    "commits cfg be (OpRenewLease (lg_key lease) (lg_owner lease) (lg_fence lease) (lg_credential_id lease)
       ttl (lg_expires_at g)) (?st\<lparr>fs_leases := AList.update ?k ?e (fs_leases ?st)\<rparr>) ?now be'"
  moreover have "lease_weaker ?e e" by (simp add: lease_weaker_def)
  ultimately show ?thesis
    using lease_update_stage [OF published_prune [OF be]] commits_step(1) [OF be] match_lease_Ok(1) by blast
qed (use step_ok_same [OF be] in simp)

lemma release_step:
  assumes be: "published_ok cfg (fb_state be)" and eq: "backend_release cfg clock lease be = (be', r)"
  shows "step_ok cfg be be'"
  using release_cases [OF eq]
proof (elim disjE exE conjE)
  fix e :: lease_entry
  let ?now = "fst (command_time clock be)" and ?k = "map_key (lg_key lease)"
  let ?st = "apply_async_floor_to_key ?k (prune_state ?now (fb_state be))"
  let ?e = "e\<lparr>le_active := False, le_guard_expires_at := ?now\<rparr>"
  assume "match_lease ?st lease = Ok e"
    "commits cfg be (OpReleaseLease (lg_key lease) (lg_owner lease) (lg_fence lease) (lg_credential_id lease))
       (?st\<lparr>fs_leases := AList.update ?k ?e (fs_leases ?st)\<rparr>) ?now be'"
  moreover have "lease_weaker ?e e" by (simp add: lease_weaker_def)
  ultimately show ?thesis
    using lease_update_stage [OF published_prune [OF be]] commits_step(1) [OF be] match_lease_Ok(1) by blast
qed (use step_ok_same [OF be] in simp)

text \<open>A grant carries a fence above every fence the key has had, and moves the key up to it.\<close>

lemma acquire_step:
  assumes be: "published_ok cfg (fb_state be)" and eq: "backend_acquire cfg clock key owner ttl be = (be', r)"
  shows "step_ok cfg be be' \<and> (\<forall>g. r = Ok g \<longrightarrow>
      current_fence (fb_state be) (map_key key) < lg_fence g \<and>
      lg_fence g \<le> current_fence (fb_state be') (map_key key))"
  using acquire_cases [OF eq]
proof (elim disjE exE conjE)
  let ?now = "fst (command_time clock be)" and ?k = "map_key key"
  let ?pre = "prune_state ?now (fb_state be)"
  let ?st = "apply_async_floor_to_key ?k ?pre"
  fix g :: lease_guard
  let ?e = "\<lparr>le_active = True, le_credential_id = fs_next_credential ?st, le_owner = owner,
    le_fence = lg_fence g, le_acquired_at = ?now, le_expires_at = lg_expires_at g,
    le_guard_expires_at = lg_expires_at g\<rparr>"
  define e where "e = ?e"
  let ?s = "install_lease ?k e (?st\<lparr>fs_next_fence := saturating_add (le_fence e) 1,
    fs_next_credential := saturating_add (fs_next_credential ?st) 1\<rparr>)"
  assume r: "r = Ok g" and max: "current_fence ?st ?k < max_u64"
    and g: "lg_fence g = max (fs_next_fence ?st) (current_fence ?st ?k + 1)"
    and c: "commits cfg be
      (OpAcquireLease key owner (lg_fence g) (fs_next_credential ?st) ttl (lg_expires_at g))
      (install_lease ?k ?e (?st\<lparr>fs_next_fence := saturating_add (lg_fence g) 1,
      fs_next_credential := saturating_add (fs_next_credential ?st) 1\<rparr>)) ?now be'"
  from c have c: "commits cfg be
      (OpAcquireLease key owner (lg_fence g) (fs_next_credential ?st) ttl (lg_expires_at g)) ?s ?now be'"
    by (simp only: e_def lease_entry.select_convs)
  have "lg_fence g \<le> max_u64"
    using max g be by (simp add: published_ok_def store_ok_def bounds_ok_def)
  then have e: "fs_next_fence ?st \<le> le_fence e" "current_fence ?st ?k < le_fence e"
    "le_fence e \<le> max_u64" "le_credential_id e = fs_next_credential ?st"
    using g by (simp_all add: e_def)
  note i = install_lease_ok [OF published_prune [OF be, of ?now] refl e refl]
  then have stage: "stage_ok ?pre ?s" by (simp only: stage_ok_def simp_thms)
  have "current_fence (fb_state be) ?k < lg_fence g"
    using g be by (simp add: published_ok_def prune_state_ok)
  moreover have "lg_fence g \<le> current_fence (fb_state be') ?k"
    using commits_step(2) [OF be c stage] i(3) by (simp add: fences_grow_def e_def) metis
  ultimately show ?thesis using commits_step(1) [OF be c stage] r by simp
qed (use step_ok_same [OF be] in simp)

section \<open>Batches\<close>

lemma batch_slot_stage:
  assumes "store_ok (bs_state b)" "batch_slot cfg be now op b = Ok b'"
  shows "stage_ok (bs_state b) (bs_state b')"
  using assms(2) fenced_stage [OF assms(1), of cfg] stage_ok_refl [OF assms(1)]
  by (cases op) (auto simp: Let_def split: result.splits prod.splits if_splits)

lemma batch_slot_read: "batch_slot cfg be now op b = Ok b' \<Longrightarrow> \<not> is_write op \<Longrightarrow>
    bs_replication b' = bs_replication b \<and> bs_state b' = bs_state b"
  by (cases op) (auto simp: Let_def)

lemma batch_loop_stage:
  assumes "store_ok (bs_state b)" "batch_loop cfg be now ops b = Ok b'"
  shows "stage_ok (bs_state b) (bs_state b') \<and>
    (\<not> list_ex is_write ops \<longrightarrow> bs_replication b' = bs_replication b)"
  using assms
proof (induction ops arbitrary: b)
  case Nil
  then show ?case by (simp add: stage_ok_refl)
next
  case (Cons op ops)
  then obtain b1 where b1: "batch_slot cfg be now op b = Ok b1" "batch_loop cfg be now ops b1 = Ok b'"
    by (auto simp: outcome_simps)
  have stage: "stage_ok (bs_state b) (bs_state b1)" using Cons.prems(1) b1(1) by (rule batch_slot_stage)
  then have "store_ok (bs_state b1)" by (simp add: stage_ok_def)
  from Cons.IH [OF this b1(2)] stage show ?case
    using stage_ok_trans batch_slot_read [OF b1(1)] by (auto simp: list.pred_set)
qed

lemma mark_expired_state [simp]: "fb_state (fold (mark_expired now) rs be) = fb_state be"
  by (rule fold_field) (simp add: mark_expired_def)

lemma batch_body_step:
  assumes be: "published_ok cfg (fb_state be)" and body: "batch_body cfg now ops be = Ok (be', rs)"
  shows "step_ok cfg be be'"
proof -
  let ?st = "if list_ex is_write ops then prune_state now (fb_state be) else fb_state be"
  obtain b be1 where b: "batch_loop cfg be now ops
      \<lparr>bs_state = ?st, bs_replication = [], bs_expired = [], bs_results = []\<rparr> = Ok b"
    and commit: "(if bs_replication b \<noteq> []
      then and_then (next_direct_replication_sequence cfg (fb_state be)) (\<lambda>seqn.
        commit_direct_data cfg be (bs_state b) seqn (OpBatch (bs_replication b)) now)
      else Ok be) = Ok be1" and be': "be' = fold (mark_expired now) (bs_expired b) be1"
    using body by (cases "cap_batch_write (fc_caps cfg)") (auto simp: batch_body_def outcome_simps Let_def)
  have "store_ok ?st" using published_prune [OF be] be by (simp add: published_ok_def)
  with batch_loop_stage [OF _ b] have stage: "stage_ok ?st (bs_state b)"
    "\<not> list_ex is_write ops \<longrightarrow> bs_replication b = []" by auto
  have "step_ok cfg be be1"
  proof (cases "bs_replication b = []")
    case True
    then show ?thesis using commit be by (simp add: step_ok_def)
  next
    case False
    then have "commits cfg be (OpBatch (bs_replication b)) (bs_state b) now be1"
      using commit by (auto simp: outcome_simps commits_def)
    then show ?thesis
      using commits_step(1) [OF be] stage False by auto
  qed
  then show ?thesis by (simp add: be' step_ok_def)
qed

lemma batch_step:
  assumes be: "published_ok cfg (fb_state be)" and eq: "backend_batch cfg clock ops be = (be', r)"
  shows "step_ok cfg be be'"
proof -
  have finish: "step_ok cfg be be'"
    if "fb_state be0 = fb_state be" "finish be0 (batch_body cfg now ops be0) = (be', r)" for be0 now
  proof -
    have "published_ok cfg (fb_state be0)" using be that(1) by simp
    from batch_body_step [OF this] finish_cases [OF that(2)] that(1) step_ok_same [OF be]
    show ?thesis by (auto simp: step_ok_def)
  qed
  show ?thesis
    using eq finish step_ok_same [OF be] command_time_state [of clock be]
    by (auto simp: backend_batch_def split: if_splits result.splits prod.splits simp del: command_time_state)
qed

section \<open>Runs\<close>

datatype request =
    ReqGet session_key
  | ReqCompareAndSet compare_and_set
  | ReqDeleteFenced lease_guard
  | ReqRefreshTtl lease_guard duration
  | ReqBatch "session_op list"
  | ReqAcquire session_key string duration
  | ReqRenew lease_guard duration
  | ReqRelease lease_guard

datatype reply =
    RepGet "(stored_record option, store_error) result"
  | RepCompareAndSet "(cas_result, store_error) result"
  | RepUnit "(unit, store_error) result"
  | RepBatch "(session_op_result list, store_error) result"
  | RepGuard "(lease_guard, lease_error) result"
  | RepRelease "(unit, lease_error) result"

text \<open>A request at the time its clock sample gives.\<close>

fun backend_exec :: "fake_config \<Rightarrow> timestamp \<times> request \<Rightarrow> fake_backend \<Rightarrow> fake_backend \<times> reply" where
  "backend_exec cfg (t, ReqGet key) be = map_prod id RepGet (backend_get t key be)"
| "backend_exec cfg (t, ReqCompareAndSet op) be =
     map_prod id RepCompareAndSet (backend_compare_and_set cfg t op be)"
| "backend_exec cfg (t, ReqDeleteFenced lease) be =
     map_prod id RepUnit (backend_delete_fenced cfg t lease be)"
| "backend_exec cfg (t, ReqRefreshTtl lease ttl) be =
     map_prod id RepUnit (backend_refresh_ttl cfg t lease ttl be)"
| "backend_exec cfg (t, ReqBatch ops) be = map_prod id RepBatch (backend_batch cfg t ops be)"
| "backend_exec cfg (t, ReqAcquire key owner ttl) be =
     map_prod id RepGuard (backend_acquire cfg t key owner ttl be)"
| "backend_exec cfg (t, ReqRenew lease ttl) be =
     map_prod id RepGuard (backend_renew cfg t lease ttl be)"
| "backend_exec cfg (t, ReqRelease lease) be =
     map_prod id RepRelease (backend_release cfg t lease be)"

definition backend_step :: "fake_config \<Rightarrow> timestamp \<times> request \<Rightarrow> fake_backend \<Rightarrow> fake_backend" where
  "backend_step cfg tr be = fst (backend_exec cfg tr be)"

text \<open>
  The guards a request presents, one per mutation of a batch; the request without the mutations that
  present a given guard; the grant a reply carries, and whether a reply reports success.
\<close>

fun op_guard :: "session_op \<Rightarrow> lease_guard option" where
  "op_guard (SGet key) = None"
| "op_guard (SCompareAndSet op) = Some (cas_lease op)"
| "op_guard (SDeleteFenced lease) = Some lease"
| "op_guard (SRefreshTtl lease ttl) = Some lease"

fun slot_refused :: "session_op_result \<Rightarrow> bool" where
  "slot_refused (RGet r) = (case r of Ok _ \<Rightarrow> False | _ \<Rightarrow> True)"
| "slot_refused (RCompareAndSet r) = (case r of Ok _ \<Rightarrow> False | _ \<Rightarrow> True)"
| "slot_refused (RDeleteFenced r) = (case r of Ok _ \<Rightarrow> False | _ \<Rightarrow> True)"
| "slot_refused (RRefreshTtl r) = (case r of Ok _ \<Rightarrow> False | _ \<Rightarrow> True)"

definition slots_refused :: "lease_guard \<Rightarrow> session_op list \<Rightarrow> session_op_result list \<Rightarrow> bool" where
  "slots_refused g ops rs \<longleftrightarrow> list_all2 (\<lambda>op r. op_guard op = Some g \<longrightarrow> slot_refused r) ops rs"

definition keep_slots :: "lease_guard \<Rightarrow> session_op list \<Rightarrow> session_op list" where
  "keep_slots g ops = filter (\<lambda>op. op_guard op \<noteq> Some g) ops"

fun presented_guards :: "request \<Rightarrow> lease_guard list" where
  "presented_guards (ReqCompareAndSet op) = [cas_lease op]"
| "presented_guards (ReqDeleteFenced lease) = [lease]"
| "presented_guards (ReqRefreshTtl lease ttl) = [lease]"
| "presented_guards (ReqBatch ops) = List.map_filter op_guard ops"
| "presented_guards (ReqRenew lease ttl) = [lease]"
| "presented_guards (ReqRelease lease) = [lease]"
| "presented_guards _ = []"

fun without_guard :: "lease_guard \<Rightarrow> request \<Rightarrow> request" where
  "without_guard g (ReqBatch ops) = ReqBatch (keep_slots g ops)"
| "without_guard g req = req"

fun granted :: "request \<Rightarrow> reply \<Rightarrow> lease_guard option" where
  "granted (ReqAcquire key owner ttl) (RepGuard (Ok g)) = Some g"
| "granted _ _ = None"

fun accepted :: "reply \<Rightarrow> bool" where
  "accepted (RepGet r) = (case r of Ok _ \<Rightarrow> True | _ \<Rightarrow> False)"
| "accepted (RepCompareAndSet r) = (case r of Ok _ \<Rightarrow> True | _ \<Rightarrow> False)"
| "accepted (RepUnit r) = (case r of Ok _ \<Rightarrow> True | _ \<Rightarrow> False)"
| "accepted (RepBatch r) = (case r of Ok _ \<Rightarrow> True | _ \<Rightarrow> False)"
| "accepted (RepGuard r) = (case r of Ok _ \<Rightarrow> True | _ \<Rightarrow> False)"
| "accepted (RepRelease r) = (case r of Ok _ \<Rightarrow> True | _ \<Rightarrow> False)"

text \<open>
  A reply refuses a guard when it reports no success; a batch that is carried out refuses it in every
  slot that presents it.
\<close>

fun guard_refused :: "lease_guard \<Rightarrow> request \<Rightarrow> reply \<Rightarrow> bool" where
  "guard_refused g (ReqBatch ops) (RepBatch (Ok rs)) = slots_refused g ops rs"
| "guard_refused g req rep = (\<not> accepted rep)"

definition backend_run :: "fake_config \<Rightarrow> (timestamp \<times> request) list \<Rightarrow> fake_backend \<Rightarrow> fake_backend" where
  "backend_run cfg reqs be = fold (backend_step cfg) reqs be"

lemma backend_get_state [simp]: "fb_state (fst (backend_get t key be)) = fb_state be"
  using get_for_read_state [of be key t]
  by (simp add: backend_get_def split_beta del: get_for_read_state)

lemma backend_step_ok:
  assumes be: "published_ok cfg (fb_state be)"
  shows "step_ok cfg be (backend_step cfg tr be)"
proof (cases tr)
  case (Pair t req)
  show ?thesis
    using step_ok_same [OF be] compare_and_set_step [OF be] delete_fenced_step [OF be]
      refresh_ttl_step [OF be] batch_step [OF be] acquire_step [OF be] renew_step [OF be] release_step [OF be]
    by (cases req) (simp_all add: Pair backend_step_def, (metis prod.collapse)+)
qed

lemma published_new: "published_ok cfg (fb_state backend_new)"
proof -
  have "retention_ok state_empty" "within_limit n state_empty" for n
    by (simp_all add: retention_ok_def state_empty_def retention_default_valid within_limit_def
        saturating_add_def)
  then show ?thesis by (simp add: published_ok_def backend_new_def store_ok_empty)
qed

lemma backend_run_ok:
  assumes "published_ok cfg (fb_state be)"
  shows "step_ok cfg be (backend_run cfg reqs be)"
  using assms
proof (induction reqs arbitrary: be)
  case (Cons tr reqs)
  have step: "step_ok cfg be (backend_step cfg tr be)" using Cons.prems by (rule backend_step_ok)
  then have "step_ok cfg (backend_step cfg tr be) (backend_run cfg reqs (backend_step cfg tr be))"
    by (intro Cons.IH) (simp add: step_ok_def)
  with step show ?case
    using fences_grow_trans by (auto simp: step_ok_def backend_run_def)
qed (simp add: backend_run_def step_ok_def)

section \<open>Stale guards\<close>

lemma compare_and_set_outcome:
  assumes "\<And>v. compare_and_set_with_state cfg (prune_state (fst (command_time t be)) (fb_state be)) op
      (fst (command_time t be)) \<noteq> Ok v"
  shows "fb_state (fst (backend_compare_and_set cfg t op be)) = fb_state be \<and>
    (case snd (backend_compare_and_set cfg t op be) of Ok _ \<Rightarrow> False | _ \<Rightarrow> True)"
proof -
  obtain be' r where eq: "backend_compare_and_set cfg t op be = (be', r)" by fastforce
  show ?thesis
    using finish_cases [OF eq [unfolded backend_compare_and_set_def Let_def split_beta]] assms eq
    by (auto simp: outcome_simps split: result.splits)
qed

lemma stale_not_validated:
  "lg_fence lease < current_fence st (map_key (lg_key lease)) \<Longrightarrow>
   validate_fenced_mutation st lease now \<noteq> Ok k"
  using validate_fenced_mutation_Ok(1,2) by fastforce

lemma stale_not_matched:
  assumes "store_ok st" "lg_fence lease < current_fence st (map_key (lg_key lease))"
  shows "match_lease (apply_async_floor_to_key (map_key (lg_key lease)) st) lease \<noteq> Ok e"
proof
  let ?k = "map_key (lg_key lease)" and ?st = "apply_async_floor_to_key (map_key (lg_key lease)) st"
  assume "match_lease ?st lease = Ok e"
  note m = match_lease_Ok [OF this]
  have "is_live st ?k" using m(1) by (auto simp: is_live_def apply_floor_maps)
  then have "store_ok ?st" by (intro apply_floor_ok live_not_retired assms(1))
  then have "map_of (fs_key_fences ?st) ?k = Some (le_fence e)"
    using m(1,2) unfolding store_ok_def leases_ok_def by blast
  then have "current_fence st ?k = max (le_fence e) (fs_async_floor st)"
    using current_fence_tracked [of ?st ?k "le_fence e"] by simp
  moreover have "fs_async_floor st < le_fence e"
    using m(1,2) by (auto simp: apply_floor_maps)
  ultimately show False using assms(2) m(5) by simp
qed

lemma batch_slot_results:
  assumes "batch_slot cfg be now op b = Ok b'"
  shows "\<exists>r. bs_results b' = bs_results b @ [r] \<and>
    (\<forall>rs. batch_slot cfg be now op (b\<lparr>bs_results := rs\<rparr>) = Ok (b'\<lparr>bs_results := rs @ [r]\<rparr>))"
  using assms by (cases op) (auto simp: Let_def split: result.splits prod.splits if_splits)

lemma stale_slot:
  assumes "lg_fence g < current_fence (bs_state b) (map_key (lg_key g))"
    and "op_guard op = Some g" "batch_slot cfg be now op b = Ok b'"
  shows "\<exists>r. b' = b\<lparr>bs_results := bs_results b @ [r]\<rparr> \<and> slot_refused r"
proof -
  note no = stale_not_validated [OF assms(1)]
  show ?thesis
  proof (cases op)
    case (SCompareAndSet c)
    then have "compare_and_set_with_state cfg (bs_state b) c now \<noteq> Ok v" for v
      using compare_and_set_Ok(1) [of cfg "bs_state b" c now "fst v" "snd v"] no assms(2) by auto
    then show ?thesis using assms(3) SCompareAndSet by (auto split: result.splits)
  next
    case (SDeleteFenced l)
    then have "delete_fenced_with_state cfg (bs_state b) l now \<noteq> Ok v" for v
      using delete_fenced_Ok(1) [of cfg "bs_state b" l now v] no assms(2) by auto
    then show ?thesis using assms(3) SDeleteFenced by (auto split: result.splits)
  next
    case (SRefreshTtl l ttl)
    then have "refresh_ttl_with_state cfg (bs_state b) l ttl now \<noteq> Ok v" for v
      using refresh_ttl_Ok(1) [of cfg "bs_state b" l ttl now "fst v" "snd v"] no assms(2) by auto
    then show ?thesis using assms(3) SRefreshTtl by (auto split: result.splits)
  qed (use assms(2) in simp)
qed

lemma stale_loop:
  assumes "store_ok (bs_state b)" "lg_fence g < current_fence (bs_state b) (map_key (lg_key g))"
    and "batch_loop cfg be now ops b = Ok b'"
  shows "\<exists>rs. bs_results b' = bs_results b @ rs \<and> slots_refused g ops rs \<and>
    (\<forall>rs0. \<exists>rs1. batch_loop cfg be now (keep_slots g ops) (b\<lparr>bs_results := rs0\<rparr>) = Ok (b'\<lparr>bs_results := rs1\<rparr>))"
  using assms
proof (induction ops arbitrary: b)
  case Nil
  then show ?case by (auto simp: slots_refused_def keep_slots_def)
next
  case (Cons op ops)
  then obtain b1 where b1: "batch_slot cfg be now op b = Ok b1" "batch_loop cfg be now ops b1 = Ok b'"
    by (auto simp: outcome_simps)
  have stage: "stage_ok (bs_state b) (bs_state b1)" using Cons.prems(1) b1(1) by (rule batch_slot_stage)
  then have "store_ok (bs_state b1)" "lg_fence g < current_fence (bs_state b1) (map_key (lg_key g))"
    using Cons.prems(2) by (auto simp: stage_ok_def fences_grow_def intro: less_le_trans)
  from Cons.IH [OF this b1(2)] obtain rs where rs: "bs_results b' = bs_results b1 @ rs" "slots_refused g ops rs"
    "\<And>rs0. \<exists>rs1. batch_loop cfg be now (keep_slots g ops) (b1\<lparr>bs_results := rs0\<rparr>) = Ok (b'\<lparr>bs_results := rs1\<rparr>)"
    by blast
  obtain r where r: "bs_results b1 = bs_results b @ [r]"
    "\<And>rs. batch_slot cfg be now op (b\<lparr>bs_results := rs\<rparr>) = Ok (b1\<lparr>bs_results := rs @ [r]\<rparr>)"
    using batch_slot_results [OF b1(1)] by blast
  show ?case
  proof (cases "op_guard op = Some g")
    case True
    then have "b1 = b\<lparr>bs_results := bs_results b @ [r]\<rparr>" "slot_refused r"
      using stale_slot [OF Cons.prems(2) True b1(1)] r(1) by auto
    then show ?thesis using rs r True by (auto simp: slots_refused_def keep_slots_def)
  next
    case False
    then show ?thesis using rs r by (auto simp: slots_refused_def keep_slots_def)
  qed
qed

lemma try_for_each_filter: "try_for_each f xs = Ok () \<Longrightarrow> try_for_each f (filter p xs) = Ok ()"
  by (induction xs) (auto simp: outcome_simps)

lemma read_batch_state:
  assumes "published_ok cfg (fb_state be)" "\<not> list_ex is_write ops"
  shows "fb_state (fst (backend_batch cfg clock ops be)) = fb_state be"
proof -
  have "fb_state be' = fb_state be" if body: "batch_body cfg clock ops be = Ok (be', rs)" for be' rs
  proof -
    obtain b where b: "batch_loop cfg be clock ops
        \<lparr>bs_state = fb_state be, bs_replication = [], bs_expired = [], bs_results = []\<rparr> = Ok b"
      using body assms(2) by (cases "cap_batch_write (fc_caps cfg)") (auto simp: batch_body_def outcome_simps Let_def)
    have "bs_replication b = []"
      using batch_loop_stage [OF _ b] assms by (simp add: published_ok_def)
    then show ?thesis
      using body b assms(2) by (cases "cap_batch_write (fc_caps cfg)") (auto simp: batch_body_def outcome_simps Let_def)
  qed
  then show ?thesis
    using assms(2) by (cases "batch_body cfg clock ops be") (auto simp: backend_batch_def finish_def)
qed

lemma stale_batch_body:
  assumes be: "published_ok cfg (fb_state be)" and stale: "lg_fence g < current_fence (fb_state be) (map_key (lg_key g))"
    and wr: "list_ex is_write ops" and body: "batch_body cfg now ops be = Ok (be', rs)"
  shows "slots_refused g ops rs \<and>
    (if list_ex is_write (keep_slots g ops)
     then \<exists>rs'. batch_body cfg now (keep_slots g ops) be = Ok (be', rs')
     else fb_state be' = fb_state be)"
proof -
  let ?b0 = "\<lparr>bs_state = prune_state now (fb_state be), bs_replication = [], bs_expired = [], bs_results = []\<rparr>"
  let ?commit = "\<lambda>b. if bs_replication b \<noteq> []
      then and_then (next_direct_replication_sequence cfg (fb_state be)) (\<lambda>seqn.
        commit_direct_data cfg be (bs_state b) seqn (OpBatch (bs_replication b)) now)
      else Ok be"
  obtain b be1 where b: "batch_loop cfg be now ops ?b0 = Ok b" and commit: "?commit b = Ok be1"
    and beq: "be' = fold (mark_expired now) (bs_expired b) be1" and rs: "rs = bs_results b"
    and valid: "validate_session_ops_at ops now = Ok ()" "try_for_each (op_validate_deadline now) ops = Ok ()"
    and cap: "cap_batch_write (fc_caps cfg)"
    using body wr by (cases "cap_batch_write (fc_caps cfg)") (auto simp: batch_body_def outcome_simps Let_def)
  have ok: "store_ok (bs_state ?b0)" "lg_fence g < current_fence (bs_state ?b0) (map_key (lg_key g))"
    using be stale by (simp_all add: published_ok_def prune_state_ok)
  note l = stale_loop [OF ok b]
  obtain rs1 where rest: "batch_loop cfg be now (keep_slots g ops) ?b0 = Ok (b\<lparr>bs_results := rs1\<rparr>)"
    using l by (auto dest: spec [of _ "[]"])
  show ?thesis
  proof (cases "list_ex is_write (keep_slots g ops)")
    case True
    have "validate_session_ops_at (keep_slots g ops) now = Ok ()"
      "try_for_each (op_validate_deadline now) (keep_slots g ops) = Ok ()"
      using valid by (auto simp: validate_session_ops_at_def keep_slots_def outcome_simps intro: try_for_each_filter)
    then have "batch_body cfg now (keep_slots g ops) be = Ok (be', rs1)"
      using rest commit cap True by (auto simp: batch_body_def beq outcome_simps)
    then show ?thesis using True l rs by auto
  next
    case False
    then have "bs_replication b = []" using batch_loop_stage [OF ok(1) rest] by simp
    then show ?thesis using False l rs commit beq by auto
  qed
qed

lemma guard_is_write: "op_guard op = Some g \<Longrightarrow> is_write op"
  by (cases op) simp_all

lemma stale_batch:
  assumes be: "published_ok cfg (fb_state be)" and stale: "lg_fence g < current_fence (fb_state be) (map_key (lg_key g))"
    and op: "op \<in> set ops" "op_guard op = Some g" and eq: "backend_batch cfg t ops be = (be', r)"
  shows "case r of
      Ok rs \<Rightarrow> slots_refused g ops rs \<and> fb_state be' = fb_state (fst (backend_batch cfg t (keep_slots g ops) be))
    | _ \<Rightarrow> fb_state be' = fb_state be"
proof -
  have wr: "list_ex is_write ops" using op guard_is_write by (auto simp: list_ex_iff)
  obtain now be1 where time: "command_time t be = (now, be1)" by fastforce
  then have be1: "fb_state be1 = fb_state be" using command_time_state [of t be] by simp
  consider "fb_state be' = fb_state be" "\<forall>rs. r \<noteq> Ok rs"
    | rs where "require_complete_replay_command (fb_state be) = Ok ()" "r = Ok rs" "batch_body cfg now ops be1 = Ok (be', rs)"
    using eq wr time be1 by (auto simp: backend_batch_def finish_def split: result.splits)
  then show ?thesis
  proof cases
    case 1
    then show ?thesis by (cases r) auto
  next
    case (2 rs)
    have "published_ok cfg (fb_state be1)" "lg_fence g < current_fence (fb_state be1) (map_key (lg_key g))"
      using be stale be1 by simp_all
    note b = stale_batch_body [OF this wr 2(3)]
    show ?thesis
    proof (cases "list_ex is_write (keep_slots g ops)")
      case True
      then show ?thesis using b 2 time by (auto simp: backend_batch_def finish_def)
    next
      case False
      then show ?thesis using b 2 be1 read_batch_state [OF be] by auto
    qed
  qed
qed

lemma stale_refused:
  assumes be: "published_ok cfg (fb_state be)" and p: "lease \<in> set (presented_guards req)"
    and stale: "lg_fence lease < current_fence (fb_state be) (map_key (lg_key lease))"
  shows "guard_refused lease req (snd (backend_exec cfg (t, req) be)) \<and>
    fb_state (fst (backend_exec cfg (t, req) be)) =
      (if accepted (snd (backend_exec cfg (t, req) be))
       then fb_state (fst (backend_exec cfg (t, without_guard lease req) be)) else fb_state be)"
proof -
  let ?now = "fst (command_time t be)"
  let ?pre = "prune_state ?now (fb_state be)"
  have pre: "store_ok ?pre" "lg_fence lease < current_fence ?pre (map_key (lg_key lease))"
    using be stale by (simp_all add: published_ok_def prune_state_ok)
  note no = stale_not_validated [OF pre(2)] and nm = stale_not_matched [OF pre]
  show ?thesis
  proof (cases req)
    case (ReqCompareAndSet op)
    then have "lease = cas_lease op" using p by simp
    then have "compare_and_set_with_state cfg ?pre op ?now \<noteq> Ok v" for v
      using compare_and_set_Ok(1) [of cfg ?pre op ?now "fst v" "snd v"] no by auto
    then show ?thesis
      using compare_and_set_outcome [of cfg t be op] ReqCompareAndSet by (auto split: result.splits)
  next
    case (ReqDeleteFenced l)
    then have "delete_fenced_with_state cfg ?pre l ?now \<noteq> Ok v" for v
      using delete_fenced_Ok(1) [of cfg ?pre l ?now v] no p by auto
    moreover obtain be' r where "backend_delete_fenced cfg t l be = (be', r)" by fastforce
    ultimately show ?thesis
      using delete_fenced_cases [of cfg t l be be' r] ReqDeleteFenced by (auto split: result.splits)
  next
    case (ReqRefreshTtl l ttl)
    then have "refresh_ttl_with_state cfg ?pre l ttl ?now \<noteq> Ok v" for v
      using refresh_ttl_Ok(1) [of cfg ?pre l ttl ?now "fst v" "snd v"] no p by auto
    moreover obtain be' r where "backend_refresh_ttl cfg t l ttl be = (be', r)" by fastforce
    ultimately show ?thesis
      using refresh_ttl_cases [of cfg t l ttl be be' r] ReqRefreshTtl by (auto split: result.splits)
  next
    case (ReqBatch ops)
    then obtain op where op: "op \<in> set ops" "op_guard op = Some lease"
      using p by (auto simp: map_filter_def)
    obtain be' r where eq: "backend_batch cfg t ops be = (be', r)" by fastforce
    show ?thesis using stale_batch [OF be stale op eq] ReqBatch eq by (cases r) auto
  next
    case (ReqRenew l ttl)
    obtain be' r where eq: "backend_renew cfg t l ttl be = (be', r)" by fastforce
    then show ?thesis
      using renew_cases [OF eq] nm ReqRenew p by (auto split: result.splits)
  next
    case (ReqRelease l)
    obtain be' r where eq: "backend_release cfg t l be = (be', r)" by fastforce
    then show ?thesis
      using release_cases [OF eq] nm ReqRelease p by (auto split: result.splits)
  qed (use p in simp_all)
qed

section \<open>The fenced-store contract\<close>

text \<open>
  What a client of a fenced store relies on: requests keep the invariant, the fence of a key never
  goes back, a grant is above the fence of its key and moves the key up to it, and a claim below the
  fence of its key is refused: the request fails and leaves the data alone, or, when it carries other
  mutations too, does what it would do without the claim.
\<close>

locale fenced_store =
  fixes inv :: "'s \<Rightarrow> bool"
    and fence :: "'s \<Rightarrow> 'k \<Rightarrow> nat"
    and exec :: "'q \<Rightarrow> 's \<Rightarrow> 's \<times> 'r"
    and grant :: "'q \<Rightarrow> 'r \<Rightarrow> ('k \<times> nat) option"
    and presents :: "'q \<Rightarrow> 'g \<Rightarrow> bool"
    and claim :: "'g \<Rightarrow> 'k \<times> nat"
    and refuse :: "'g \<Rightarrow> 'q \<Rightarrow> 'r \<Rightarrow> bool"
    and accept :: "'r \<Rightarrow> bool"
    and strip :: "'g \<Rightarrow> 'q \<Rightarrow> 'q"
    and data :: "'s \<Rightarrow> 'd"
  assumes inv_exec: "inv s \<Longrightarrow> inv (fst (exec q s))"
    and fence_exec: "inv s \<Longrightarrow> fence s k \<le> fence (fst (exec q s)) k"
    and grant_exec: "inv s \<Longrightarrow> grant q (snd (exec q s)) = Some (k, f) \<Longrightarrow>
      fence s k < f \<and> f \<le> fence (fst (exec q s)) k"
    and stale_exec: "inv s \<Longrightarrow> presents q g \<Longrightarrow> claim g = (k, f) \<Longrightarrow> f < fence s k \<Longrightarrow>
      refuse g q (snd (exec q s)) \<and>
      data (fst (exec q s)) = (if accept (snd (exec q s)) then data (fst (exec (strip g q) s)) else data s)"
begin

lemma run_inv: "inv s \<Longrightarrow> inv (fold (\<lambda>q s. fst (exec q s)) qs s)"
  by (induction qs arbitrary: s) (simp_all add: inv_exec)

lemma run_fence: "inv s \<Longrightarrow> fence s k \<le> fence (fold (\<lambda>q s. fst (exec q s)) qs s) k"
proof (induction qs arbitrary: s)
  case (Cons q qs)
  from fence_exec [OF Cons.prems, of k q] Cons.IH [OF inv_exec [OF Cons.prems, of q]]
  show ?case by simp
qed simp

lemma grants_increase:
  assumes "inv s" "exec p s = (s1, r1)" "grant p r1 = Some (k, f1)"
    and "exec q (fold (\<lambda>q s. fst (exec q s)) between s1) = (s2, r2)" "grant q r2 = Some (k, f2)"
  shows "f1 < f2" "inv s2" "f2 \<le> fence s2 k"
proof -
  let ?m = "fold (\<lambda>q s. fst (exec q s)) between s1"
  have s1: "inv s1" "f1 \<le> fence s1 k"
    using inv_exec [OF assms(1), of p] grant_exec [OF assms(1), of p k f1] assms(2,3) by simp_all
  have m: "inv ?m" "f1 \<le> fence ?m k"
    using run_inv [OF s1(1)] run_fence [OF s1(1), of k between] s1(2) by simp_all
  show "f1 < f2" "inv s2" "f2 \<le> fence s2 k"
    using inv_exec [OF m(1), of q] grant_exec [OF m(1), of q k f2] assms(4,5) m(2) by simp_all
qed

lemma superseded:
  assumes "inv s" "exec p s = (s1, r1)" "grant p r1 = Some (k, f1)"
    and "exec q (fold (\<lambda>q s. fst (exec q s)) between s1) = (s2, r2)" "grant q r2 = Some (k, f2)"
    and "presents u g" "claim g = (k, f)" "f \<le> f1" and s3_def: "s3 = fold (\<lambda>q s. fst (exec q s)) after s2"
  shows "refuse g u (snd (exec u s3)) \<and>
    data (fst (exec u s3)) = (if accept (snd (exec u s3)) then data (fst (exec (strip g u) s3)) else data s3)"
proof -
  note g = grants_increase [OF assms(1-5)]
  have "inv s3" "f < fence s3 k"
    using run_inv [OF g(2)] run_fence [OF g(2), of k after] g(1,3) assms(8) by (simp_all add: s3_def)
  then show ?thesis using stale_exec [OF _ assms(6,7)] by blast
qed

end

definition guard_claim :: "lease_guard \<Rightarrow> fake_map_key \<times> nat" where
  "guard_claim g = (map_key (lg_key g), lg_fence g)"

lemma exec_grant:
  assumes be: "published_ok cfg (fb_state be)"
    and g: "granted (snd tr) (snd (backend_exec cfg tr be)) = Some g"
  shows "current_fence (fb_state be) (map_key (lg_key g)) < lg_fence g \<and>
    lg_fence g \<le> current_fence (fb_state (fst (backend_exec cfg tr be))) (map_key (lg_key g))"
proof -
  obtain t req where tr: "tr = (t, req)" by fastforce
  from g obtain key owner ttl where req: "req = ReqAcquire key owner ttl"
    unfolding tr by (cases req) auto
  obtain be' r where eq: "backend_acquire cfg t key owner ttl be = (be', r)" by fastforce
  have r: "r = Ok g" using g by (cases r) (simp_all add: tr req eq)
  have "lg_key g = key" using acquire_cases [OF eq] r by auto
  with acquire_step [OF be eq] r show ?thesis by (simp add: tr req eq)
qed

interpretation session_backend: fenced_store
  "\<lambda>be. published_ok cfg (fb_state be)"
  "\<lambda>be. current_fence (fb_state be)"
  "backend_exec cfg"
  "\<lambda>tr rep. map_option guard_claim (granted (snd tr) rep)"
  "\<lambda>tr g. g \<in> set (presented_guards (snd tr))" guard_claim
  "\<lambda>g tr. guard_refused g (snd tr)" accepted "\<lambda>g. map_prod id (without_guard g)" fb_state
  for cfg
proof
  fix be :: fake_backend and tr :: "timestamp \<times> request" and k :: fake_map_key and f :: nat and g :: lease_guard
  assume be: "published_ok cfg (fb_state be)"
  note step = backend_step_ok [OF be, of tr, unfolded backend_step_def step_ok_def]
  show "published_ok cfg (fb_state (fst (backend_exec cfg tr be)))" using step by simp
  show "current_fence (fb_state be) k \<le> current_fence (fb_state (fst (backend_exec cfg tr be))) k"
    using step by (simp add: fences_grow_def)
  show "current_fence (fb_state be) k < f \<and>
      f \<le> current_fence (fb_state (fst (backend_exec cfg tr be))) k"
    if "map_option guard_claim (granted (snd tr) (snd (backend_exec cfg tr be))) = Some (k, f)"
    using exec_grant [OF be, of tr] that by (auto simp: guard_claim_def)
  show "guard_refused g (snd tr) (snd (backend_exec cfg tr be)) \<and> fb_state (fst (backend_exec cfg tr be)) =
      (if accepted (snd (backend_exec cfg tr be))
       then fb_state (fst (backend_exec cfg (map_prod id (without_guard g) tr) be)) else fb_state be)"
    if "g \<in> set (presented_guards (snd tr))" "guard_claim g = (k, f)" "f < current_fence (fb_state be) k"
    using stale_refused [OF be that(1), of "fst tr"] that(2,3) by (cases tr) (auto simp: guard_claim_def)
qed

lemma backend_run_fold: "backend_run cfg reqs be = fold (\<lambda>q s. fst (backend_exec cfg q s)) reqs be"
  by (simp add: backend_run_def backend_step_def [abs_def])

section \<open>Properties\<close>

text \<open>
  C4. However requests are interleaved, the data the backend publishes keeps its invariant, the
  retention window stays valid, the number of tracked keys stays within the limit, and no fence of
  any key ever goes back.
\<close>

theorem session_store_invariant:
  "published_ok cfg (fb_state (backend_run cfg reqs backend_new)) \<and>
   fences_grow (fb_state (backend_run cfg reqs backend_new))
     (fb_state (backend_run cfg (reqs @ later) backend_new))"
proof -
  have "published_ok cfg (fb_state (backend_run cfg reqs backend_new))"
    using session_backend.run_inv [OF published_new] by (simp add: backend_run_fold)
  then show ?thesis
    using session_backend.run_fence [of cfg "backend_run cfg reqs backend_new" _ later]
    by (simp add: fences_grow_def backend_run_fold)
qed

text \<open>
  C2. Two grants on the same key carry increasing fences, and once the second has been made no
  mutation, renewal or release that presents the first guard, or any guard of the key with a fence at
  most as high, is carried out, whatever other requests come between. A request of its own fails and
  leaves the published data alone. In a batch every slot that presents the guard reports an error,
  and the data is what the batch without those slots would leave.
\<close>

theorem superseded_guard_refused:
  assumes "backend_acquire cfg t1 key owner1 ttl1 (backend_run cfg before backend_new) = (be1, Ok g1)"
    and "backend_acquire cfg t2 key owner2 ttl2 (backend_run cfg between be1) = (be2, Ok g2)"
    and "old \<in> set (presented_guards req)" "lg_key old = key" "lg_fence old \<le> lg_fence g1"
    and be3: "be3 = backend_run cfg after be2" and rep: "backend_exec cfg (t, req) be3 = (be4, rep)"
  shows "lg_fence g1 < lg_fence g2 \<and> guard_refused old req rep \<and>
    fb_state be4 = (if accepted rep then fb_state (fst (backend_exec cfg (t, without_guard old req) be3))
      else fb_state be3)"
proof -
  let ?p = "(t1, ReqAcquire key owner1 ttl1)" and ?q = "(t2, ReqAcquire key owner2 ttl2)"
  have inv: "published_ok cfg (fb_state (backend_run cfg before backend_new))"
    using session_backend.run_inv [OF published_new] by (simp add: backend_run_fold)
  have keys: "lg_key g1 = key" "lg_key g2 = key"
    using acquire_cases [OF assms(1)] acquire_cases [OF assms(2)] by auto
  have p: "backend_exec cfg ?p (backend_run cfg before backend_new) = (be1, RepGuard (Ok g1))"
    and q: "backend_exec cfg ?q (fold (\<lambda>q s. fst (backend_exec cfg q s)) between be1) = (be2, RepGuard (Ok g2))"
    using assms(1,2) by (simp_all add: backend_run_fold)
  note c = session_backend.superseded [OF inv p _ q, of "map_key key" "lg_fence g1" "lg_fence g2" old "(t, req)"
      "lg_fence old" be3 after]
    and i = session_backend.grants_increase(1) [OF inv p _ q, of "map_key key" "lg_fence g1" "lg_fence g2"]
  show ?thesis
    using c i keys assms(3-5) rep by (simp add: guard_claim_def be3 backend_run_fold)
qed

definition sample_config :: fake_config where
  "sample_config = \<lparr>fc_caps = all_enabled, fc_limits = limits_default\<rparr>"

definition sample_key :: session_key where
  "sample_key = \<lparr>sk_tenant = ''t'', sk_nf_kind = ''smf'', sk_key_type = PduSession, sk_stable_id = [1]\<rparr>"

definition sample_first :: "fake_backend \<times> (lease_guard, lease_error) result" where
  "sample_first = backend_acquire sample_config 0 sample_key ''a'' 1000 backend_new"

definition sample_second :: "fake_backend \<times> (lease_guard, lease_error) result" where
  "sample_second = backend_acquire sample_config 5000 sample_key ''b'' 1000 (fst sample_first)"

fun is_ok :: "('a, 'e) result \<Rightarrow> bool" where
  "is_ok (Ok _) = True"
| "is_ok _ = False"

lemma is_ok_iff: "is_ok r \<longleftrightarrow> (\<exists>v. r = Ok v)"
  by (cases r) auto

lemma sample_first_ok: "is_ok (snd sample_first)"
  by code_simp

lemma sample_second_ok: "is_ok (snd sample_second)"
  by code_simp

theorem superseded_guard_refused_witness:
  "\<exists>be1 g1 be2 g2.
     backend_acquire sample_config 0 sample_key ''a'' 1000 backend_new = (be1, Ok g1) \<and>
     backend_acquire sample_config 5000 sample_key ''b'' 1000 be1 = (be2, Ok g2) \<and>
     lg_fence g1 < lg_fence g2 \<and>
     \<not> accepted (snd (backend_exec sample_config (5001, ReqDeleteFenced g1) be2)) \<and>
     guard_refused g1 (ReqBatch [SDeleteFenced g1, SDeleteFenced g2])
       (snd (backend_exec sample_config (5001, ReqBatch [SDeleteFenced g1, SDeleteFenced g2]) be2))"
proof -
  obtain g1 g2 where "snd sample_first = Ok g1" "snd sample_second = Ok g2"
    using sample_first_ok sample_second_ok by (auto simp: is_ok_iff)
  then have g: "backend_acquire sample_config 0 sample_key ''a'' 1000 backend_new = (fst sample_first, Ok g1)"
    "backend_acquire sample_config 5000 sample_key ''b'' 1000 (fst sample_first) = (fst sample_second, Ok g2)"
    by (simp_all add: sample_first_def sample_second_def prod_eq_iff)
  have key: "lg_key g1 = sample_key" using acquire_cases [OF g(1)] by auto
  note refuse = superseded_guard_refused [of sample_config 0 sample_key "''a''" 1000 "[]" "fst sample_first" g1 5000
      "''b''" 1000 "[]" "fst sample_second" g2 g1 _ "fst sample_second" "[]" 5001 "fst p" "snd p" for p]
  have "lg_fence g1 < lg_fence g2 \<and> guard_refused g1 req (snd (backend_exec sample_config (5001, req) (fst sample_second)))"
    if "g1 \<in> set (presented_guards req)" for req
    using refuse [of req "backend_exec sample_config (5001, req) (fst sample_second)"] g key that
    by (simp add: backend_run_def)
  from this [of "ReqDeleteFenced g1"] this [of "ReqBatch [SDeleteFenced g1, SDeleteFenced g2]"] g
  show ?thesis by (auto simp: map_filter_def)
qed

end
