(* ===== verification/Session_Effects.thy ===== *)
theory Session_Effects
  imports Session_Safety
begin

text \<open>
  The effects of single operations of the in-memory session backend: what a commit and a pruning
  keep of records and leases, the exact meaning of a successful compare-and-set, the exclusivity of
  leases, and the bound on capacity rotations.
\<close>

section \<open>What a commit keeps\<close>

text \<open>Retirement and rotation touch only fences, retirement, retention and the fence counter.\<close>

definition frame :: "fake_state \<Rightarrow> fake_state \<Rightarrow> bool" where
  "frame st st' \<longleftrightarrow>
     fs_records st' = fs_records st \<and> fs_leases st' = fs_leases st \<and>
     fs_async_floor st' = fs_async_floor st \<and> fs_internal_keys st' = fs_internal_keys st \<and>
     fs_pending st' = fs_pending st \<and> fs_committed_time st' = fs_committed_time st \<and>
     fs_next_credential st' = fs_next_credential st \<and> fs_compacted st' = fs_compacted st \<and>
     fs_last_sequence st' = fs_last_sequence st \<and> fs_log st' = fs_log st"

lemma frame_refl [simp]: "frame st st"
  by (simp add: frame_def)

lemma frame_trans: "frame st st' \<Longrightarrow> frame st' st'' \<Longrightarrow> frame st st''"
  by (simp add: frame_def)

lemma frame_live: "frame st st' \<Longrightarrow> is_live st' k = is_live st k"
  by (simp add: frame_def is_live_def)

lemma drain_retired_frame: "drain_retired t fp index st = Ok st' \<Longrightarrow> frame st st'"
  by (induction t fp index st rule: drain_retired.induct) (auto simp: frame_def split: if_splits)

lemma rotate_keys_frame: "rotate_keys_with_floor reason floor st = Ok st' \<Longrightarrow> frame st st'"
  by (auto simp: rotate_keys_with_floor_def outcome_simps Let_def split: option.splits
      dest!: drain_retired_frame) (auto simp: frame_def)

lemma retired_state_frame: "frame st (retired_state k f st)"
  by (simp add: frame_def retired_state_def Let_def)

lemma unretire_frame: "frame st (unretire k st)"
  by (simp add: frame_def)

lemma retire_key_frame: "retire_key k f st = Ok st' \<Longrightarrow> frame st st'"
  using retire_key_Ok [of k f st st'] rotate_keys_frame frame_trans [OF retired_state_frame [of st k f]]
  by (auto simp: rotate_keys_def retired_state_frame split: if_splits)

lemma retire_loop_frame: "retire_loop ks st = Ok st' \<Longrightarrow> frame st st'"
proof (induction ks arbitrary: st)
  case (Cons k ks)
  from Cons.prems show ?case
    using Cons.IH retire_key_frame unretire_frame frame_trans
    by (fastforce simp: outcome_simps split: if_splits option.splits)
qed simp

lemma retire_dead_keys_frame: "retire_dead_keys st = Ok st' \<Longrightarrow> frame st st'"
  using retire_loop_frame [of "fs_candidates st" "st\<lparr>fs_candidates := []\<rparr>" st']
  by (simp add: retire_dead_keys_def frame_def)

lemma finalize_loop_frame: "finalize_loop m r st = Ok (r', st') \<Longrightarrow> frame st st'"
proof (induction m r st rule: finalize_loop.induct)
  case (1 m r st)
  show ?case
  proof (cases "saturating_add (length (fs_key_fences st)) (fs_internal_keys st) > m")
    case True
    with "1.prems" obtain st1 where st1: "fs_retired_keys st \<noteq> []" "rotate_keys Capacity st = Ok st1" "r \<noteq> 255"
      "finalize_loop m (r + 1) st1 = Ok (r', st')"
      unfolding finalize_loop.simps [of m r st] by (auto simp: outcome_simps split: if_splits)
    have "frame st st1" using rotate_keys_frame st1(2) by (simp add: rotate_keys_def)
    with "1.IH" [OF True st1] frame_trans show ?thesis by blast
  next
    case False
    with "1.prems" show ?thesis unfolding finalize_loop.simps [of m r st] by simp
  qed
qed

lemma commit_data:
  assumes "commit_direct_data cfg be staged seqn op t = Ok be'"
  shows "fs_records (fb_state be') = fs_records staged \<and> fs_leases (fb_state be') = fs_leases staged"
proof -
  obtain st1 rotations st2 where st: "retire_dead_keys staged = Ok st1"
    "finalize_key_capacity (max_tracked_keys (fc_limits cfg)) st1 = Ok (rotations, st2)"
    and be': "fb_state be' = (case seqn of
       None \<Rightarrow> st2
     | Some n \<Rightarrow> append_entry cfg (direct_entry n op t (direct_policy st2 rotations)) st2)
       \<lparr>fs_committed_time := Some t\<rparr>"
    using commit_direct_data_Ok [OF assms] by blast
  have "frame staged st2"
    using frame_trans [OF retire_dead_keys_frame [OF st(1)]]
      finalize_loop_frame [OF st(2) [unfolded finalize_key_capacity_def]] by blast
  then show ?thesis by (simp add: be' frame_def split: option.split)
qed

section \<open>What pruning keeps\<close>

definition live_record :: "fake_state \<Rightarrow> timestamp \<Rightarrow> fake_map_key \<Rightarrow> stored_record option" where
  "live_record st now k =
     (case map_of (fs_records st) k of
        None \<Rightarrow> None | Some r \<Rightarrow> if is_expired_at r now then None else Some r)"

lemma fold_prune_records:
  "fs_records (fold prune_record ks st) = fold AList.delete ks (fs_records st)"
  "fs_records (fold prune_lease ks st) = fs_records st"
  by (induction ks arbitrary: st) (simp_all add: prune_record_def prune_lease_def Let_def)

lemma filter_keys_iff:
  assumes "distinct (map fst xs)"
  shows "k \<in> set (map fst (filter (\<lambda>(k, v). P v) xs)) \<longleftrightarrow> (\<exists>v. map_of xs k = Some v \<and> P v)"
  using assms by (force simp: map_of_eq_Some_iff)

lemma prune_state_records:
  assumes "store_ok st"
  shows "map_of (fs_records (prune_state now st)) k = live_record st now k"
proof -
  have d: "distinct (map fst (fs_records st))" using assms by (simp add: store_ok_def keys_ok_def)
  show ?thesis
    unfolding prune_state_def Let_def fold_prune_records map_of_fold_delete live_record_def
      filter_keys_iff [OF d, of k "\<lambda>r. is_expired_at r now"]
    by (auto split: option.split)
qed

lemma floor_lease_idem [simp]: "floor_lease af (floor_lease af e) = floor_lease af e"
  by (simp add: floor_lease_def)

lemma prune_record_leases:
  "map_of (fs_leases (fold prune_record ks st)) k =
     (if k \<in> set ks then map_option (floor_lease (fs_async_floor st)) (map_of (fs_leases st) k)
      else map_of (fs_leases st) k)"
proof (induction ks arbitrary: st)
  case (Cons j ks)
  have "fs_async_floor (prune_record j st) = fs_async_floor st"
    "map_of (fs_leases (prune_record j st)) k =
      (if k = j then map_option (floor_lease (fs_async_floor st)) (map_of (fs_leases st) k)
       else map_of (fs_leases st) k)"
    by (simp_all add: prune_record_def Let_def apply_floor_maps)
  with Cons show ?case by (auto simp: option.map_comp o_def)
qed simp

lemma prune_lease_leases:
  "map_of (fs_leases (fold prune_lease ks st)) k =
     (if k \<in> set ks then None else map_of (fs_leases st) k)"
proof (induction ks arbitrary: st)
  case (Cons j ks)
  have "map_of (fs_leases (prune_lease j st)) k = (if k = j then None else map_of (fs_leases st) k)"
    by (simp add: prune_lease_def Let_def apply_floor_maps delete_conv')
  with Cons show ?case by auto
qed simp

text \<open>A lease entry after pruning is the entry before it, lowered to the floor or as it was.\<close>

definition lowered :: "fake_state \<Rightarrow> timestamp \<Rightarrow> fake_map_key \<Rightarrow> lease_entry \<Rightarrow> lease_entry" where
  "lowered st now k e =
     (if \<exists>r. map_of (fs_records st) k = Some r \<and> is_expired_at r now
      then floor_lease (fs_async_floor st) e else e)"

lemma lowered_sel [simp]:
  "le_fence (lowered st now k e) = le_fence e" "le_owner (lowered st now k e) = le_owner e"
  "le_credential_id (lowered st now k e) = le_credential_id e"
  "le_expires_at (lowered st now k e) = le_expires_at e"
  "le_guard_expires_at (lowered st now k e) = le_guard_expires_at e"
  by (simp_all add: lowered_def)

lemma prune_state_leases:
  assumes "store_ok st"
  shows "map_of (fs_leases (prune_state now st)) k =
    (case map_of (fs_leases st) k of
       None \<Rightarrow> None
     | Some e \<Rightarrow> if le_active (lowered st now k e) \<and> now < le_expires_at e then Some (lowered st now k e) else None)"
proof -
  let ?ks = "map fst (filter (\<lambda>(k, r). is_expired_at r now) (fs_records st))"
  let ?s = "fold prune_record ?ks st"
  have d: "distinct (map fst (fs_records st))" using assms by (simp add: store_ok_def keys_ok_def)
  have s: "map_of (fs_leases ?s) k = map_option (lowered st now k) (map_of (fs_leases st) k)"
    unfolding prune_record_leases filter_keys_iff [OF d, of k "\<lambda>r. is_expired_at r now"] lowered_def
    by (cases "map_of (fs_leases st) k") auto
  have "distinct (map fst (fs_leases (fold prune_record ks st)))" for ks
    by (rule fold_field [of "\<lambda>s. distinct (map fst (fs_leases s))" prune_record, THEN iffD2])
      (use assms in \<open>auto simp: prune_record_def Let_def store_ok_def keys_ok_def\<close>)
  note keys = filter_keys_iff [OF this [of ?ks], of k "\<lambda>e. \<not> le_active e \<or> le_expires_at e \<le> now"]
  show ?thesis
    unfolding prune_state_def Let_def prune_lease_leases keys s
    by (auto simp: not_le split: option.split)
qed

section \<open>Properties of single operations\<close>

definition guard_current :: "fake_state \<Rightarrow> lease_guard \<Rightarrow> timestamp \<Rightarrow> bool" where
  "guard_current st g now \<longleftrightarrow>
     (case map_of (fs_leases st) (map_key (lg_key g)) of
        None \<Rightarrow> False
      | Some e \<Rightarrow> le_active e \<and> le_owner e = lg_owner g \<and> le_fence e = lg_fence g \<and>
          le_credential_id e = lg_credential_id g \<and> now < le_expires_at e)"

lemma lowered_active: "le_active (lowered st now k e) \<Longrightarrow> le_active e"
  by (auto simp: lowered_def split: if_splits)

lemma validated_guard_current:
  assumes "store_ok st" "validate_fenced_mutation (prune_state now st) g now = Ok k"
  shows "guard_current st g now"
  using validate_fenced_mutation_Ok [OF assms(2)] prune_state_leases [OF assms(1), of now k]
  by (auto simp: guard_current_def split: option.splits if_splits dest: lowered_active)

lemma run_published: "published_ok cfg (fb_state (backend_run cfg reqs backend_new))"
  using session_backend.run_inv [OF published_new] by (simp add: backend_run_fold)

lemma compare_and_set_success:
  assumes "compare_and_set_with_state cfg st op now = Ok (st', CasSuccess)"
  defines "r \<equiv> (case map_of (fs_records st) (map_key (cas_key op)) of
    None \<Rightarrow> None | Some r \<Rightarrow> if is_expired_at r now then None else Some r)"
  shows "cas_expected op = map_option sr_generation r" "\<forall>c. r = Some c \<longrightarrow> \<not> generation_conflict c (cas_record op)"
proof -
  have "validate_fenced_mutation st (cas_lease op) now = Ok (map_key (cas_key op))"
    using assms(1) by (rule compare_and_set_Ok)
  with assms(1) show "cas_expected op = map_option sr_generation r"
    "\<forall>c. r = Some c \<longrightarrow> \<not> generation_conflict c (cas_record op)"
    unfolding r_def
    by (auto simp: compare_and_set_with_state_def outcome_simps Let_def split: if_splits option.splits)
qed

text \<open>
  C10. A compare-and-set that reports success was presented with the guard of the key's current
  lease and with the generation of the record that was visible at the command's time. It replaces
  that record by the new one, and every other key keeps exactly its unexpired record, whatever
  retirement and rotation the commit performs.
\<close>

theorem compare_and_set_exact:
  assumes "be = backend_run cfg reqs backend_new" "now = fst (command_time clock be)"
    and "backend_compare_and_set cfg clock op be = (be', Ok CasSuccess)"
  shows "map_of (fs_records (fb_state be')) k =
      (if k = map_key (cas_key op) then Some (cas_record op) else live_record (fb_state be) now k) \<and>
    cas_expected op = map_option sr_generation (live_record (fb_state be) now (map_key (cas_key op))) \<and>
    guard_current (fb_state be) (cas_lease op) now"
proof -
  let ?pre = "prune_state now (fb_state be)"
  have ok: "store_ok (fb_state be)" using run_published assms(1) by (simp add: published_ok_def)
  obtain staged where st: "compare_and_set_with_state cfg ?pre op now = Ok (staged, CasSuccess)"
    "commits cfg be (cas_replication_op op) staged now be'"
    using compare_and_set_cases [OF assms(3)] assms(2) by auto
  have "fs_records (fb_state be') = fs_records staged"
    using st(2) commit_data by (auto simp: commits_def)
  moreover note compare_and_set_Ok(2) [OF st(1)] compare_and_set_success [OF st(1)]
    validated_guard_current [OF ok compare_and_set_Ok(1) [OF st(1)]]
  ultimately show ?thesis
    using prune_state_records [OF ok, of now]
    by (auto simp: put_record_def update_conv' live_record_def split: option.splits if_splits)
qed

text \<open>
  C8. While the guard of one owner is current and above the asynchronous floor, an acquisition of
  the same key by another owner is refused and leaves the published data as it was.
\<close>

theorem lease_exclusive:
  assumes "be = backend_run cfg reqs backend_new" "now = fst (command_time clock be)"
    and "guard_current (fb_state be) g now" "fs_async_floor (fb_state be) < min (lg_fence g) (lg_credential_id g)"
    and "owner \<noteq> lg_owner g" "backend_acquire cfg clock (lg_key g) owner ttl be = (be', r)"
  shows "fb_state be' = fb_state be \<and> (\<forall>g'. r \<noteq> Ok g')"
proof -
  let ?k = "map_key (lg_key g)"
  let ?st = "apply_async_floor_to_key ?k (prune_state now (fb_state be))"
  have ok: "store_ok (fb_state be)" using run_published assms(1) by (simp add: published_ok_def)
  obtain e where e: "map_of (fs_leases (fb_state be)) ?k = Some e" "le_active e" "le_owner e = lg_owner g"
    "le_fence e = lg_fence g" "le_credential_id e = lg_credential_id g" "now < le_expires_at e"
    using assms(3) by (auto simp: guard_current_def split: option.splits)
  have floor: "floor_lease (fs_async_floor (fb_state be)) e = e"
    using e(4,5) assms(4) by (simp add: floor_lease_def)
  then have "map_of (fs_leases ?st) ?k = Some e"
    using prune_state_leases [OF ok, of now ?k] e by (simp add: apply_floor_maps lowered_def)
  then have "lease_held_by_other ?st ?k owner now"
    using e assms(5) by (simp add: lease_held_by_other_def)
  then show ?thesis
    using acquire_cases [OF assms(6)] assms(2) by auto
qed

text \<open>
  C32. Bringing the number of tracked keys back under the limit ends after at most two rotations,
  without an overflow of the rotation counter: two rotations forget every retired key. It keeps
  the invariant and never lowers a fence.
\<close>

theorem finalize_key_capacity_bounded:
  assumes "store_ok st"
  shows "finalize_key_capacity maximum st \<noteq> Panic \<and>
    (\<forall>rotations st'. finalize_key_capacity maximum st = Ok (rotations, st') \<longrightarrow>
       rotations \<le> 2 \<and> within_limit maximum st' \<and> store_ok st' \<and> fences_grow st st')"
  using finalize_loop_bounded [OF assms, of maximum]
  by (auto simp: finalize_key_capacity_def loop_gives_def)

definition sample_key2 :: session_key where
  "sample_key2 = \<lparr>sk_tenant = ''t'', sk_nf_kind = ''smf'', sk_key_type = TeidMapping, sk_stable_id = [2]\<rparr>"

definition sample_record :: "lease_guard \<Rightarrow> stored_record" where
  "sample_record g =
     \<lparr>sr_key = lg_key g, sr_generation = 1, sr_owner = lg_owner g, sr_fence = lg_fence g,
      sr_state_class = AuthoritativeSession, sr_state_type = ''x'', sr_expires_at = Some 700,
      sr_payload = \<lparr>pl_bytes = [7], pl_encoding = Plaintext\<rparr>\<rparr>"

definition sample_cas :: "lease_guard \<Rightarrow> compare_and_set" where
  "sample_cas g = \<lparr>cas_key = lg_key g, cas_lease = g, cas_expected = None, cas_record = sample_record g\<rparr>"

fun ok_value :: "('a, 'e) result \<Rightarrow> 'a" where
  "ok_value (Ok v) = v"
| "ok_value _ = undefined"

definition sample_guard :: lease_guard where
  "sample_guard = ok_value (snd sample_first)"

lemma sample_first_run: "fst sample_first = backend_run sample_config [(0, ReqAcquire sample_key ''a'' 1000)] backend_new"
  by (simp add: backend_run_def backend_step_def sample_first_def)

lemma sample_cas_ok:
  "snd (backend_compare_and_set sample_config 5 (sample_cas sample_guard) (fst sample_first)) = Ok CasSuccess"
  by code_simp

theorem compare_and_set_exact_witness:
  "map_of (fs_records (fb_state (fst (backend_compare_and_set sample_config 5 (sample_cas sample_guard)
     (fst sample_first))))) (map_key (lg_key sample_guard)) = Some (sample_record sample_guard)"
  using compare_and_set_exact [OF sample_first_run refl, of 5 "sample_cas sample_guard"
      "fst (backend_compare_and_set sample_config 5 (sample_cas sample_guard) (fst sample_first))"
      "map_key (lg_key sample_guard)"] sample_cas_ok
  by (simp add: prod_eq_iff sample_cas_def)

lemma sample_guard_current:
  "guard_current (fb_state (fst sample_first)) sample_guard (fst (command_time 5 (fst sample_first))) \<and>
   fs_async_floor (fb_state (fst sample_first)) < min (lg_fence sample_guard) (lg_credential_id sample_guard) \<and>
   lg_owner sample_guard = ''a''"
proof -
  have "case sample_first of (be, r) \<Rightarrow> (let g = ok_value r in
      guard_current (fb_state be) g (fst (command_time 5 be)) \<and>
      fs_async_floor (fb_state be) < min (lg_fence g) (lg_credential_id g) \<and> lg_owner g = ''a'')"
    by code_simp
  then show ?thesis by (simp only: sample_guard_def split_beta Let_def)
qed

theorem lease_exclusive_witness:
  "\<not> is_ok (snd (backend_acquire sample_config 5 (lg_key sample_guard) ''b'' 1000 (fst sample_first)))"
proof -
  obtain be' r where eq: "backend_acquire sample_config 5 (lg_key sample_guard) ''b'' 1000 (fst sample_first) = (be', r)"
    by (metis surj_pair)
  have "fb_state be' = fb_state (fst sample_first) \<and> (\<forall>g'. r \<noteq> Ok g')"
    by (rule lease_exclusive [OF sample_first_run refl _ _ _ eq]) (use sample_guard_current in auto)
  then show ?thesis by (simp add: eq is_ok_iff)
qed

text \<open>A state whose only key is retired.\<close>

definition sample_retired :: fake_state where
  "sample_retired = state_empty
     \<lparr>fs_key_fences := [(map_key sample_key, 1)], fs_retired_keys := [(map_key sample_key, 0)],
      fs_retired_index := [(0, map_key sample_key)], fs_next_fence := 2,
      fs_retention := retention_default\<lparr>kr_retired_max := 1, kr_retired_count := 1\<rparr>\<rparr>"

lemma sample_not_scope: "\<not> scope_key (map_key sample_key)"
  by code_simp

lemma sample_retired_store: "store_ok sample_retired"
  using sample_not_scope
  by (auto simp: store_ok_defs sample_retired_def state_empty_def is_live_def max_u64_def
      valid_retired_fence_def retains_epoch_def retention_default_def split: if_splits)

definition sample_rotated :: fake_state where
  "sample_rotated = ok_value (rotate_keys Capacity sample_retired)"

definition sample_rotated2 :: fake_state where
  "sample_rotated2 = ok_value (rotate_keys Capacity sample_rotated)"

lemma ok_value_eq: "is_ok r \<Longrightarrow> r = Ok (ok_value r)"
  by (cases r) simp_all

lemma sample_rotations:
  "rotate_keys Capacity sample_retired = Ok sample_rotated"
  "rotate_keys Capacity sample_rotated = Ok sample_rotated2"
  unfolding sample_rotated_def sample_rotated2_def by (rule ok_value_eq, code_simp)+

lemma sample_sizes:
  "\<not> within_limit 0 sample_retired" "fs_retired_keys sample_retired \<noteq> []"
  "\<not> within_limit 0 sample_rotated" "fs_retired_keys sample_rotated \<noteq> []" "within_limit 0 sample_rotated2"
  by code_simp+

theorem finalize_key_capacity_bounded_witness:
  "finalize_key_capacity 0 sample_retired = Ok (2, sample_rotated2) \<and>
   store_ok sample_rotated2"
proof -
  have "finalize_key_capacity 0 sample_retired = Ok (2, sample_rotated2)"
    using sample_sizes
    by (simp add: finalize_key_capacity_def within_limit_def finalize_loop.simps [of 0 0]
        finalize_loop.simps [of 0 "Suc 0"] finalize_loop.simps [of 0 "Suc (Suc 0)"] sample_rotations)
  with finalize_key_capacity_bounded [OF sample_retired_store, of 0] show ?thesis by simp
qed

end
