(* ===== verification/Session_Replay.thy ===== *)
theory Session_Replay
  imports Session_Effects
begin

text \<open>
  Replay of replicated operations by the in-memory session backend: the arms of
  \<^verbatim>\<open>apply_replicated_op_with_state\<close>, the application of a committed entry under its replay policy,
  delivery of one entry, and the rebuild of a state from a prefix of the log
  (\<^verbatim>\<open>crates/opc-session-store/src/fake/mod.rs\<close>).
\<close>

section \<open>Operations\<close>

definition PROTECTED_ROSTER_PROFILE_V2_CAPABILITY :: string where
  "PROTECTED_ROSTER_PROFILE_V2_CAPABILITY = ''protected_roster_profile_v2_not_activated''"

definition validate_replicated_owner ::
  "fake_state \<Rightarrow> fake_map_key \<Rightarrow> string \<Rightarrow> nat \<Rightarrow> (unit, store_error) result" where
  "validate_replicated_owner st k owner fence =
     (if map_of (fs_key_fences st) k \<noteq> Some fence \<or>
         \<not> (case map_of (fs_leases st) k of
              None \<Rightarrow> False
            | Some e \<Rightarrow> le_active e \<and> le_owner e = owner \<and> le_fence e = fence)
      then Err StaleFence else Ok ())"

text \<open>The fence counter moves above a replayed fence, saturating in most arms.\<close>

definition raise_next_fence :: "nat \<Rightarrow> fake_state \<Rightarrow> fake_state" where
  "raise_next_fence fence st = st\<lparr>fs_next_fence := max (fs_next_fence st) (saturating_add fence 1)\<rparr>"

definition raise_counters :: "nat \<Rightarrow> nat \<Rightarrow> fake_state \<Rightarrow> (fake_state, store_error) result" where
  "raise_counters fence credential_id st =
     and_then (add_or_panic fence 1) (\<lambda>f.
     and_then (add_or_panic credential_id 1) (\<lambda>c.
     Ok (st\<lparr>fs_next_fence := max (fs_next_fence st) f,
            fs_next_credential := max (fs_next_credential st) c\<rparr>)))"

definition replay_compare_and_set ::
  "session_key \<Rightarrow> nat option \<Rightarrow> nat \<Rightarrow> timestamp \<Rightarrow> stored_record \<Rightarrow> timestamp \<Rightarrow> usize \<Rightarrow> fake_state
     \<Rightarrow> (fake_state, store_error) result" where
  "replay_compare_and_set key expected credential_id guard_expires_at r now limit st =
     (let k = map_key key in
      if sr_fence r < current_fence st k then Err StaleFence
      else
      and_then (ensure_key_capacity st k limit) (\<lambda>_.
      case map_of (fs_leases st) k of
        None \<Rightarrow> Err StaleFence
      | Some e \<Rightarrow>
          if \<not> le_active e \<or> le_credential_id e \<noteq> credential_id \<or> le_owner e \<noteq> sr_owner r \<or>
             le_fence e \<noteq> sr_fence r \<or> le_guard_expires_at e \<noteq> guard_expires_at
          then Err StaleFence
          else if guard_expires_at \<le> now \<or> le_expires_at e \<le> now then Err LeaseExpired
          else case (expected, get_with_state st key now) of
            (None, None) \<Rightarrow> Ok (put_record k r (sr_fence r) st)
          | (Some expected, Some current) \<Rightarrow>
              if sr_generation current \<noteq> expected then Err CasConflict
              else if generation_conflict current r then Err CasConflict
              else Ok (put_record k r (sr_fence r) st)
          | _ \<Rightarrow> Err CasConflict))"

definition replay_delete ::
  "session_key \<Rightarrow> string \<Rightarrow> nat \<Rightarrow> usize \<Rightarrow> fake_state \<Rightarrow> (fake_state, store_error) result" where
  "replay_delete key owner fence limit st =
     (let k = map_key key in
      and_then (validate_replicated_owner st k owner fence) (\<lambda>_.
      and_then (ensure_key_capacity st k limit) (\<lambda>_.
      Ok (raise_next_fence fence
            (set_fence k fence (st\<lparr>fs_records := AList.delete k (fs_records st)\<rparr>))))))"

definition replay_refresh ::
  "session_key \<Rightarrow> string \<Rightarrow> nat \<Rightarrow> timestamp \<Rightarrow> usize \<Rightarrow> fake_state \<Rightarrow> (fake_state, store_error) result" where
  "replay_refresh key owner fence expires_at limit st =
     (let k = map_key key in
      and_then (validate_replicated_owner st k owner fence) (\<lambda>_.
      and_then (ensure_key_capacity st k limit) (\<lambda>_.
      case map_of (fs_records st) k of
        None \<Rightarrow> Err NotFound
      | Some r \<Rightarrow> Ok (raise_next_fence fence
            (put_record k (r\<lparr>sr_expires_at := Some expires_at\<rparr>) fence st)))))"

text \<open>The fence a replayed grant must exceed: within a continued command, the one of its start.\<close>

definition replay_previous_fence :: "fake_state \<Rightarrow> fake_map_key \<Rightarrow> nat" where
  "replay_previous_fence st k =
     max (case map_of (fs_key_fences st) k of
            Some f \<Rightarrow> f
          | None \<Rightarrow>
              (case Option.bind (fs_pending st) (\<lambda>p. map_of (pr_fences p) k) of
                 Some f \<Rightarrow> f
               | None \<Rightarrow>
                   if scope_key k then 0
                   else case fs_pending st of
                     None \<Rightarrow> kr_floor_prev (fs_retention st) | Some p \<Rightarrow> pr_floor_prev p))
       (fs_async_floor st)"

definition replay_acquire ::
  "session_key \<Rightarrow> string \<Rightarrow> nat \<Rightarrow> nat \<Rightarrow> timestamp \<Rightarrow> timestamp \<Rightarrow> usize \<Rightarrow> fake_state
     \<Rightarrow> (fake_state, store_error) result" where
  "replay_acquire key owner fence credential_id expires_at now limit st0 =
     (let k = map_key key; st = apply_async_floor_to_key k st0 in
      if fence \<le> replay_previous_fence st k then Err StaleFence
      else
      and_then (ensure_key_capacity st k limit) (\<lambda>_.
      if lease_held_by_other st k owner now then Err LeaseHeld
      else raise_counters fence credential_id (install_lease k
        \<lparr>le_active = True, le_credential_id = credential_id, le_owner = owner, le_fence = fence,
         le_acquired_at = now, le_expires_at = expires_at, le_guard_expires_at = expires_at\<rparr> st)))"

definition replay_renew ::
  "session_key \<Rightarrow> string \<Rightarrow> nat \<Rightarrow> nat \<Rightarrow> timestamp \<Rightarrow> usize \<Rightarrow> fake_state \<Rightarrow> (fake_state, store_error) result" where
  "replay_renew key owner fence credential_id expires_at limit st =
     (let k = map_key key in
      and_then (validate_replicated_owner st k owner fence) (\<lambda>_.
      case map_of (fs_leases st) k of
        None \<Rightarrow> Err StaleFence
      | Some e \<Rightarrow>
          if le_credential_id e \<noteq> credential_id then Err StaleFence
          else
          and_then (ensure_key_capacity st k limit) (\<lambda>_.
          raise_counters fence credential_id (install_lease k
            \<lparr>le_active = True, le_credential_id = credential_id, le_owner = owner, le_fence = fence,
             le_acquired_at = le_acquired_at e, le_expires_at = expires_at,
             le_guard_expires_at = expires_at\<rparr> st))))"

definition replay_release ::
  "session_key \<Rightarrow> string \<Rightarrow> nat \<Rightarrow> nat \<Rightarrow> timestamp \<Rightarrow> usize \<Rightarrow> fake_state \<Rightarrow> (fake_state, store_error) result" where
  "replay_release key owner fence credential_id now limit st =
     (let k = map_key key in
      and_then (validate_replicated_owner st k owner fence) (\<lambda>_.
      case map_of (fs_leases st) k of
        None \<Rightarrow> Err StaleFence
      | Some e \<Rightarrow>
          if le_credential_id e \<noteq> credential_id then Err StaleFence
          else
          let st1 = st\<lparr>fs_leases :=
            AList.update k (e\<lparr>le_active := False, le_guard_expires_at := now\<rparr>) (fs_leases st)\<rparr> in
          and_then (ensure_key_capacity st1 k limit) (\<lambda>_.
          Ok (raise_next_fence fence (set_fence k fence st1)))))"

text \<open>The establishment of a protected roster row under a possibly newer guard.\<close>

definition established_records ::
  "session_key \<Rightarrow> stored_record \<Rightarrow> established_successor \<Rightarrow> fake_state \<Rightarrow> (fake_state, store_error) result" where
  "established_records key expected successor st =
     (let k = map_key key in
      case successor of
        Put r \<Rightarrow>
          if sr_key r \<noteq> key \<or> sr_expires_at r \<noteq> None \<or> sr_owner r \<noteq> sr_owner expected \<or>
             sr_fence r \<noteq> sr_fence expected \<or> sr_generation r \<le> sr_generation expected
          then Err CasConflict
          else Ok (st\<lparr>fs_records := AList.update k r (fs_records st)\<rparr>)
      | DeleteRow \<Rightarrow>
          if map_of (fs_records st) k = None then Err CasConflict
          else Ok (st\<lparr>fs_records := AList.delete k (fs_records st)\<rparr>)
      | NoOp \<Rightarrow> Ok st)"

definition replay_established ::
  "session_key \<Rightarrow> stored_record \<Rightarrow> established_successor \<Rightarrow> string \<Rightarrow> nat \<Rightarrow> nat \<Rightarrow> timestamp \<Rightarrow> timestamp
     \<Rightarrow> timestamp \<Rightarrow> usize \<Rightarrow> fake_state \<Rightarrow> (fake_state, store_error) result" where
  "replay_established key expected successor owner fence credential_id acquired_at expires_at now limit st =
     (if sr_key expected \<noteq> key \<or> sr_expires_at expected \<noteq> None \<or> credential_id = 0 \<or>
         expires_at \<le> acquired_at \<or> fence < sr_fence expected
      then Err StaleFence
      else
      let k = map_key key in
      if current_fence st k > fence then Err StaleFence
      else
      and_then (ensure_key_capacity st k limit) (\<lambda>_.
      case map_of (fs_leases st) k of
        None \<Rightarrow> Err StaleFence
      | Some e \<Rightarrow>
          if \<not> le_active e \<or> le_credential_id e \<noteq> credential_id \<or> le_owner e \<noteq> owner \<or>
             le_fence e \<noteq> fence \<or> le_acquired_at e \<noteq> acquired_at \<or> le_guard_expires_at e \<noteq> expires_at
          then Err StaleFence
          else if expires_at \<le> now \<or> le_expires_at e \<le> now then Err LeaseExpired
          else if map_of (fs_records st) k \<noteq> Some expected then Err CasConflict
          else and_then (established_records key expected successor st) (\<lambda>st1.
            Ok (raise_next_fence fence (set_fence k fence st1)))))"

text \<open>A batch applies its children in order and stops at the first failure.\<close>

fun apply_replicated_op_with_state ::
    "timestamp \<Rightarrow> usize \<Rightarrow> replication_op \<Rightarrow> fake_state \<Rightarrow> (fake_state, store_error) result"
  and apply_replicated_ops ::
    "timestamp \<Rightarrow> usize \<Rightarrow> replication_op list \<Rightarrow> fake_state \<Rightarrow> (fake_state, store_error) result" where
  "apply_replicated_op_with_state now limit op st =
     (if contains_protected_roster_established_create op
      then Err (CapabilityNotSupported PROTECTED_ROSTER_PROFILE_V2_CAPABILITY)
      else case op of
        OpCompareAndSet key expected credential_id guard_expires_at r \<Rightarrow>
          replay_compare_and_set key expected credential_id guard_expires_at r now limit st
      | OpDeleteFenced key owner fence \<Rightarrow> replay_delete key owner fence limit st
      | OpRefreshTtl key owner fence ttl expires_at \<Rightarrow> replay_refresh key owner fence expires_at limit st
      | OpAcquireLease key owner fence credential_id ttl expires_at \<Rightarrow>
          replay_acquire key owner fence credential_id expires_at now limit st
      | OpRenewLease key owner fence credential_id ttl expires_at \<Rightarrow>
          replay_renew key owner fence credential_id expires_at limit st
      | OpReleaseLease key owner fence credential_id \<Rightarrow>
          replay_release key owner fence credential_id now limit st
      | OpRosterEstablished key expected successor owner fence credential_id acquired_at expires_at \<Rightarrow>
          replay_established key expected successor owner fence credential_id acquired_at expires_at now limit st
      | OpRosterEstablishedCreate _ _ _ _ _ _ _ \<Rightarrow>
          Err (CapabilityNotSupported PROTECTED_ROSTER_PROFILE_V2_CAPABILITY)
      | OpBatch ops \<Rightarrow> apply_replicated_ops now limit ops st)"
| "apply_replicated_ops now limit [] st = Ok st"
| "apply_replicated_ops now limit (op # ops) st =
     and_then (apply_replicated_op_with_state now limit op st) (apply_replicated_ops now limit ops)"

section \<open>Entries\<close>

definition pending_cursor :: "pending_replay \<Rightarrow> command_cursor" where
  "pending_cursor p =
     \<lparr>cc_id = pr_id p, cc_remaining = pr_remaining p, cc_timestamp = pr_timestamp p,
      cc_async_floor = pr_async_floor p\<rparr>"

definition recovery_step :: "replication_entry \<Rightarrow> fake_state \<Rightarrow> (fake_state, store_error) result" where
  "recovery_step e st =
     (let floor = policy_async_floor (re_policy e);
          refused = Err (Serialization ''inconsistent replication recovery floor'')
      in case policy_recovery (re_policy e) of
           NoRecovery \<Rightarrow> if floor = fs_async_floor st then Ok st else refused
         | Recover previous_sequence \<Rightarrow>
             if fs_pending st = None \<and> previous_sequence = fs_last_sequence st \<and> floor > fs_async_floor st
             then and_then (add_or_panic floor 1) (\<lambda>next.
                  if re_sequence e = next
                  then Ok (st\<lparr>fs_async_floor := floor, fs_next_fence := max (fs_next_fence st) next,
                              fs_next_credential := max (fs_next_credential st) next\<rparr>)
                  else refused)
             else refused)"

definition start_command :: "replication_entry \<Rightarrow> fake_state \<Rightarrow> (fake_state, store_error) result" where
  "start_command e st =
     (case policy_command (re_policy e) of
        Start i following \<Rightarrow>
          and_then (ok_or ReplicationOperationLimitExceeded
            (checked_add (re_sequence e) following)) (\<lambda>_.
          Ok (st\<lparr>fs_pending := Some
            \<lparr>pr_fences = fs_key_fences st, pr_floor_prev = kr_floor_prev (fs_retention st),
             pr_remaining = following, pr_id = i, pr_async_floor = policy_async_floor (re_policy e),
             pr_timestamp = re_timestamp e\<rparr>\<rparr>))
      | _ \<Rightarrow> Ok st)"

fun capacity_replay :: "nat \<Rightarrow> nat \<Rightarrow> fake_state \<Rightarrow> (fake_state, store_error) result" where
  "capacity_replay floor 0 st = Ok st"
| "capacity_replay floor (Suc n) st =
     (if fs_retired_keys st = []
      then Err (Serialization ''committed capacity rotation has no retired history'')
      else and_then (rotate_keys_with_floor Capacity floor st) (capacity_replay floor n))"

definition continue_command :: "bool \<Rightarrow> fake_state \<Rightarrow> (fake_state, store_error) result" where
  "continue_command continuing st =
     (if \<not> continuing then Ok st
      else case fs_pending st of
        None \<Rightarrow> Err (Serialization ''replication command continuation absent'')
      | Some p \<Rightarrow>
          if pr_remaining p = 0 then Panic
          else if pr_remaining p = 1 then Ok (st\<lparr>fs_pending := None\<rparr>)
          else Ok (st\<lparr>fs_pending := Some (p\<lparr>pr_remaining := pr_remaining p - 1\<rparr>)\<rparr>))"

definition apply_committed_replication_entry ::
  "fake_config \<Rightarrow> replication_entry \<Rightarrow> fake_state \<Rightarrow> (fake_state, store_error) result" where
  "apply_committed_replication_entry cfg e st =
     (let policy = re_policy e; limit = max_tracked_keys (fc_limits cfg) in
      and_then (cursor_advance (map_option pending_cursor (fs_pending st)) e) (\<lambda>_.
      and_then (recovery_step e st) (\<lambda>st1.
      let st2 = st1\<lparr>fs_internal_keys := policy_internal_keys policy\<rparr>;
          st3 = (if prune_expired policy then prune_state (re_timestamp e) st2 else st2)
      in
      and_then (apply_replicated_op_with_state (re_timestamp e) limit (re_op e) st3) (\<lambda>st4.
      and_then (if retire_dead policy then retire_dead_keys st4 else Ok st4) (\<lambda>st5.
      and_then (start_command e st5) (\<lambda>st6.
      and_then (capacity_replay (policy_async_floor policy) (capacity_rotations policy) st6) (\<lambda>st7.
      and_then (continue_command (fs_pending st \<noteq> None) st7) (\<lambda>st8.
      if saturating_add (length (fs_key_fences st8)) (fs_internal_keys st8) > limit
      then Err key_limit_error
      else Ok (st8\<lparr>fs_committed_time := Some (case fs_committed_time st8 of
                     None \<Rightarrow> re_timestamp e | Some prior \<Rightarrow> max prior (re_timestamp e))\<rparr>)))))))))"

definition apply_visible_recovery_boundary :: "replication_entry \<Rightarrow> fake_state \<Rightarrow> fake_state" where
  "apply_visible_recovery_boundary e st =
     (case policy_recovery (re_policy e) of
        Recover _ \<Rightarrow> st\<lparr>fs_log := [], fs_compacted := policy_async_floor (re_policy e)\<rparr>
      | NoRecovery \<Rightarrow> st)"

text \<open>The staged state of one entry, with its log row.\<close>

definition stage_entry ::
  "fake_config \<Rightarrow> replication_entry \<Rightarrow> fake_state \<Rightarrow> (fake_state, store_error) result" where
  "stage_entry cfg e st =
     and_then (apply_committed_replication_entry cfg e st) (\<lambda>st1.
     Ok (append_entry cfg e (apply_visible_recovery_boundary e st1)))"

definition replicate_entry ::
  "fake_config \<Rightarrow> replication_entry \<Rightarrow> fake_backend \<Rightarrow> fake_backend \<times> (unit, store_error) result" where
  "replicate_entry cfg entry be =
     finish be (
       and_then (into_validated entry) (\<lambda>e.
       if contains_protected_roster_established_create (re_op e)
       then Err (CapabilityNotSupported PROTECTED_ROSTER_PROFILE_V2_CAPABILITY)
       else
       let st = fb_state be;
           divergent = Err (BackendUnavailable ''divergent replication entry sequence'')
       in
       if re_sequence e \<le> fs_last_sequence st
       then if re_sequence e \<le> fs_compacted st then Ok (be, ())
            else case find (\<lambda>x. re_sequence x = re_sequence e) (fs_log st) of
              Some existing \<Rightarrow> if existing = e then Ok (be, ()) else divergent
            | None \<Rightarrow> divergent
       else
       and_then (replication_entry_follows (fs_last_sequence st) e) (\<lambda>follows.
       if \<not> follows then Err (BackendUnavailable ''replication log sequence gap'')
       else
       and_then (stage_entry cfg e st) (\<lambda>staged.
       Ok (notify_watchers e (publish_staged_data staged be), ())))))"

fun rebuild_loop ::
  "fake_config \<Rightarrow> replication_entry list \<Rightarrow> fake_state \<Rightarrow> (fake_state, store_error) result" where
  "rebuild_loop cfg [] st = Ok st"
| "rebuild_loop cfg (e # es) st = and_then (stage_entry cfg e st) (rebuild_loop cfg es)"

definition stage_rebuilt_replication_state ::
  "fake_config \<Rightarrow> replication_entry list \<Rightarrow> (fake_state, store_error) result" where
  "stage_rebuilt_replication_state cfg entries =
     and_then (validate_replication_prefix entries) (\<lambda>_.
     if list_ex (\<lambda>e. contains_protected_roster_established_create (re_op e)) entries
     then Err (CapabilityNotSupported PROTECTED_ROSTER_PROFILE_V2_CAPABILITY)
     else rebuild_loop cfg entries state_empty)"

definition rebuild_replication_state ::
  "fake_config \<Rightarrow> replication_entry list \<Rightarrow> fake_backend \<Rightarrow> fake_backend \<times> (unit, store_error) result" where
  "rebuild_replication_state cfg entries be =
     finish be (
       and_then (validate_replication_prefix entries) (\<lambda>_.
       and_then (stage_rebuilt_replication_state cfg entries) (\<lambda>staged.
       Ok (publish_staged_data staged be, ()))))"

section \<open>Replay of single operations\<close>

lemma contains_create_simps [simp]:
  "contains_create_loop [] = False"
  "contains_create_loop (OpCompareAndSet a b c d e # ops) = contains_create_loop ops"
  "contains_create_loop (OpDeleteFenced a1 b1 c1 # ops) = contains_create_loop ops"
  "contains_create_loop (OpRefreshTtl a2 b2 c2 d2 e2 # ops) = contains_create_loop ops"
  "contains_create_loop (OpAcquireLease a3 b3 c3 d3 e3 f3 # ops) = contains_create_loop ops"
  "contains_create_loop (OpRenewLease a3 b3 c3 d3 e3 f3 # ops) = contains_create_loop ops"
  "contains_create_loop (OpReleaseLease a4 b4 c4 d4 # ops) = contains_create_loop ops"
  by simp_all

declare apply_replicated_op_with_state.simps [simp del]

lemma store_fence_below:
  assumes "store_ok st" "map_of (fs_key_fences st) k = Some f"
  shows "saturating_add f 1 \<le> fs_next_fence st"
proof -
  have "fs_next_fence st = max_u64 \<or> f < fs_next_fence st"
    using assms unfolding store_ok_def bounds_ok_def by (meson le_neq_implies_less)
  then show ?thesis by (auto simp: saturating_add_def)
qed

lemma raise_next_fence_id: "saturating_add f 1 \<le> fs_next_fence st \<Longrightarrow> raise_next_fence f st = st"
  by (simp add: raise_next_fence_def max_def)

lemma raise_counters_id:
  "f < fs_next_fence st \<Longrightarrow> c < fs_next_credential st \<Longrightarrow> fs_next_fence st < max_u64 \<Longrightarrow>
   fs_next_credential st < max_u64 \<Longrightarrow> raise_counters f c st = Ok st"
  by (simp add: raise_counters_def add_or_panic_def max_def)

lemma tracked_capacity: "map_of (fs_key_fences st) k = Some f \<Longrightarrow> ensure_key_capacity st k limit = Ok ()"
  by (simp add: ensure_key_capacity_def)

lemma validated_owner:
  assumes "store_ok st" "validate_fenced_mutation st lease now = Ok k"
  shows "validate_replicated_owner st k (lg_owner lease) (lg_fence lease) = Ok ()"
  using validated_key_fence [OF assms] validate_fenced_mutation_Ok(4) [OF assms(2)]
  by (auto simp: validate_replicated_owner_def)

lemma replay_compare_and_set_eq:
  assumes ok: "store_ok st" and cas: "compare_and_set_with_state cfg st op now = Ok (st', CasSuccess)"
  shows "apply_replicated_op_with_state now (max_tracked_keys (fc_limits cfg)) (cas_replication_op op) st = Ok st'"
proof -
  let ?k = "map_key (cas_key op)"
  have r: "sr_fence (cas_record op) = lg_fence (cas_lease op)" "sr_owner (cas_record op) = lg_owner (cas_lease op)"
    using cas by (auto simp: compare_and_set_with_state_def outcome_simps split: if_splits)
  note v = compare_and_set_Ok(1) [OF cas] and st' = compare_and_set_Ok(2) [OF cas]
    and gen = compare_and_set_success [OF cas]
  note vk = validate_fenced_mutation_Ok [OF v] and cap = tracked_capacity [OF validated_key_fence [OF ok v]]
  have "\<not> sr_fence (cas_record op) < current_fence st ?k" using vk(2) r by simp
  then show ?thesis
    using vk(3,4) cap gen st' r
    by (auto simp: apply_replicated_op_with_state.simps cas_replication_op_def replay_compare_and_set_def Let_def
        contains_protected_roster_established_create_def get_with_state_def split: option.splits if_splits)
qed

lemma replay_delete_eq:
  assumes ok: "store_ok st" and del: "delete_fenced_with_state cfg st lease now = Ok st'"
  shows "apply_replicated_op_with_state now limit (delete_replication_op lease) st = Ok st'"
proof -
  let ?k = "map_key (lg_key lease)"
  note v = delete_fenced_Ok(1) [OF del] and st' = delete_fenced_Ok(2) [OF del]
  have "store_ok st'" using fenced_steps_ok(2) [OF ok del] by simp
  moreover have "map_of (fs_key_fences st') ?k = Some (lg_fence lease)" by (simp add: st' update_conv')
  ultimately have "raise_next_fence (lg_fence lease) st' = st'"
    by (intro raise_next_fence_id store_fence_below)
  then show ?thesis
    using validated_owner [OF ok v] tracked_capacity [OF validated_key_fence [OF ok v]] st'
    by (simp add: apply_replicated_op_with_state.simps delete_replication_op_def replay_delete_def
        contains_protected_roster_established_create_def Let_def)
qed

lemma replay_refresh_eq:
  assumes ok: "store_ok st" and ref: "refresh_ttl_with_state cfg st lease ttl now = Ok (st', expires_at)"
  shows "apply_replicated_op_with_state now limit (refresh_replication_op lease ttl expires_at) st = Ok st'"
proof -
  let ?k = "map_key (lg_key lease)"
  note v = refresh_ttl_Ok(1) [OF ref]
  obtain r where r: "map_of (fs_records st) ?k = Some r"
    "st' = put_record ?k (r\<lparr>sr_expires_at := Some expires_at\<rparr>) (lg_fence lease) st"
    using refresh_ttl_Ok(2) [OF ref] by blast
  have "store_ok st'" using fenced_steps_ok(3) [OF ok ref] by simp
  moreover have "map_of (fs_key_fences st') ?k = Some (lg_fence lease)"
    by (simp add: r(2) put_record_def update_conv')
  ultimately have "raise_next_fence (lg_fence lease) st' = st'"
    by (intro raise_next_fence_id store_fence_below)
  then show ?thesis
    using validated_owner [OF ok v] tracked_capacity [OF validated_key_fence [OF ok v]] r
    by (simp add: apply_replicated_op_with_state.simps refresh_replication_op_def replay_refresh_def
        contains_protected_roster_established_create_def Let_def)
qed

lemma install_lease_counters:
  "install_lease k e (st\<lparr>fs_next_fence := f, fs_next_credential := c\<rparr>) =
   (install_lease k e st)\<lparr>fs_next_fence := f, fs_next_credential := c\<rparr>"
  by (simp add: install_lease_def set_fence_def unretire_def is_live_def Let_def split: option.split)

lemma replay_previous_le:
  assumes "fs_pending st = None" "retention_ok st"
  shows "replay_previous_fence st k \<le> current_fence st k"
  using assms by (auto simp: replay_previous_fence_def current_fence_def observed_absent_fence_def
      retention_ok_def retention_valid_def split: option.split)

lemma replay_acquire_eq:
  assumes pending: "fs_pending st0 = None" "retention_ok st0" and st: "st = apply_async_floor_to_key (map_key key) st0"
    and g: "\<not> lease_held_by_other st (map_key key) owner now" "current_fence st (map_key key) < fence"
      "fs_next_fence st \<le> fence" "ensure_key_capacity st (map_key key) limit = Ok ()"
    and top: "fence < max_u64" "fs_next_credential st < max_u64"
  shows "apply_replicated_op_with_state now limit
      (OpAcquireLease key owner fence (fs_next_credential st) ttl expires_at) st0 =
    Ok (install_lease (map_key key)
      \<lparr>le_active = True, le_credential_id = fs_next_credential st, le_owner = owner, le_fence = fence,
       le_acquired_at = now, le_expires_at = expires_at, le_guard_expires_at = expires_at\<rparr>
      (st\<lparr>fs_next_fence := saturating_add fence 1,
          fs_next_credential := saturating_add (fs_next_credential st) 1\<rparr>))"
proof -
  have "replay_previous_fence st (map_key key) \<le> current_fence st (map_key key)"
    by (rule replay_previous_le) (use pending in \<open>simp_all add: st retention_ok_def\<close>)
  then have "\<not> fence \<le> replay_previous_fence st (map_key key)" using g(2) by simp
  moreover have "fs_next_fence (install_lease k e st) = fs_next_fence st"
    "fs_next_credential (install_lease k e st) = fs_next_credential st" for k e
    by (simp_all add: install_lease_def)
  ultimately show ?thesis
    using g top
    by (simp add: apply_replicated_op_with_state.simps contains_protected_roster_established_create_def
        replay_acquire_def Let_def st [symmetric] raise_counters_def add_or_panic_def saturating_add_def
        install_lease_counters max_def min_def)
qed

text \<open>On a key that its lease keeps above the floor, applying the floor changes nothing.\<close>

lemma map_entry_id: "(\<And>v. map_of xs k = Some v \<Longrightarrow> f v = v) \<Longrightarrow> AList.map_entry k f xs = xs"
  by (induction xs) auto

lemma update_id: "map_of xs k = Some v \<Longrightarrow> AList.update k v xs = xs"
  by (induction xs) (auto split: if_splits)

lemma floor_id:
  assumes "store_ok st0" "st = apply_async_floor_to_key k st0" "map_of (fs_leases st) k = Some e" "le_active e"
  shows "st = st0" "map_of (fs_key_fences st) k = Some (le_fence e)"
    "map_of (fs_retired_keys st) k = None" "is_live st k"
proof -
  obtain e0 where e0: "map_of (fs_leases st0) k = Some e0" "e = floor_lease (fs_async_floor st0) e0"
    using assms(2,3) by (auto simp: apply_floor_maps)
  have "floor_lease (fs_async_floor st0) e0 = e0"
    using assms(4) unfolding e0(2) by (auto simp: floor_lease_def split: if_splits)
  with e0 have e: "map_of (fs_leases st0) k = Some e" "floor_lease (fs_async_floor st0) e = e" by simp_all
  have above: "fs_async_floor st0 < le_fence e" using assms(4) e(2) floor_lease_sel(1) by metis
  have fence: "map_of (fs_key_fences st0) k = Some (le_fence e)"
    using assms(1,4) e(1) unfolding store_ok_def leases_ok_def by blast
  have "AList.map_entry k (\<lambda>f. max f (fs_async_floor st0)) (fs_key_fences st0) = fs_key_fences st0"
    by (rule map_entry_id) (use fence above in auto)
  moreover have "AList.map_entry k (floor_lease (fs_async_floor st0)) (fs_leases st0) = fs_leases st0"
    by (rule map_entry_id) (use e in auto)
  ultimately show st: "st = st0" by (simp add: assms(2) apply_async_floor_to_key_def)
  show "map_of (fs_key_fences st) k = Some (le_fence e)" using fence by (simp add: st)
  show "is_live st k" using assms(3) by (simp add: is_live_def)
  with live_not_retired [OF assms(1)] st show "map_of (fs_retired_keys st) k = None" by simp
qed

text \<open>A live key among the candidates does not change what retirement does.\<close>

lemma drain_retired_None:
  "drain_retired t fp index st = Ok st' \<Longrightarrow> map_of (fs_retired_keys st) k = None \<Longrightarrow>
   map_of (fs_retired_keys st') k = None"
  by (induction t fp index st rule: drain_retired.induct) (auto simp: delete_conv' split: if_splits)

lemma rotate_keys_None:
  "rotate_keys_with_floor reason floor st = Ok st' \<Longrightarrow> map_of (fs_retired_keys st) k = None \<Longrightarrow>
   map_of (fs_retired_keys st') k = None"
  by (auto simp: rotate_keys_with_floor_def outcome_simps Let_def split: option.splits
      dest!: drain_retired_None [where k = k])

lemma retire_key_None:
  assumes "retire_key j f st = Ok st'" "j \<noteq> k" "map_of (fs_retired_keys st) k = None"
  shows "map_of (fs_retired_keys st') k = None"
proof -
  have "map_of (fs_retired_keys (retired_state j f st)) k = None"
    using assms(2,3) by (simp add: retired_state_def Let_def update_conv')
  then show ?thesis
    using retire_key_Ok [OF assms(1)] rotate_keys_None by (auto simp: rotate_keys_def split: if_splits)
qed

lemma retire_loop_live:
  assumes "is_live st k" "map_of (fs_retired_keys st) k = None"
  shows "retire_loop (set_insert k ks) st = retire_loop ks st"
  using assms
proof (induction ks arbitrary: st)
  case Nil
  then show ?case by (simp add: unretire_not_retired)
next
  case (Cons j ks)
  have here: "retire_loop (k # ks') st = retire_loop ks' st" for ks'
    using Cons.prems by (simp add: unretire_not_retired)
  have other: "retire_loop (j # set_insert k ks) st = retire_loop (j # ks) st" if "j \<noteq> k"
  proof -
    have step: "and_then (retire_key j f st) (retire_loop (set_insert k ks)) =
        and_then (retire_key j f st) (retire_loop ks)" for f
    proof (cases "retire_key j f st")
      case (Ok st')
      have "is_live st' k" using Cons.prems(1) retire_key_frame [OF Ok] by (simp add: frame_live)
      with Cons.IH retire_key_None [OF Ok that Cons.prems(2)] Ok show ?thesis by simp
    qed simp_all
    have un: "is_live (unretire j st) k" "map_of (fs_retired_keys (unretire j st)) k = None"
      using Cons.prems frame_live [OF unretire_frame] by (simp_all add: unretire_map)
    show ?thesis
      using Cons.IH [OF Cons.prems] Cons.IH [OF un] step by (simp split: option.split)
  qed
  show ?case using here [of "j # ks"] other by auto
qed

lemma retire_dead_keys_live:
  assumes "is_live st k" "map_of (fs_retired_keys st) k = None"
  shows "retire_dead_keys (st\<lparr>fs_candidates := set_insert k (fs_candidates st)\<rparr>) = retire_dead_keys st"
  using assms retire_loop_live [of "st\<lparr>fs_candidates := []\<rparr>" k]
  by (simp add: retire_dead_keys_def is_live_def)

lemma set_fence_same:
  assumes "is_live st k" "map_of (fs_retired_keys st) k = None" "map_of (fs_key_fences st) k = Some f"
  shows "set_fence k f st = st\<lparr>fs_candidates := set_insert k (fs_candidates st)\<rparr>"
  using assms by (simp add: set_fence_def update_id Let_def unretire_not_retired)

lemma active_lease_below:
  assumes "store_ok st" "map_of (fs_leases st) k = Some e" "le_active e"
    and "fs_next_fence st < max_u64" "fs_next_credential st < max_u64"
  shows "le_fence e < fs_next_fence st" "le_credential_id e < fs_next_credential st"
  using assms unfolding store_ok_def leases_ok_def bounds_ok_def by metis+

lemma replay_renew_eq:
  assumes ok: "store_ok st0" and st: "st = apply_async_floor_to_key (map_key (lg_key lease)) st0"
    and m: "match_lease st lease = Ok e" and top: "fs_next_fence st0 < max_u64" "fs_next_credential st0 < max_u64"
    and staged: "staged = st\<lparr>fs_leases := AList.update (map_key (lg_key lease))
      (e\<lparr>le_expires_at := x, le_guard_expires_at := x\<rparr>) (fs_leases st)\<rparr>"
  shows "\<exists>staged'. apply_replicated_op_with_state now limit (OpRenewLease (lg_key lease) (lg_owner lease)
      (lg_fence lease) (lg_credential_id lease) ttl x) st0 = Ok staged' \<and>
    retire_dead_keys staged' = retire_dead_keys staged"
proof -
  let ?k = "map_key (lg_key lease)"
  let ?e = "e\<lparr>le_expires_at := x, le_guard_expires_at := x\<rparr>"
  note e = match_lease_Ok [OF m] and f = floor_id [OF ok st match_lease_Ok(1,2) [OF m]]
  have entry: "?e = \<lparr>le_active = True, le_credential_id = lg_credential_id lease, le_owner = lg_owner lease,
      le_fence = lg_fence lease, le_acquired_at = le_acquired_at e, le_expires_at = x, le_guard_expires_at = x\<rparr>"
    using e(2-5) by (cases e) simp
  have live: "is_live staged ?k" "map_of (fs_retired_keys staged) ?k = None"
    "map_of (fs_key_fences staged) ?k = Some (lg_fence lease)"
    using f(2,3) e(5) by (simp_all add: staged is_live_def update_conv')
  have ins: "install_lease ?k ?e st0 = staged\<lparr>fs_candidates := set_insert ?k (fs_candidates staged)\<rparr>"
    using set_fence_same [OF live] e(5) by (simp add: install_lease_def staged f(1))
  have "raise_counters (lg_fence lease) (lg_credential_id lease)
      (staged\<lparr>fs_candidates := set_insert ?k (fs_candidates staged)\<rparr>) =
    Ok (staged\<lparr>fs_candidates := set_insert ?k (fs_candidates staged)\<rparr>)"
    by (rule raise_counters_id)
      (use active_lease_below [OF ok e(1) [unfolded f(1)] e(2) top] top e(3,5) in \<open>simp_all add: staged f(1)\<close>)
  moreover have "validate_replicated_owner st0 ?k (lg_owner lease) (lg_fence lease) = Ok ()"
    using e(1,2,4,5) f(1,2) by (simp add: validate_replicated_owner_def)
  ultimately have "apply_replicated_op_with_state now limit (OpRenewLease (lg_key lease) (lg_owner lease)
      (lg_fence lease) (lg_credential_id lease) ttl x) st0 =
    Ok (staged\<lparr>fs_candidates := set_insert ?k (fs_candidates staged)\<rparr>)"
    using e(1,3) f(1,2) tracked_capacity [of st0 ?k] ins entry
    by (simp add: apply_replicated_op_with_state.simps contains_protected_roster_established_create_def
        replay_renew_def Let_def)
  with retire_dead_keys_live [OF live(1,2)] show ?thesis by blast
qed

lemma replay_release_eq:
  assumes ok: "store_ok st0" and st: "st = apply_async_floor_to_key (map_key (lg_key lease)) st0"
    and m: "match_lease st lease = Ok e"
    and staged: "staged = st\<lparr>fs_leases := AList.update (map_key (lg_key lease))
      (e\<lparr>le_active := False, le_guard_expires_at := now\<rparr>) (fs_leases st)\<rparr>"
  shows "\<exists>staged'. apply_replicated_op_with_state now limit (OpReleaseLease (lg_key lease) (lg_owner lease)
      (lg_fence lease) (lg_credential_id lease)) st0 = Ok staged' \<and>
    retire_dead_keys staged' = retire_dead_keys staged"
proof -
  let ?k = "map_key (lg_key lease)"
  let ?e = "e\<lparr>le_active := False, le_guard_expires_at := now\<rparr>"
  note e = match_lease_Ok [OF m] and f = floor_id [OF ok st match_lease_Ok(1,2) [OF m]]
  have live: "is_live staged ?k" "map_of (fs_retired_keys staged) ?k = None"
    "map_of (fs_key_fences staged) ?k = Some (lg_fence lease)"
    using f(2,3) e(5) by (simp_all add: staged is_live_def update_conv')
  have "saturating_add (lg_fence lease) 1 \<le> fs_next_fence staged"
    using store_fence_below [OF ok f(2) [unfolded f(1)]] e(5) by (simp add: staged f(1))
  then have raise: "raise_next_fence (lg_fence lease) (set_fence ?k (lg_fence lease) staged) =
      staged\<lparr>fs_candidates := set_insert ?k (fs_candidates staged)\<rparr>"
    unfolding set_fence_same [OF live] by (intro raise_next_fence_id) simp
  have "validate_replicated_owner st0 ?k (lg_owner lease) (lg_fence lease) = Ok ()"
    using e(1,2,4,5) f(1,2) by (simp add: validate_replicated_owner_def)
  then have "apply_replicated_op_with_state now limit (OpReleaseLease (lg_key lease) (lg_owner lease)
      (lg_fence lease) (lg_credential_id lease)) st0 =
    Ok (staged\<lparr>fs_candidates := set_insert ?k (fs_candidates staged)\<rparr>)"
    using e(1,3) f(1) tracked_capacity [OF live(3)] raise
    by (simp add: apply_replicated_op_with_state.simps contains_protected_roster_established_create_def
        replay_release_def Let_def staged)
  with retire_dead_keys_live [OF live(1,2)] show ?thesis by blast
qed

section \<open>Replay of batches\<close>

lemma apply_ops_append:
  "apply_replicated_ops now limit (xs @ ys) st =
   and_then (apply_replicated_ops now limit xs st) (apply_replicated_ops now limit ys)"
proof (induction xs arbitrary: st)
  case (Cons x xs)
  then show ?case by (cases "apply_replicated_op_with_state now limit x st") simp_all
qed simp

fun slot_op :: "replication_op \<Rightarrow> bool" where
  "slot_op (OpCompareAndSet _ _ _ _ _) = True"
| "slot_op (OpDeleteFenced _ _ _) = True"
| "slot_op (OpRefreshTtl _ _ _ _ _) = True"
| "slot_op _ = False"

lemma slot_ops_no_create: "list_all slot_op ops \<Longrightarrow> \<not> contains_create_loop ops"
proof (induction ops)
  case (Cons op ops)
  then show ?case by (cases op) auto
qed simp

lemma slot_ops_ttls:
  "list_all slot_op ops \<Longrightarrow> (\<And>op. op \<in> set ops \<Longrightarrow> validate_op_ttls t op = Ok ()) \<Longrightarrow> ttls_loop t ops = Ok ()"
proof (induction ops)
  case (Cons op ops)
  from Cons.prems(1) have "ttls_loop t (op # ops) = and_then (validate_op_ttls t op) (\<lambda>_. ttls_loop t ops)"
    by (cases op) auto
  with Cons show ?case by simp
qed simp

lemma deadline_valid:
  assumes "checked_session_deadline t ttl = Ok x"
  shows "validate_deadline t ttl x = Ok ()"
proof -
  have "x \<le> TIMESTAMP_MAX"
    using assms by (auto simp: checked_session_deadline_def outcome_simps timestamp_checked_add_def split: if_splits)
  then show ?thesis
    using assms by (auto simp: validate_deadline_def timestamp_checked_add_def Let_def)
qed

lemma fenced_op_ttls:
  "compare_and_set_with_state cfg st op now = Ok v \<Longrightarrow> validate_op_ttls now (cas_replication_op op) = Ok ()"
  "validate_op_ttls now (delete_replication_op lease) = Ok ()"
  "refresh_ttl_with_state cfg st lease ttl now = Ok (st', x) \<Longrightarrow>
     validate_op_ttls now (refresh_replication_op lease ttl x) = Ok ()"
  by (auto simp: compare_and_set_with_state_def cas_replication_op_def delete_replication_op_def
      refresh_ttl_with_state_def refresh_replication_op_def outcome_simps intro!: deadline_valid
      split: if_splits option.splits)

lemma fenced_op_slot [simp]:
  "slot_op (cas_replication_op op)" "slot_op (delete_replication_op lease)"
  "slot_op (refresh_replication_op lease ttl x)"
  by (simp_all add: cas_replication_op_def delete_replication_op_def refresh_replication_op_def)

definition replays ::
  "timestamp \<Rightarrow> usize \<Rightarrow> replication_op list \<Rightarrow> fake_state \<Rightarrow> fake_state \<Rightarrow> bool" where
  "replays now limit ops st st' \<longleftrightarrow>
     apply_replicated_ops now limit ops st = Ok st' \<and> list_all slot_op ops \<and>
     (\<forall>op \<in> set ops. validate_op_ttls now op = Ok ())"

lemma batch_slot_replay:
  assumes "store_ok (bs_state b)" "batch_slot cfg be now op b = Ok b'"
  shows "\<exists>ops. bs_replication b' = bs_replication b @ ops \<and>
    replays now (max_tracked_keys (fc_limits cfg)) ops (bs_state b) (bs_state b')"
proof (cases op)
  case (SGet key)
  then show ?thesis using assms(2) by (auto simp: replays_def Let_def)
next
  case (SCompareAndSet c)
  then show ?thesis
    using assms(2) replay_compare_and_set_eq [OF assms(1), of cfg c now] fenced_op_ttls(1) [of cfg "bs_state b" c now]
    by (auto simp: replays_def Let_def split: result.splits prod.splits if_splits)
next
  case (SDeleteFenced l)
  then show ?thesis
    using assms(2) replay_delete_eq [OF assms(1), of cfg l now] fenced_op_ttls(2) [of now l]
    by (auto simp: replays_def Let_def split: result.splits prod.splits if_splits)
next
  case (SRefreshTtl l ttl)
  then show ?thesis
    using assms(2) replay_refresh_eq [OF assms(1), of cfg l ttl now] fenced_op_ttls(3) [of cfg "bs_state b" l ttl now]
    by (auto simp: replays_def Let_def split: result.splits prod.splits if_splits)
qed

lemma batch_loop_replay:
  assumes "store_ok (bs_state b)" "batch_loop cfg be now ops b = Ok b'"
  shows "\<exists>rs. bs_replication b' = bs_replication b @ rs \<and>
    replays now (max_tracked_keys (fc_limits cfg)) rs (bs_state b) (bs_state b')"
  using assms
proof (induction ops arbitrary: b)
  case Nil
  then show ?case by (simp add: replays_def)
next
  case (Cons op ops)
  then obtain b1 where b1: "batch_slot cfg be now op b = Ok b1" "batch_loop cfg be now ops b1 = Ok b'"
    by (auto simp: outcome_simps)
  have "store_ok (bs_state b1)" using batch_slot_stage [OF Cons.prems(1) b1(1)] by (simp add: stage_ok_def)
  from Cons.IH [OF this b1(2)] batch_slot_replay [OF Cons.prems(1) b1(1)] show ?case
    by (auto simp: replays_def apply_ops_append)
qed

lemma batch_replay:
  assumes "replays now limit ops st st'"
  shows "apply_replicated_op_with_state now limit (OpBatch ops) st = Ok st'" "ttls_loop now [OpBatch ops] = Ok ()"
proof -
  have "list_all slot_op (rev ops)" using assms by (simp add: replays_def list_all_iff)
  then show "apply_replicated_op_with_state now limit (OpBatch ops) st = Ok st'" "ttls_loop now [OpBatch ops] = Ok ()"
    using assms slot_ops_no_create [of "rev ops"] slot_ops_ttls [of "rev ops" now]
    by (simp_all add: replays_def apply_replicated_op_with_state.simps
        contains_protected_roster_established_create_def)
qed

section \<open>Replay of a commit\<close>

lemma capacity_replay_finalize:
  "finalize_loop m r st = Ok (r', st') \<Longrightarrow>
   r \<le> r' \<and> capacity_replay (fs_async_floor st) (r' - r) st = Ok st'"
proof (induction m r st rule: finalize_loop.induct)
  case (1 m r st)
  show ?case
  proof (cases "saturating_add (length (fs_key_fences st)) (fs_internal_keys st) > m")
    case True
    with "1.prems" obtain st1 where st1: "fs_retired_keys st \<noteq> []" "rotate_keys Capacity st = Ok st1" "r \<noteq> 255"
      "finalize_loop m (r + 1) st1 = Ok (r', st')"
      unfolding finalize_loop.simps [of m r st] by (auto simp: outcome_simps split: if_splits)
    have rot: "rotate_keys_with_floor Capacity (fs_async_floor st) st = Ok st1"
      using st1(2) by (simp add: rotate_keys_def)
    have "fs_async_floor st1 = fs_async_floor st" using rotate_keys_frame [OF rot] by (simp add: frame_def)
    with "1.IH" [OF True st1] have "r < r'" "capacity_replay (fs_async_floor st) (r' - Suc r) st1 = Ok st'" by simp_all
    moreover from this have "r' - r = Suc (r' - Suc r)" by simp
    ultimately show ?thesis using st1(1) rot by simp
  next
    case False
    with "1.prems" show ?thesis unfolding finalize_loop.simps [of m r st] by simp
  qed
qed

lemma finalize_within: "finalize_loop m r st = Ok (r', st') \<Longrightarrow> within_limit m st'"
proof (induction m r st rule: finalize_loop.induct)
  case (1 m r st)
  show ?case
  proof (cases "saturating_add (length (fs_key_fences st)) (fs_internal_keys st) > m")
    case True
    with "1.prems" obtain st1 where "fs_retired_keys st \<noteq> []" "rotate_keys Capacity st = Ok st1" "r \<noteq> 255"
      "finalize_loop m (r + 1) st1 = Ok (r', st')"
      unfolding finalize_loop.simps [of m r st] by (auto simp: outcome_simps split: if_splits)
    from "1.IH" [OF True this] show ?thesis .
  next
    case False
    with "1.prems" show ?thesis unfolding finalize_loop.simps [of m r st] by (simp add: within_limit_def)
  qed
qed

lemma append_entry_committed:
  "append_entry cfg e (st\<lparr>fs_committed_time := c\<rparr>) = (append_entry cfg e st)\<lparr>fs_committed_time := c\<rparr>"
  by (simp add: append_entry_def compact_replication_log_def Let_def)

section \<open>The fence counter never falls\<close>

lemma drain_retired_next: "drain_retired t fp index st = Ok st' \<Longrightarrow> fs_next_fence st' = fs_next_fence st"
  by (induction t fp index st rule: drain_retired.induct) (auto split: if_splits)

lemma rotate_keys_next:
  "rotate_keys_with_floor reason floor st = Ok st' \<Longrightarrow> fs_next_fence st \<le> fs_next_fence st'"
  by (auto simp: rotate_keys_with_floor_def outcome_simps Let_def rotate_epoch_Ok_iff split: option.splits
      dest!: drain_retired_next)

lemma retire_key_next: "retire_key k f st = Ok st' \<Longrightarrow> fs_next_fence st \<le> fs_next_fence st'"
  using retire_key_Ok [of k f st st'] rotate_keys_next [of _ _ "retired_state k f st" st']
  by (auto simp: rotate_keys_def split: if_splits)

lemma retire_loop_next: "retire_loop ks st = Ok st' \<Longrightarrow> fs_next_fence st \<le> fs_next_fence st'"
proof (induction ks arbitrary: st)
  case (Cons k ks)
  from Cons.prems show ?case
    using Cons.IH retire_key_next
    by (fastforce simp: outcome_simps split: if_splits option.splits)
qed simp

lemma retire_dead_keys_next: "retire_dead_keys st = Ok st' \<Longrightarrow> fs_next_fence st \<le> fs_next_fence st'"
  using retire_loop_next [of "fs_candidates st" "st\<lparr>fs_candidates := []\<rparr>" st']
  by (simp add: retire_dead_keys_def)

lemma finalize_loop_next: "finalize_loop m r st = Ok (r', st') \<Longrightarrow> fs_next_fence st \<le> fs_next_fence st'"
proof (induction m r st rule: finalize_loop.induct)
  case (1 m r st)
  show ?case
  proof (cases "saturating_add (length (fs_key_fences st)) (fs_internal_keys st) > m")
    case True
    with "1.prems" obtain st1 where st1: "fs_retired_keys st \<noteq> []" "rotate_keys Capacity st = Ok st1" "r \<noteq> 255"
      "finalize_loop m (r + 1) st1 = Ok (r', st')"
      unfolding finalize_loop.simps [of m r st] by (auto simp: outcome_simps split: if_splits)
    have "fs_next_fence st \<le> fs_next_fence st1" using rotate_keys_next st1(2) by (simp add: rotate_keys_def)
    with "1.IH" [OF True st1] show ?thesis by simp
  next
    case False
    with "1.prems" show ?thesis unfolding finalize_loop.simps [of m r st] by simp
  qed
qed

section \<open>Replay of a commit\<close>

text \<open>
  An operation that replays: applying it to the pruned state and retiring dead keys gives what
  the staged state of the direct operation gives.
\<close>

definition staged_from :: "fake_state \<Rightarrow> fake_state \<Rightarrow> bool" where
  "staged_from st st' \<longleftrightarrow>
     fs_async_floor st' = fs_async_floor st \<and> fs_internal_keys st' = fs_internal_keys st \<and>
     fs_pending st' = fs_pending st \<and> fs_committed_time st' = fs_committed_time st \<and>
     fs_log st' = fs_log st \<and> fs_compacted st' = fs_compacted st \<and>
     fs_next_fence st \<le> fs_next_fence st' \<and> fs_next_credential st \<le> fs_next_credential st'"

definition replayable :: "usize \<Rightarrow> timestamp \<Rightarrow> replication_op \<Rightarrow> fake_state \<Rightarrow> fake_state \<Rightarrow> bool" where
  "replayable limit t op st staged \<longleftrightarrow>
     (\<exists>staged'. apply_replicated_op_with_state t limit op (prune_state t st) = Ok staged' \<and>
        retire_dead_keys staged' = retire_dead_keys staged) \<and>
     ttls_loop t [op] = Ok () \<and> \<not> contains_protected_roster_established_create op \<and> staged_from st staged"

lemma direct_policy_fields [simp]:
  "policy_recovery (direct_policy st r) = NoRecovery" "policy_command (direct_policy st r) = Single"
  "prune_expired (direct_policy st r)" "retire_dead (direct_policy st r)"
  "policy_async_floor (direct_policy st r) = fs_async_floor st"
  "policy_internal_keys (direct_policy st r) = fs_internal_keys st"
  "capacity_rotations (direct_policy st r) = r"
  by (simp_all add: direct_policy_def policy_prune_and_retire_def policy_preserve_def)

lemma apply_committed_replays:
  assumes st: "retire_dead_keys staged = Ok st1" "finalize_loop (max_tracked_keys (fc_limits cfg)) 0 st1 = Ok (rotations, st2)"
    and rep: "replayable (max_tracked_keys (fc_limits cfg)) t op st staged"
    and time: "fs_pending st = None" "\<And>p. fs_committed_time st = Some p \<Longrightarrow> p \<le> t"
  shows "apply_committed_replication_entry cfg (direct_entry n op t (direct_policy st2 rotations)) st =
    Ok (st2\<lparr>fs_committed_time := Some t\<rparr>)"
proof -
  obtain staged' where staged': "apply_replicated_op_with_state t (max_tracked_keys (fc_limits cfg)) op
      (prune_state t st) = Ok staged'" "retire_dead_keys staged' = Ok st1" and same: "staged_from st staged"
    using rep st(1) by (auto simp: replayable_def)
  have f1: "frame staged st1" and f2: "frame st1 st2"
    using retire_dead_keys_frame [OF st(1)] finalize_loop_frame [OF st(2)] by simp_all
  have eqs: "fs_async_floor st2 = fs_async_floor st" "fs_internal_keys st2 = fs_internal_keys st"
    "fs_async_floor st1 = fs_async_floor st" "fs_committed_time st2 = fs_committed_time st"
    using f1 f2 same by (simp_all add: frame_def staged_from_def)
  have cap: "capacity_replay (fs_async_floor st) rotations st1 = Ok st2"
    using capacity_replay_finalize [OF st(2)] eqs by simp
  have lim: "\<not> saturating_add (length (fs_key_fences st2)) (fs_internal_keys st) > max_tracked_keys (fc_limits cfg)"
    using finalize_within [OF st(2)] eqs by (simp add: within_limit_def)
  have id: "st\<lparr>fs_internal_keys := fs_internal_keys st\<rparr> = st" by simp
  have tm: "(case fs_committed_time st of None \<Rightarrow> t | Some prior \<Rightarrow> max prior t) = t"
    using time(2) by (auto split: option.split)
  show ?thesis
    using staged' cap lim time(1)
    by (simp add: apply_committed_replication_entry_def Let_def cursor_advance_def cursor_after_def
        direct_entry_def recovery_step_def start_command_def continue_command_def eqs id tm
        cong: option.case_cong)
qed

lemma stage_entry_replays:
  assumes "commit_direct_data cfg be0 staged (Some n) op t = Ok be'"
    and rep: "replayable (max_tracked_keys (fc_limits cfg)) t op st staged"
    and time: "fs_pending st = None" "\<And>p. fs_committed_time st = Some p \<Longrightarrow> p \<le> t"
    and n: "next_replication_sequence (fs_last_sequence st) = Ok n" and watch: "cap_watch (fc_caps cfg)"
  shows "\<exists>e. fb_notified be' = fb_notified be0 @ [e] \<and> stage_entry cfg e st = Ok (fb_state be') \<and>
    entry_validate e = Ok () \<and> require_follows (fs_last_sequence st) e = Ok () \<and>
    re_sequence e = fs_last_sequence (fb_state be') \<and>
    fs_log (fb_state be') = fs_log (append_entry cfg e st) \<and>
    fs_compacted (fb_state be') = fs_compacted (append_entry cfg e st) \<and>
    \<not> contains_protected_roster_established_create (re_op e)"
proof -
  obtain st1 rotations st2 where st: "retire_dead_keys staged = Ok st1"
    "finalize_loop (max_tracked_keys (fc_limits cfg)) 0 st1 = Ok (rotations, st2)"
    and v: "validate_structure op = Ok ()" "policy_validate (direct_policy st2 rotations) = Ok ()"
    and be': "fb_state be' = append_entry cfg (direct_entry n op t (direct_policy st2 rotations)) st2
      \<lparr>fs_committed_time := Some t\<rparr>"
    using commit_direct_data_Ok [OF assms(1)] by (auto simp: finalize_key_capacity_def)
  let ?e = "direct_entry n op t (direct_policy st2 rotations)"
  have "fb_notified be' = fb_notified be0 @ [?e]"
    using assms(1) st v watch
    by (auto simp: commit_direct_data_def finalize_key_capacity_def Let_def append_direct_replication_entry_def
        notify_watchers_def publish_staged_data_def)
  moreover have "stage_entry cfg ?e st = Ok (fb_state be')"
    using apply_committed_replays [OF st rep time]
    by (simp add: stage_entry_def apply_visible_recovery_boundary_def be' append_entry_committed direct_entry_def)
  moreover have "n > 0" using n by (auto simp: next_replication_sequence_def outcome_simps checked_add_def split: if_splits)
  then have "entry_validate ?e = Ok ()"
    using v rep by (simp add: entry_validate_def validate_sequence_def direct_entry_def validate_ttls_at_def replayable_def)
  moreover have "require_follows (fs_last_sequence st) ?e = Ok ()"
    using n by (simp add: require_follows_def replication_entry_follows_def direct_entry_def)
  moreover have "re_sequence ?e = fs_last_sequence (fb_state be')"
    by (simp add: be' append_entry_def compact_replication_log_def Let_def)
  moreover have "fs_log st2 = fs_log st \<and> fs_compacted st2 = fs_compacted st"
    using retire_dead_keys_frame [OF st(1)] finalize_loop_frame [OF st(2)] rep
    by (simp add: frame_def replayable_def staged_from_def)
  then have "fs_log (fb_state be') = fs_log (append_entry cfg ?e st) \<and>
      fs_compacted (fb_state be') = fs_compacted (append_entry cfg ?e st)"
    by (simp add: be' append_entry_def compact_replication_log_def Let_def)
  moreover have "\<not> contains_protected_roster_established_create (re_op ?e)"
    using rep by (simp add: direct_entry_def replayable_def)
  ultimately show ?thesis by blast
qed

lemma command_time_le: "fs_committed_time (fb_state be) = Some p \<Longrightarrow> p \<le> fst (command_time clock be)"
  by (auto simp: command_time_def Let_def split: option.split)

section \<open>Every committed request replays\<close>

lemma fenced_staged_from:
  "compare_and_set_with_state cfg st op now = Ok (st', result) \<Longrightarrow> staged_from st st'"
  "delete_fenced_with_state cfg st lease now = Ok st' \<Longrightarrow> staged_from st st'"
  "refresh_ttl_with_state cfg st lease ttl now = Ok (st', x) \<Longrightarrow> staged_from st st'"
proof -
  show "compare_and_set_with_state cfg st op now = Ok (st', result) \<Longrightarrow> staged_from st st'"
    using compare_and_set_Ok [of cfg st op now st' result]
    by (cases "result = CasSuccess") (auto simp: staged_from_def put_record_def set_fence_def Let_def)
qed (use delete_fenced_Ok(2) [of cfg st lease now st'] refresh_ttl_Ok [of cfg st lease ttl now st' x]
     in \<open>auto simp: staged_from_def put_record_def set_fence_def Let_def\<close>)

lemma staged_from_prune: "staged_from (prune_state t st) st' = staged_from st st'"
  by (simp add: staged_from_def)

lemma fenced_replayable:
  assumes ok: "store_ok (prune_state t st)"
  shows "compare_and_set_with_state cfg (prune_state t st) op t = Ok (st', CasSuccess) \<Longrightarrow>
      replayable (max_tracked_keys (fc_limits cfg)) t (cas_replication_op op) st st'"
    and "delete_fenced_with_state cfg (prune_state t st) lease t = Ok st' \<Longrightarrow>
      replayable limit t (delete_replication_op lease) st st'"
    and "refresh_ttl_with_state cfg (prune_state t st) lease ttl t = Ok (st', x) \<Longrightarrow>
      replayable limit t (refresh_replication_op lease ttl x) st st'"
  using replay_compare_and_set_eq [OF ok] replay_delete_eq [OF ok] replay_refresh_eq [OF ok]
    fenced_staged_from [of cfg "prune_state t st", unfolded staged_from_prune]
    slot_ops_ttls [of "[_]"] slot_ops_no_create [of "[_]"] fenced_op_ttls
  by (auto simp: replayable_def contains_protected_roster_established_create_def)

lemma acquire_replayable:
  assumes pre: "pre = prune_state t st" "store_ok pre" "retention_ok pre" "fs_pending st = None"
    and st1: "st1 = apply_async_floor_to_key (map_key key) pre"
    and g: "\<not> lease_held_by_other st1 (map_key key) owner t" "current_fence st1 (map_key key) < fence"
      "fs_next_fence st1 \<le> fence" "ensure_key_capacity st1 (map_key key) limit = Ok ()"
    and x: "checked_session_deadline t ttl = Ok x"
    and staged: "staged = install_lease (map_key key)
      \<lparr>le_active = True, le_credential_id = fs_next_credential st1, le_owner = owner, le_fence = fence,
       le_acquired_at = t, le_expires_at = x, le_guard_expires_at = x\<rparr>
      (st1\<lparr>fs_next_fence := saturating_add fence 1,
          fs_next_credential := saturating_add (fs_next_credential st1) 1\<rparr>)"
    and top: "fs_next_fence staged < max_u64" "fs_next_credential staged < max_u64"
  shows "replayable limit t (OpAcquireLease key owner fence (fs_next_credential st1) ttl x) st staged"
proof -
  have f: "fs_next_fence staged = saturating_add fence 1"
    "fs_next_credential staged = saturating_add (fs_next_credential st1) 1"
    by (simp_all add: staged install_lease_def set_fence_def Let_def)
  then have "fence < max_u64" "fs_next_credential st1 < max_u64" using top by (auto simp: saturating_add_def)
  moreover have "fs_pending pre = None" using pre by simp
  ultimately have "apply_replicated_op_with_state t limit
      (OpAcquireLease key owner fence (fs_next_credential st1) ttl x) pre = Ok staged"
    using replay_acquire_eq [OF _ pre(3) st1 g] by (simp add: staged)
  moreover have "staged_from st staged"
    using f g(3) top by (auto simp: staged_from_def saturating_add_def) (simp_all add: staged st1 pre(1) install_lease_def set_fence_def Let_def)
  ultimately show ?thesis
    using deadline_valid [OF x] pre(1) by (simp add: replayable_def contains_protected_roster_established_create_def)
qed

lemma lease_update_from:
  "staged_from st (apply_async_floor_to_key k (prune_state t st)
     \<lparr>fs_leases := ls\<rparr>)"
  by (simp add: staged_from_def)

definition logged :: "fake_config \<Rightarrow> fake_backend \<Rightarrow> fake_backend \<Rightarrow> bool" where
  "logged cfg be be' \<longleftrightarrow>
     (\<exists>e. fb_notified be' = fb_notified be @ [e] \<and> stage_entry cfg e (fb_state be) = Ok (fb_state be') \<and>
        entry_validate e = Ok () \<and> require_follows (fs_last_sequence (fb_state be)) e = Ok () \<and>
        re_sequence e = fs_last_sequence (fb_state be') \<and>
        fs_log (fb_state be') = fs_log (append_entry cfg e (fb_state be)) \<and>
        fs_compacted (fb_state be') = fs_compacted (append_entry cfg e (fb_state be)) \<and>
        \<not> contains_protected_roster_established_create (re_op e))"

lemma commits_logged:
  assumes c: "commits cfg be op staged t be'" and rep: "replayable (max_tracked_keys (fc_limits cfg)) t op (fb_state be) staged"
    and t: "t = fst (command_time clock be)" and caps: "cap_ordered_replication_log (fc_caps cfg)" "cap_watch (fc_caps cfg)"
  shows "logged cfg be be'"
proof -
  obtain be0 n where be0: "fb_notified be0 = fb_notified be" "fs_pending (fb_state be) = None"
    "next_replication_sequence (fs_last_sequence (fb_state be)) = Ok n"
    "commit_direct_data cfg be0 staged (Some n) op t = Ok be'"
    using c caps by (auto simp: commits_def next_direct_replication_sequence_def require_complete_replay_command_def
        outcome_simps split: if_splits)
  from stage_entry_replays [OF be0(4) rep be0(2) _ be0(3) caps(2)] command_time_le show ?thesis
    by (auto simp: logged_def be0(1) t)
qed

lemma commits_pending: "commits cfg be op staged t be' \<Longrightarrow> fs_pending (fb_state be) = None"
  by (auto simp: commits_def next_direct_replication_sequence_def require_complete_replay_command_def
        outcome_simps split: if_splits)

lemma commits_counters:
  assumes "commits cfg be op staged t be'"
  shows "fs_next_fence staged \<le> fs_next_fence (fb_state be')"
    "fs_next_credential (fb_state be') = fs_next_credential staged"
proof -
  obtain be0 seqn where "commit_direct_data cfg be0 staged seqn op t = Ok be'"
    using assms by (auto simp: commits_def)
  from commit_direct_data_Ok [OF this] obtain st1 rotations st2 where
    st: "retire_dead_keys staged = Ok st1" "finalize_loop (max_tracked_keys (fc_limits cfg)) 0 st1 = Ok (rotations, st2)"
    and be': "fb_state be' = (case seqn of None \<Rightarrow> st2
      | Some n \<Rightarrow> append_entry cfg (direct_entry n op t (direct_policy st2 rotations)) st2)
       \<lparr>fs_committed_time := Some t\<rparr>"
    by (auto simp: finalize_key_capacity_def)
  have "fs_next_fence staged \<le> fs_next_fence st2" "fs_next_credential st2 = fs_next_credential staged"
    using retire_dead_keys_next [OF st(1)] finalize_loop_next [OF st(2)]
      retire_dead_keys_frame [OF st(1)] finalize_loop_frame [OF st(2)] by (simp_all add: frame_def)
  then show "fs_next_fence staged \<le> fs_next_fence (fb_state be')"
    "fs_next_credential (fb_state be') = fs_next_credential staged"
    by (simp_all add: be' append_entry_def compact_replication_log_def Let_def split: option.split)
qed

lemma batch_slot_from:
  "batch_slot cfg be now op b = Ok b' \<Longrightarrow> staged_from (bs_state b) (bs_state b')"
  using fenced_staged_from [of cfg "bs_state b"]
  by (cases op) (auto simp: Let_def split: result.splits prod.splits if_splits, simp_all add: staged_from_def)

lemma batch_loop_from:
  "batch_loop cfg be now ops b = Ok b' \<Longrightarrow> staged_from (bs_state b) (bs_state b')"
proof (induction ops arbitrary: b)
  case Nil
  then show ?case by (simp add: staged_from_def)
next
  case (Cons op ops)
  then obtain b1 where b1: "batch_slot cfg be now op b = Ok b1" "batch_loop cfg be now ops b1 = Ok b'"
    by (auto simp: outcome_simps)
  from batch_slot_from [OF b1(1)] Cons.IH [OF b1(2)] show ?case by (auto simp: staged_from_def)
qed

definition below_top :: "fake_state \<Rightarrow> bool" where
  "below_top st \<longleftrightarrow> fs_next_fence st < max_u64 \<and> fs_next_credential st < max_u64"

definition mirrored :: "fake_config \<Rightarrow> fake_backend \<Rightarrow> fake_backend \<Rightarrow> bool" where
  "mirrored cfg be be' \<longleftrightarrow>
     below_top (fb_state be) \<and>
     (fb_state be' = fb_state be \<and> fb_notified be' = fb_notified be \<or> logged cfg be be')"

definition log_config :: "fake_config \<Rightarrow> bool" where
  "log_config cfg \<longleftrightarrow> cap_ordered_replication_log (fc_caps cfg) \<and> cap_watch (fc_caps cfg)"

lemma mirrored_same:
  "below_top (fb_state be') \<Longrightarrow> fb_state be' = fb_state be \<Longrightarrow> fb_notified be' = fb_notified be \<Longrightarrow> mirrored cfg be be'"
  by (simp add: mirrored_def)

lemma commits_mirrored:
  assumes cfg: "log_config cfg" and top: "below_top (fb_state be')" and c: "commits cfg be op staged t be'"
    and t: "t = fst (command_time clock be)"
    and rep: "below_top staged \<Longrightarrow> replayable (max_tracked_keys (fc_limits cfg)) t op (fb_state be) staged"
  shows "mirrored cfg be be'"
proof -
  have "below_top staged" using top commits_counters [OF c] by (simp add: below_top_def)
  from this rep [OF this] have "below_top (fb_state be)"
    by (simp add: below_top_def replayable_def staged_from_def)
  moreover have "logged cfg be be'"
    using commits_logged [OF c rep t] cfg \<open>below_top staged\<close> by (simp add: log_config_def)
  ultimately show ?thesis by (simp add: mirrored_def)
qed

lemma compare_and_set_mirrored:
  assumes be: "published_ok cfg (fb_state be)" "log_config cfg" "below_top (fb_state be')"
    and eq: "backend_compare_and_set cfg clock op be = (be', r)"
  shows "mirrored cfg be be'"
  using compare_and_set_cases [OF eq] mirrored_same [OF be(3)] commits_mirrored [OF be(2,3) _ refl]
    fenced_replayable(1) [OF published_prune [OF be(1)]] by blast

lemma delete_fenced_mirrored:
  assumes be: "published_ok cfg (fb_state be)" "log_config cfg" "below_top (fb_state be')"
    and eq: "backend_delete_fenced cfg clock lease be = (be', r)"
  shows "mirrored cfg be be'"
  using delete_fenced_cases [OF eq] mirrored_same [OF be(3)] commits_mirrored [OF be(2,3) _ refl]
    fenced_replayable(2) [OF published_prune [OF be(1)]] by blast

lemma refresh_ttl_mirrored:
  assumes be: "published_ok cfg (fb_state be)" "log_config cfg" "below_top (fb_state be')"
    and eq: "backend_refresh_ttl cfg clock lease ttl be = (be', r)"
  shows "mirrored cfg be be'"
  using refresh_ttl_cases [OF eq] mirrored_same [OF be(3)] commits_mirrored [OF be(2,3) _ refl]
    fenced_replayable(3) [OF published_prune [OF be(1)]] by blast

lemma lease_update_replayable:
  assumes ok: "store_ok (prune_state t st)" and below: "below_top staged"
    and m: "match_lease (apply_async_floor_to_key (map_key (lg_key lease)) (prune_state t st)) lease = Ok e"
  shows "staged = apply_async_floor_to_key (map_key (lg_key lease)) (prune_state t st)
      \<lparr>fs_leases := AList.update (map_key (lg_key lease)) (e\<lparr>le_expires_at := x, le_guard_expires_at := x\<rparr>)
        (fs_leases (apply_async_floor_to_key (map_key (lg_key lease)) (prune_state t st)))\<rparr> \<Longrightarrow>
    checked_session_deadline t ttl = Ok x \<Longrightarrow>
    replayable limit t (OpRenewLease (lg_key lease) (lg_owner lease) (lg_fence lease)
      (lg_credential_id lease) ttl x) st staged"
    and "staged = apply_async_floor_to_key (map_key (lg_key lease)) (prune_state t st)
      \<lparr>fs_leases := AList.update (map_key (lg_key lease)) (e\<lparr>le_active := False, le_guard_expires_at := t\<rparr>)
        (fs_leases (apply_async_floor_to_key (map_key (lg_key lease)) (prune_state t st)))\<rparr> \<Longrightarrow>
    replayable limit t (OpReleaseLease (lg_key lease) (lg_owner lease) (lg_fence lease)
      (lg_credential_id lease)) st staged"
  using below replay_renew_eq [OF ok refl m _ _, of staged x t limit ttl]
    replay_release_eq [OF ok refl m, of staged t limit] deadline_valid [of t ttl x]
  by (simp_all add: replayable_def below_top_def lease_update_from contains_protected_roster_established_create_def)

lemma renew_mirrored:
  assumes be: "published_ok cfg (fb_state be)" "log_config cfg" "below_top (fb_state be')"
    and eq: "backend_renew cfg clock lease ttl be = (be', r)"
  shows "mirrored cfg be be'"
  using renew_cases [OF eq] mirrored_same [OF be(3)] commits_mirrored [OF be(2,3) _ refl]
    lease_update_replayable(1) [OF published_prune [OF be(1)] _ _ refl] by blast

lemma release_mirrored:
  assumes be: "published_ok cfg (fb_state be)" "log_config cfg" "below_top (fb_state be')"
    and eq: "backend_release cfg clock lease be = (be', r)"
  shows "mirrored cfg be be'"
  using release_cases [OF eq] mirrored_same [OF be(3)] commits_mirrored [OF be(2,3) _ refl]
    lease_update_replayable(2) [OF published_prune [OF be(1)] _ _ refl] by blast

lemma acquire_mirrored:
  assumes be: "published_ok cfg (fb_state be)" "log_config cfg" "below_top (fb_state be')"
    and eq: "backend_acquire cfg clock key owner ttl be = (be', r)"
  shows "mirrored cfg be be'"
  using acquire_cases [OF eq]
proof (elim disjE exE conjE)
  let ?now = "fst (command_time clock be)" and ?k = "map_key key"
  let ?pre = "prune_state ?now (fb_state be)"
  let ?st = "apply_async_floor_to_key ?k ?pre"
  fix g :: lease_guard
  assume free: "\<not> lease_held_by_other ?st ?k owner ?now"
    and g: "lg_fence g = max (fs_next_fence ?st) (current_fence ?st ?k + 1)"
    and x: "checked_session_deadline ?now ttl = Ok (lg_expires_at g)"
    and cap: "ensure_key_capacity ?st ?k (max_tracked_keys (fc_limits cfg)) = Ok ()"
    and c: "commits cfg be
      (OpAcquireLease key owner (lg_fence g) (fs_next_credential ?st) ttl (lg_expires_at g))
      (install_lease ?k \<lparr>le_active = True, le_credential_id = fs_next_credential ?st, le_owner = owner,
         le_fence = lg_fence g, le_acquired_at = ?now, le_expires_at = lg_expires_at g,
         le_guard_expires_at = lg_expires_at g\<rparr>
        (?st\<lparr>fs_next_fence := saturating_add (lg_fence g) 1,
      fs_next_credential := saturating_add (fs_next_credential ?st) 1\<rparr>)) ?now be'"
  have ok: "store_ok ?pre" "retention_ok ?pre"
    using published_prune [OF be(1)] be(1) by (simp_all add: published_ok_def retention_ok_def)
  have "current_fence ?st ?k < lg_fence g" "fs_next_fence ?st \<le> lg_fence g" using g by simp_all
  note rep = acquire_replayable [OF refl ok commits_pending [OF c] refl free this cap x refl]
  show ?thesis
    by (rule commits_mirrored [OF be(2,3) c refl]) (use rep in \<open>simp only: below_top_def\<close>)
qed (use mirrored_same [OF be(3)] in simp)

lemma mark_expired_notified [simp]: "fb_notified (fold (mark_expired now) rs be) = fb_notified be"
  by (rule fold_field) (simp add: mark_expired_def)

lemma mirrored_cong:
  "fb_state be1 = fb_state be2 \<Longrightarrow> fb_notified be1 = fb_notified be2 \<Longrightarrow>
   fb_state be1' = fb_state be2' \<Longrightarrow> fb_notified be1' = fb_notified be2' \<Longrightarrow>
   mirrored cfg be1 be1' = mirrored cfg be2 be2'"
  by (simp add: mirrored_def logged_def)

end
