(* ===== verification/Session_Convergence.thy ===== *)
theory Session_Convergence
  imports Session_Replay
begin

text \<open>
  Convergence of replicas of the in-memory session backend.  The log of a run of direct requests,
  replayed from the empty state by a rebuild or entry by entry, gives the state of the run, and a
  delivered entry that comes again changes nothing.
\<close>

section \<open>Batches and runs\<close>

lemma batch_body_mirrored:
  assumes be: "published_ok cfg (fb_state be)" "log_config cfg" "below_top (fb_state be')"
    and be1: "fb_state be1 = fb_state be" "fb_notified be1 = fb_notified be"
    and now: "list_ex is_write ops \<Longrightarrow> now = fst (command_time clock be)"
    and body: "batch_body cfg now ops be1 = Ok (be', rs)"
  shows "mirrored cfg be be'"
proof -
  let ?st = "if list_ex is_write ops then prune_state now (fb_state be) else fb_state be"
  obtain b be2 where "batch_loop cfg be1 now ops
      \<lparr>bs_state = if list_ex is_write ops then prune_state now (fb_state be1) else fb_state be1, bs_replication = [], bs_expired = [], bs_results = []\<rparr> = Ok b"
    and "(if bs_replication b \<noteq> []
      then and_then (next_direct_replication_sequence cfg (fb_state be1)) (\<lambda>seqn.
        commit_direct_data cfg be1 (bs_state b) seqn (OpBatch (bs_replication b)) now)
      else Ok be1) = Ok be2" and "be' = fold (mark_expired now) (bs_expired b) be2"
    using body by (cases "cap_batch_write (fc_caps cfg)") (auto simp: batch_body_def outcome_simps Let_def)
  note b = this(1) [unfolded be1(1)] and commit = this(2) [unfolded be1(1)] and be' = this(3)
  have ok: "store_ok ?st" using published_prune [OF be(1)] be(1) by (simp add: published_ok_def)
  show ?thesis
  proof (cases "bs_replication b = []")
    case True
    then show ?thesis using commit be(3) be1 be' by (simp add: mirrored_def)
  next
    case False
    then have w: "list_ex is_write ops" using batch_loop_stage [OF _ b] ok by auto
    have c: "commits cfg be (OpBatch (bs_replication b)) (bs_state b) now be2"
      using commit False be1 by (auto simp: outcome_simps commits_def)
    have "replays now (max_tracked_keys (fc_limits cfg)) (bs_replication b) (prune_state now (fb_state be)) (bs_state b)"
      using batch_loop_replay [OF _ b] ok w by simp
    moreover have "staged_from (fb_state be) (bs_state b)"
      using batch_loop_from [OF b] w by (simp add: staged_from_prune)
    ultimately have "replayable (max_tracked_keys (fc_limits cfg)) now (OpBatch (bs_replication b)) (fb_state be) (bs_state b)"
      using batch_replay slot_ops_no_create [of "rev (bs_replication b)"]
      by (simp add: replayable_def contains_protected_roster_established_create_def replays_def list_all_iff)
    from commits_mirrored [OF be(2) _ c now [OF w] this] be(3) be' show ?thesis
      using mirrored_cong [of be be be2 be'] by simp
  qed
qed

lemma batch_mirrored:
  assumes be: "published_ok cfg (fb_state be)" "log_config cfg" "below_top (fb_state be')"
    and eq: "backend_batch cfg clock ops be = (be', r)"
  shows "mirrored cfg be be'"
proof -
  have finish: "mirrored cfg be be'"
    if "fb_state be1 = fb_state be" "fb_notified be1 = fb_notified be"
      "list_ex is_write ops \<Longrightarrow> now = fst (command_time clock be)"
      "finish be1 (batch_body cfg now ops be1) = (be', r)" for be1 now
    using finish_cases [OF that(4)] mirrored_same [OF be(3)] that(1,2)
      batch_body_mirrored [OF be that(1-3)] by auto
  show ?thesis
    using eq finish [of be clock] finish [of "snd (command_time clock be)" "fst (command_time clock be)"]
      mirrored_same [OF be(3), of be]
    by (auto simp: backend_batch_def split_beta split: if_splits result.splits)
qed

lemma backend_get_notified [simp]: "fb_notified (fst (backend_get t key be)) = fb_notified be"
  using get_for_read_state [of be key t]
  by (simp add: backend_get_def split_beta del: get_for_read_state)

lemma backend_step_mirrored:
  assumes be: "published_ok cfg (fb_state be)" "log_config cfg" "below_top (fb_state (backend_step cfg tr be))"
  shows "mirrored cfg be (backend_step cfg tr be)"
proof (cases tr)
  case (Pair t req)
  from be(3) show ?thesis
    using mirrored_same compare_and_set_mirrored [OF be(1,2)] delete_fenced_mirrored [OF be(1,2)]
      refresh_ttl_mirrored [OF be(1,2)] batch_mirrored [OF be(1,2)] acquire_mirrored [OF be(1,2)]
      renew_mirrored [OF be(1,2)] release_mirrored [OF be(1,2)]
    by (cases req) (simp_all add: Pair backend_step_def, (metis prod.collapse)+)
qed

section \<open>Convergence\<close>

lemma rebuild_loop_append:
  "rebuild_loop cfg (xs @ ys) st = and_then (rebuild_loop cfg xs st) (rebuild_loop cfg ys)"
proof (induction xs arbitrary: st)
  case (Cons x xs)
  then show ?case by (cases "stage_entry cfg x st") simp_all
qed simp

lemma prefix_loop_append:
  "prefix_loop p (xs @ ys) =
   and_then (prefix_loop p xs) (\<lambda>_. prefix_loop (if xs = [] then p else re_sequence (last xs)) ys)"
proof (induction xs arbitrary: p)
  case (Cons x xs)
  then show ?case
    by (cases "entry_validate x"; cases "require_follows p x") (auto simp: last_ConsR)
qed simp

text \<open>What the published log of a run has in common with its state.\<close>

definition log_ok :: "fake_config \<Rightarrow> fake_backend \<Rightarrow> bool" where
  "log_ok cfg be \<longleftrightarrow>
     rebuild_loop cfg (fb_notified be) state_empty = Ok (fb_state be) \<and>
     prefix_loop 0 (fb_notified be) = Ok () \<and>
     (if fb_notified be = [] then 0 else re_sequence (last (fb_notified be))) = fs_last_sequence (fb_state be) \<and>
     \<not> list_ex (\<lambda>e. contains_protected_roster_established_create (re_op e)) (fb_notified be)"

lemma mirrored_log_ok:
  assumes "log_ok cfg be" "mirrored cfg be be'"
  shows "log_ok cfg be'"
  using assms(2) unfolding mirrored_def
proof (elim conjE disjE)
  assume "logged cfg be be'"
  then obtain e where e: "fb_notified be' = fb_notified be @ [e]" "stage_entry cfg e (fb_state be) = Ok (fb_state be')"
    "entry_validate e = Ok ()" "require_follows (fs_last_sequence (fb_state be)) e = Ok ()"
    "re_sequence e = fs_last_sequence (fb_state be')"
    "\<not> contains_protected_roster_established_create (re_op e)"
    by (auto simp: logged_def)
  then show ?thesis
    using assms(1) by (simp add: log_ok_def rebuild_loop_append prefix_loop_append)
qed (use assms(1) in \<open>auto simp: log_ok_def split: if_splits\<close>)

lemma backend_run_snoc: "backend_run cfg (reqs @ [tr]) be = backend_step cfg tr (backend_run cfg reqs be)"
  by (simp add: backend_run_def)

lemma backend_run_log_ok:
  assumes "log_config cfg" "below_top (fb_state (backend_run cfg reqs backend_new))"
  shows "log_ok cfg (backend_run cfg reqs backend_new)"
  using assms(2)
proof (induction reqs rule: rev_induct)
  case Nil
  show ?case by (simp add: backend_run_def log_ok_def backend_new_def state_empty_def)
next
  case (snoc tr reqs)
  have "mirrored cfg (backend_run cfg reqs backend_new) (backend_run cfg (reqs @ [tr]) backend_new)"
    using backend_step_mirrored [OF run_published assms(1)] snoc.prems by (simp add: backend_run_snoc)
  then show ?case using snoc.IH mirrored_log_ok by (auto simp: mirrored_def)
qed

text \<open>Delivery of entries one after another, up to the first that is refused.\<close>

fun deliver_all ::
  "fake_config \<Rightarrow> replication_entry list \<Rightarrow> fake_backend \<Rightarrow> fake_backend \<times> (unit, store_error) result" where
  "deliver_all cfg [] be = (be, Ok ())"
| "deliver_all cfg (e # es) be =
     (case replicate_entry cfg e be of (be', Ok _) \<Rightarrow> deliver_all cfg es be' | refused \<Rightarrow> refused)"

lemma stage_entry_sequence: "stage_entry cfg e st = Ok st' \<Longrightarrow> fs_last_sequence st' = re_sequence e"
  by (auto simp: stage_entry_def outcome_simps append_entry_def compact_replication_log_def Let_def)

lemma require_follows_Ok:
  "require_follows p e = Ok () \<Longrightarrow> replication_entry_follows p e = Ok True \<and> p < re_sequence e"
  by (auto simp: require_follows_def replication_entry_follows_def outcome_simps next_replication_sequence_def
      checked_add_def split: recovery_boundary.splits if_splits)

lemma replicate_entry_next:
  assumes "entry_validate e = Ok ()" "require_follows (fs_last_sequence (fb_state be)) e = Ok ()"
    "\<not> contains_protected_roster_established_create (re_op e)" "stage_entry cfg e (fb_state be) = Ok st"
  shows "replicate_entry cfg e be = (notify_watchers e (publish_staged_data st be), Ok ())"
  using assms require_follows_Ok [OF assms(2)]
  by (simp add: replicate_entry_def into_validated_def finish_def Let_def)

lemma deliver_all_rebuilds:
  assumes "rebuild_loop cfg es (fb_state be) = Ok st" "prefix_loop (fs_last_sequence (fb_state be)) es = Ok ()"
    "\<not> list_ex (\<lambda>e. contains_protected_roster_established_create (re_op e)) es"
  shows "\<exists>be'. deliver_all cfg es be = (be', Ok ()) \<and> fb_state be' = st \<and>
    fb_notified be' = fb_notified be @ es"
  using assms
proof (induction es arbitrary: be)
  case (Cons e es)
  then obtain st1 where st1: "stage_entry cfg e (fb_state be) = Ok st1" "rebuild_loop cfg es st1 = Ok st"
    "entry_validate e = Ok ()" "require_follows (fs_last_sequence (fb_state be)) e = Ok ()"
    "prefix_loop (re_sequence e) es = Ok ()"
    by (auto simp: outcome_simps)
  let ?be = "notify_watchers e (publish_staged_data st1 be)"
  have be: "fb_state ?be = st1" "fb_notified ?be = fb_notified be @ [e]" "fs_last_sequence st1 = re_sequence e"
    using stage_entry_sequence [OF st1(1)] by (simp_all add: notify_watchers_def publish_staged_data_def)
  have "replicate_entry cfg e be = (?be, Ok ())"
    using replicate_entry_next [OF st1(3,4) _ st1(1)] Cons.prems(3) by simp
  then show ?case using Cons.IH [of ?be] Cons.prems(3) be st1(2,5) by auto
qed simp

text \<open>Compaction keeps an increasing suffix of the log above its mark.\<close>

definition increasing :: "replication_entry list \<Rightarrow> bool" where
  "increasing es \<longleftrightarrow> sorted_wrt (\<lambda>a b. re_sequence a < re_sequence b) es"

lemma increasing_before:
  assumes "increasing es" "x \<in> set (take n es)" "n \<le> length es" "0 < n"
  shows "re_sequence x \<le> re_sequence (es ! (n - 1))"
proof -
  obtain i where i: "i < n" "x = es ! i" using assms(2,3) by (auto simp: in_set_conv_nth)
  show ?thesis
  proof (cases "i = n - 1")
    case False
    then have "i < n - 1" "n - 1 < length es" using i assms(3,4) by simp_all
    with assms(1) show ?thesis by (auto simp: increasing_def i(2) sorted_wrt_iff_nth_less intro!: less_imp_le)
  qed (simp add: i)
qed

lemma compacted_window:
  assumes inc: "increasing (fs_log st)" and st': "st' = compact_replication_log limit st"
  shows "increasing (fs_log st')" "set (fs_log st') \<subseteq> set (fs_log st)"
    "x \<in> set (fs_log st) \<Longrightarrow> re_sequence x \<le> fs_compacted st' \<or> x \<in> set (fs_log st')"
    "fs_compacted st \<le> fs_compacted st'"
proof -
  let ?d = "length (fs_log st) - limit"
  have before: "re_sequence x \<le> re_sequence (fs_log st ! (?d - 1))"
    if "x \<in> set (take ?d (fs_log st))" "limit < length (fs_log st)" for x
    using increasing_before [OF inc that(1)] that(2) by simp
  show "increasing (fs_log st')" "set (fs_log st') \<subseteq> set (fs_log st)"
    using inc by (auto simp: st' compact_replication_log_def Let_def increasing_def sorted_wrt_drop dest: in_set_dropD)
  show "fs_compacted st \<le> fs_compacted st'" by (simp add: st' compact_replication_log_def Let_def)
  assume "x \<in> set (fs_log st)"
  then have "x \<in> set (take ?d (fs_log st)) \<or> x \<in> set (drop ?d (fs_log st))"
    by (metis Un_iff append_take_drop_id set_append)
  moreover have "re_sequence x \<le> fs_compacted st'" if "x \<in> set (take ?d (fs_log st))"
  proof -
    have "limit < length (fs_log st)" using that by (cases "limit < length (fs_log st)") simp_all
    moreover from this have "fs_log st \<noteq> []" by auto
    ultimately show ?thesis
      using before [OF that] by (cases "limit = 0") (simp_all add: st' compact_replication_log_def Let_def last_conv_nth le_max_iff_disj)
  qed
  moreover have "x \<in> set (fs_log st') \<or> limit = 0" if "x \<in> set (drop ?d (fs_log st))"
    using that by (auto simp: st' compact_replication_log_def Let_def)
  moreover have "drop ?d (fs_log st) = []" if "limit = 0" using that by simp
  ultimately show "re_sequence x \<le> fs_compacted st' \<or> x \<in> set (fs_log st')" by auto
qed

text \<open>Every entry a run has published is in its log or below the compaction mark.\<close>

definition window_ok :: "fake_backend \<Rightarrow> bool" where
  "window_ok be \<longleftrightarrow>
     increasing (fs_log (fb_state be)) \<and>
     (\<forall>e \<in> set (fs_log (fb_state be)). re_sequence e \<le> fs_last_sequence (fb_state be)) \<and>
     (\<forall>e \<in> set (fb_notified be).
        entry_validate e = Ok () \<and> \<not> contains_protected_roster_established_create (re_op e) \<and>
        re_sequence e \<le> fs_last_sequence (fb_state be) \<and>
        (re_sequence e \<le> fs_compacted (fb_state be) \<or> e \<in> set (fs_log (fb_state be))))"

lemma logged_window:
  assumes win: "window_ok be" and "logged cfg be be'"
  shows "window_ok be'"
proof -
  obtain e where e: "fb_notified be' = fb_notified be @ [e]" "entry_validate e = Ok ()"
    "require_follows (fs_last_sequence (fb_state be)) e = Ok ()"
    "fs_last_sequence (fb_state be') = re_sequence e"
    "fs_log (fb_state be') = fs_log (append_entry cfg e (fb_state be))"
    "fs_compacted (fb_state be') = fs_compacted (append_entry cfg e (fb_state be))"
    "\<not> contains_protected_roster_established_create (re_op e)"
    using assms(2) by (auto simp: logged_def)
  let ?st = "fb_state be\<lparr>fs_last_sequence := re_sequence e, fs_log := fs_log (fb_state be) @ [e]\<rparr>"
  have less: "fs_last_sequence (fb_state be) < re_sequence e" using require_follows_Ok [OF e(3)] by simp
  have inc: "increasing (fs_log ?st)"
    using win less by (auto simp: window_ok_def increasing_def sorted_wrt_append intro: le_less_trans)
  note w = compacted_window [OF inc refl, where limit = "max_replication_entries (fc_limits cfg)"]
  have max: "re_sequence x \<le> re_sequence e" if "x \<in> set (fs_log ?st) \<or> x \<in> set (fb_notified be)" for x
  proof -
    have "x = e \<or> re_sequence x \<le> fs_last_sequence (fb_state be)" using that win by (auto simp: window_ok_def)
    with less show ?thesis by auto
  qed
  show ?thesis
    unfolding window_ok_def e(1,4-6) append_entry_def
  proof (intro conjI ballI)
    fix x assume "x \<in> set (fb_notified be @ [e])"
    then show "re_sequence x \<le> fs_compacted (compact_replication_log (max_replication_entries (fc_limits cfg)) ?st) \<or>
        x \<in> set (fs_log (compact_replication_log (max_replication_entries (fc_limits cfg)) ?st))"
      using win w(3) [of x] w(4) by (auto simp: window_ok_def)
    show "entry_validate x = Ok ()" "\<not> contains_protected_roster_established_create (re_op x)"
      using \<open>x \<in> _\<close> win e(2,7) by (auto simp: window_ok_def)
    show "re_sequence x \<le> re_sequence e" using \<open>x \<in> _\<close> max [of x] by auto
  qed (use w(1,2) max in auto)
qed

lemma backend_run_window:
  assumes "log_config cfg" "below_top (fb_state (backend_run cfg reqs backend_new))"
  shows "window_ok (backend_run cfg reqs backend_new)"
  using assms(2)
proof (induction reqs rule: rev_induct)
  case Nil
  show ?case by (simp add: backend_run_def window_ok_def backend_new_def state_empty_def increasing_def)
next
  case (snoc tr reqs)
  have "mirrored cfg (backend_run cfg reqs backend_new) (backend_run cfg (reqs @ [tr]) backend_new)"
    using backend_step_mirrored [OF run_published assms(1)] snoc.prems by (simp add: backend_run_snoc)
  then have IH: "window_ok (backend_run cfg reqs backend_new)"
    and "fb_state (backend_run cfg (reqs @ [tr]) backend_new) = fb_state (backend_run cfg reqs backend_new) \<and>
      fb_notified (backend_run cfg (reqs @ [tr]) backend_new) = fb_notified (backend_run cfg reqs backend_new) \<or>
      logged cfg (backend_run cfg reqs backend_new) (backend_run cfg (reqs @ [tr]) backend_new)"
    using snoc.IH unfolding mirrored_def by blast+
  then show ?case using logged_window [OF IH] IH unfolding window_ok_def by metis
qed

lemma find_increasing:
  assumes "increasing es" "e \<in> set es"
  shows "find (\<lambda>x. re_sequence x = re_sequence e) es = Some e"
  using assms
proof (induction es)
  case (Cons x es)
  then show ?case by (cases "re_sequence x = re_sequence e") (auto simp: increasing_def)
qed simp

lemma redelivered:
  assumes "window_ok be" "e \<in> set (fb_notified be)"
  shows "replicate_entry cfg e be = (be, Ok ())"
  using assms find_increasing [of "fs_log (fb_state be)" e]
  by (auto simp: window_ok_def replicate_entry_def into_validated_def finish_def Let_def)

section \<open>Properties\<close>

text \<open>
  C1. Replicas converge.  A backend that keeps an ordered log and notifies its watchers has served
  any sequence of requests at any clock readings, and its fence and credential counters are below
  the top of 64 bits.  Then a rebuild of any backend from the published entries succeeds and ends
  in exactly the state of the serving backend, and so does delivery of the entries one by one to a
  new backend, which publishes the same entries in its turn.
\<close>

theorem replica_converges:
  assumes "cap_ordered_replication_log (fc_caps cfg)" "cap_watch (fc_caps cfg)"
    and be: "be = backend_run cfg reqs backend_new"
    and "fs_next_fence (fb_state be) < max_u64" "fs_next_credential (fb_state be) < max_u64"
  shows "(\<exists>b. rebuild_replication_state cfg (fb_notified be) other = (b, Ok ()) \<and> fb_state b = fb_state be) \<and>
    (\<exists>b. deliver_all cfg (fb_notified be) backend_new = (b, Ok ()) \<and>
       fb_state b = fb_state be \<and> fb_notified b = fb_notified be)"
proof (rule conjI)
  have log: "log_ok cfg be"
    using backend_run_log_ok [of cfg reqs] assms by (simp add: log_config_def below_top_def)
  then show "\<exists>b. rebuild_replication_state cfg (fb_notified be) other = (b, Ok ()) \<and> fb_state b = fb_state be"
    by (simp add: rebuild_replication_state_def log_ok_def validate_replication_prefix_def
        stage_rebuilt_replication_state_def finish_def publish_staged_data_def)
  have new: "fb_state backend_new = state_empty" "fs_last_sequence state_empty = 0" "fb_notified backend_new = []"
    by (simp_all add: backend_new_def state_empty_def)
  from deliver_all_rebuilds [of cfg "fb_notified be" backend_new] log
  show "\<exists>b. deliver_all cfg (fb_notified be) backend_new = (b, Ok ()) \<and>
      fb_state b = fb_state be \<and> fb_notified b = fb_notified be"
    by (auto simp: new log_ok_def)
qed

definition sample_run :: fake_backend where
  "sample_run = backend_run sample_config
     [(0, ReqAcquire sample_key ''a'' 1000), (5000, ReqAcquire sample_key ''b'' 1000)] backend_new"

lemma sample_run_top:
  "case sample_run of be \<Rightarrow> fs_next_fence (fb_state be) < max_u64 \<and> fs_next_credential (fb_state be) < max_u64 \<and>
     length (fb_notified be) = 2"
  by code_simp

lemma sample_caps:
  "cap_ordered_replication_log (fc_caps sample_config)" "cap_watch (fc_caps sample_config)"
  by code_simp+

theorem replica_converges_witness:
  "length (fb_notified sample_run) = 2 \<and>
   (\<exists>b. rebuild_replication_state sample_config (fb_notified sample_run) sample_run = (b, Ok ()) \<and>
      fb_state b = fb_state sample_run) \<and>
   (\<exists>b. deliver_all sample_config (fb_notified sample_run) backend_new = (b, Ok ()) \<and>
      fb_state b = fb_state sample_run \<and> fb_notified b = fb_notified sample_run)"
  using replica_converges [OF sample_caps sample_run_def] sample_run_top by simp

text \<open>
  C11. Delivery is idempotent.  On a backend that has served any sequence of requests under the
  same conditions, an entry it has already published, whether still in its log or compacted away,
  is accepted again without any effect.
\<close>

theorem redelivery_idempotent:
  assumes "cap_ordered_replication_log (fc_caps cfg)" "cap_watch (fc_caps cfg)"
    and be: "be = backend_run cfg reqs backend_new"
    and "fs_next_fence (fb_state be) < max_u64" "fs_next_credential (fb_state be) < max_u64"
    and "e \<in> set (fb_notified be)"
  shows "replicate_entry cfg e be = (be, Ok ())"
  using redelivered backend_run_window [of cfg reqs] assms by (simp add: log_config_def below_top_def)

theorem redelivery_idempotent_witness:
  "fb_notified sample_run \<noteq> [] \<and>
   replicate_entry sample_config (hd (fb_notified sample_run)) sample_run = (sample_run, Ok ())"
proof -
  have ne: "fb_notified sample_run \<noteq> []" using sample_run_top by auto
  then show ?thesis
    using redelivery_idempotent [OF sample_caps sample_run_def, of "hd (fb_notified sample_run)"] sample_run_top
    by simp
qed

section \<open>The top of the fence range\<close>

lemma replay_acquire_top:
  assumes pending: "fs_pending st0 = None" "retention_ok st0" and st: "st = apply_async_floor_to_key (map_key key) st0"
    and g: "\<not> lease_held_by_other st (map_key key) owner now" "current_fence st (map_key key) < fence"
      "ensure_key_capacity st (map_key key) limit = Ok ()"
    and top: "max_u64 \<le> fence \<or> max_u64 \<le> credential_id"
  shows "apply_replicated_op_with_state now limit (OpAcquireLease key owner fence credential_id ttl expires_at) st0 = Panic"
proof -
  have "replay_previous_fence st (map_key key) \<le> current_fence st (map_key key)"
    by (rule replay_previous_le) (use pending in \<open>simp_all add: st retention_ok_def\<close>)
  then have "\<not> fence \<le> replay_previous_fence st (map_key key)" using g(2) by simp
  then show ?thesis
    using g top
    by (auto simp: apply_replicated_op_with_state.simps contains_protected_roster_established_create_def
        replay_acquire_def Let_def st [symmetric] raise_counters_def add_or_panic_def outcome_simps)
qed

lemma committed_entry_panics:
  assumes commit: "commit_direct_data cfg be0 staged (Some n) op t = Ok be'"
    and rep: "apply_replicated_op_with_state t (max_tracked_keys (fc_limits cfg)) op (prune_state t st) = Panic"
      "ttls_loop t [op] = Ok ()" "\<not> contains_protected_roster_established_create op"
      "fs_async_floor staged = fs_async_floor st" "fs_internal_keys staged = fs_internal_keys st"
    and pending: "fs_pending st = None"
    and n: "next_replication_sequence (fs_last_sequence st) = Ok n" and watch: "cap_watch (fc_caps cfg)"
  shows "\<exists>e. fb_notified be' = fb_notified be0 @ [e] \<and> entry_validate e = Ok () \<and>
    (\<forall>rb. fb_state rb = st \<longrightarrow> replicate_entry cfg e rb = (rb, Panic))"
proof -
  obtain st1 rotations st2 where st: "retire_dead_keys staged = Ok st1"
    "finalize_loop (max_tracked_keys (fc_limits cfg)) 0 st1 = Ok (rotations, st2)"
    and v: "validate_structure op = Ok ()" "policy_validate (direct_policy st2 rotations) = Ok ()"
    using commit_direct_data_Ok [OF commit] by (auto simp: finalize_key_capacity_def)
  let ?e = "direct_entry n op t (direct_policy st2 rotations)"
  have notified: "fb_notified be' = fb_notified be0 @ [?e]"
    using commit st v watch
    by (auto simp: commit_direct_data_def finalize_key_capacity_def Let_def append_direct_replication_entry_def
        notify_watchers_def publish_staged_data_def)
  have floor: "fs_async_floor st2 = fs_async_floor st" "st\<lparr>fs_internal_keys := fs_internal_keys st2\<rparr> = st"
    using retire_dead_keys_frame [OF st(1)] finalize_loop_frame [OF st(2)] rep(4,5) by (simp_all add: frame_def)
  have "stage_entry cfg ?e st = Panic"
    using rep(1) pending floor
    by (simp add: stage_entry_def apply_committed_replication_entry_def Let_def cursor_advance_def cursor_after_def
        direct_entry_def recovery_step_def outcome_simps cong: option.case_cong)
  moreover have "0 < n" "n = fs_last_sequence st + 1"
    using n by (auto simp: next_replication_sequence_def outcome_simps checked_add_def split: if_splits)
  moreover from this have "entry_validate ?e = Ok ()"
    using v rep(2) by (simp add: entry_validate_def validate_sequence_def direct_entry_def validate_ttls_at_def)
  moreover have "replication_entry_follows (fs_last_sequence st) ?e = Ok True"
    using n by (simp add: replication_entry_follows_def direct_entry_def)
  ultimately have "replicate_entry cfg ?e rb = (rb, Panic)" if "fb_state rb = st" for rb
    using that rep(3) by (simp add: replicate_entry_def into_validated_def finish_def Let_def direct_entry_def)
  with notified \<open>entry_validate ?e = Ok ()\<close> show ?thesis by blast
qed

text \<open>A peer's grant one below the top, delivered to a fresh backend, brings the next grant there.\<close>

definition sample_peer_entry :: replication_entry where
  "sample_peer_entry = direct_entry 1
     (OpAcquireLease (sample_key\<lparr>sk_stable_id := [2]\<rparr>) ''p'' (max_u64 - 1) 1 1000 1000) 0 (direct_policy state_empty 0)"

definition sample_top :: fake_backend where
  "sample_top = fst (replicate_entry sample_config sample_peer_entry backend_new)"

lemma sample_top_grant:
  "case backend_acquire sample_config 0 sample_key ''a'' 1000 sample_top of (be, r) \<Rightarrow>
     (case r of Ok g \<Rightarrow> lg_fence g = max_u64 | _ \<Rightarrow> False) \<and> retention_ok (fb_state sample_top)"
  by code_simp

text \<open>
  C33. The bound on the counters is needed.  A direct grant at the last fence or the last credential
  succeeds, since its counters saturate, and publishes an entry that passes validation; but replay
  adds one to the fence and to the credential without saturation, so every replica that holds the state
  the grant started from fails on that entry with an arithmetic overflow.
\<close>

theorem top_grant_replay_panics:
  assumes "cap_ordered_replication_log (fc_caps cfg)" "cap_watch (fc_caps cfg)"
    and "retention_ok (fb_state be)"
    and eq: "backend_acquire cfg clock key owner ttl be = (be', Ok g)"
    and top: "lg_fence g = max_u64 \<or> lg_credential_id g = max_u64"
  shows "\<exists>e. fb_notified be' = fb_notified be @ [e] \<and> entry_validate e = Ok () \<and>
    (\<forall>rb. fb_state rb = fb_state be \<longrightarrow> replicate_entry cfg e rb = (rb, Panic))"
  using acquire_cases [OF eq]
proof (elim disjE exE conjE)
  let ?now = "fst (command_time clock be)" and ?k = "map_key key"
  let ?pre = "prune_state ?now (fb_state be)"
  let ?st = "apply_async_floor_to_key ?k ?pre"
  fix g' :: lease_guard
  assume free: "\<not> lease_held_by_other ?st ?k owner ?now" and g': "Ok g = Ok g'"
    and g: "lg_fence g' = max (fs_next_fence ?st) (current_fence ?st ?k + 1)"
    and cred: "lg_credential_id g' = fs_next_credential ?st"
    and x: "checked_session_deadline ?now ttl = Ok (lg_expires_at g')"
    and cap: "ensure_key_capacity ?st ?k (max_tracked_keys (fc_limits cfg)) = Ok ()"
    and c: "commits cfg be
      (OpAcquireLease key owner (lg_fence g') (fs_next_credential ?st) ttl (lg_expires_at g'))
      (install_lease ?k \<lparr>le_active = True, le_credential_id = fs_next_credential ?st, le_owner = owner,
         le_fence = lg_fence g', le_acquired_at = ?now, le_expires_at = lg_expires_at g',
         le_guard_expires_at = lg_expires_at g'\<rparr>
        (?st\<lparr>fs_next_fence := saturating_add (lg_fence g') 1,
      fs_next_credential := saturating_add (fs_next_credential ?st) 1\<rparr>)) ?now be'"
  obtain be0 n where be0: "fb_notified be0 = fb_notified be" "fs_pending (fb_state be) = None"
    "next_replication_sequence (fs_last_sequence (fb_state be)) = Ok n"
    and commit: "commit_direct_data cfg be0 (install_lease ?k \<lparr>le_active = True, le_credential_id = fs_next_credential ?st,
         le_owner = owner, le_fence = lg_fence g', le_acquired_at = ?now, le_expires_at = lg_expires_at g',
         le_guard_expires_at = lg_expires_at g'\<rparr>
        (?st\<lparr>fs_next_fence := saturating_add (lg_fence g') 1,
      fs_next_credential := saturating_add (fs_next_credential ?st) 1\<rparr>)) (Some n)
      (OpAcquireLease key owner (lg_fence g') (fs_next_credential ?st) ttl (lg_expires_at g')) ?now = Ok be'"
    using c assms(1) by (auto simp: commits_def next_direct_replication_sequence_def
        require_complete_replay_command_def outcome_simps split: if_splits)
  have "apply_replicated_op_with_state ?now (max_tracked_keys (fc_limits cfg))
      (OpAcquireLease key owner (lg_fence g') (fs_next_credential ?st) ttl (lg_expires_at g')) ?pre = Panic"
    by (rule replay_acquire_top [OF _ _ refl free _ cap]) (use be0(2) assms(3) g g' cred top in \<open>auto simp: retention_ok_def\<close>)
  from committed_entry_panics [OF commit this _ _ _ _ be0(2,3) assms(2)] deadline_valid [OF x] be0(1)
  show ?thesis
    by (simp add: contains_protected_roster_established_create_def install_lease_def set_fence_def Let_def)
qed simp

theorem top_grant_replay_panics_witness:
  "\<exists>be' g e. snd (replicate_entry sample_config sample_peer_entry backend_new) = Ok () \<and>
     backend_acquire sample_config 0 sample_key ''a'' 1000 sample_top = (be', Ok g) \<and> lg_fence g = max_u64 \<and>
     fb_notified be' = fb_notified sample_top @ [e] \<and>
     replicate_entry sample_config e sample_top = (sample_top, Panic)"
proof -
  have delivered: "snd (replicate_entry sample_config sample_peer_entry backend_new) = Ok ()" by code_simp
  obtain be' g where g: "backend_acquire sample_config 0 sample_key ''a'' 1000 sample_top = (be', Ok g)"
    "lg_fence g = max_u64" "retention_ok (fb_state sample_top)"
    using sample_top_grant by (auto split: prod.splits result.splits)
  from top_grant_replay_panics [OF sample_caps g(3,1)] g delivered show ?thesis by auto
qed

end
