(* ===== verification/Tft_Codec.thy ===== *)
theory Tft_Codec
  imports Tft_Model
begin

text \<open>
  The traffic flow template codec of \<^verbatim>\<open>crates/opc-proto-tft/src/codec.rs\<close>: the cursor and the
  element budget, the strict decoder of the value part, the encoder, and the codec-trait entry
  points.  A reader takes and returns the cursor and the budget it advances.
\<close>

section \<open>Cursor and budget\<close>

definition AUTHORIZATION_TOKEN_PARAMETER :: u8 where
  "AUTHORIZATION_TOKEN_PARAMETER = 0x01"

definition FLOW_IDENTIFIER_PARAMETER :: u8 where
  "FLOW_IDENTIFIER_PARAMETER = 0x02"

definition PACKET_FILTER_IDENTIFIER_PARAMETER :: u8 where
  "PACKET_FILTER_IDENTIFIER_PARAMETER = 0x03"

definition tft_spec_ref :: spec_ref where
  "tft_spec_ref = (spec_ref_new ''3gpp'' ''TS24008'' ''10.5.6.12'')\<lparr>sr_table := Some ''10.5.162''\<rparr>"

record cursor =
  cur_input :: bytes
  cur_offset :: usize

definition cursor_new :: "bytes \<Rightarrow> cursor" where
  "cursor_new input = \<lparr>cur_input = input, cur_offset = 0\<rparr>"

definition read_u8 :: "string \<Rightarrow> cursor \<Rightarrow> (u8 \<times> cursor, tft_error) result" where
  "read_u8 field cur =
     (case cur_input cur of
        [] \<Rightarrow> tft_fail_at (TftTruncated field) (cur_offset cur)
      | v # rest \<Rightarrow>
          and_then (ok_or (error_at (cur_offset cur) (tft_error_new TftLengthOverflow))
            (checked_add (cur_offset cur) 1)) (\<lambda>offset.
          Ok (v, \<lparr>cur_input = rest, cur_offset = offset\<rparr>)))"

definition cursor_take :: "usize \<Rightarrow> string \<Rightarrow> cursor \<Rightarrow> (bytes \<times> cursor, tft_error) result" where
  "cursor_take n field cur =
     (if length (cur_input cur) < n then tft_fail_at (TftTruncated field) (cur_offset cur)
      else
      and_then (ok_or (error_at (cur_offset cur) (tft_error_new TftLengthOverflow))
        (checked_add (cur_offset cur) n)) (\<lambda>offset.
      Ok (take n (cur_input cur), \<lparr>cur_input = drop n (cur_input cur), cur_offset = offset\<rparr>)))"

definition take_component :: "u8 \<Rightarrow> usize \<Rightarrow> cursor \<Rightarrow> (bytes \<times> cursor, tft_error) result" where
  "take_component code expected cur =
     (if length (cur_input cur) < expected
      then tft_fail_at (InvalidComponentLength code expected (length (cur_input cur))) (cur_offset cur)
      else cursor_take expected ''packet filter component value'' cur)"

record element_budget =
  eb_used :: usize
  eb_limit :: usize

definition element_budget_new :: "usize \<Rightarrow> element_budget" where
  "element_budget_new limit = \<lparr>eb_used = 0, eb_limit = limit\<rparr>"

definition consume :: "usize \<Rightarrow> element_budget \<Rightarrow> (element_budget, tft_error) result" where
  "consume offset bud =
     and_then (ok_or (error_at offset (tft_error_new TftLengthOverflow)) (checked_add (eb_used bud) 1)) (\<lambda>used.
     if used > eb_limit bud then tft_fail_at (ElementLimitExceeded (eb_limit bud)) offset
     else Ok (bud\<lparr>eb_used := used\<rparr>))"

definition copy_array :: "usize \<Rightarrow> bytes \<Rightarrow> string \<Rightarrow> usize \<Rightarrow> (bytes, tft_error) result" where
  "copy_array n input field offset =
     (if length input = n then Ok input else tft_fail_at (TftTruncated field) offset)"

section \<open>Components\<close>

definition read_component_u8 :: "u8 \<Rightarrow> cursor \<Rightarrow> (u8 \<times> cursor, tft_error) result" where
  "read_component_u8 code cur =
     and_then (take_component code 1 cur) (\<lambda>(raw, cur1).
     case raw of
       [] \<Rightarrow> tft_fail_at (InvalidComponentLength code 1 (length raw)) (cur_offset cur1)
     | v # _ \<Rightarrow> Ok (v, cur1))"

text \<open>A component of \<open>n\<close> value octets whose value \<open>f\<close> makes of them.\<close>

definition fixed_component ::
  "u8 \<Rightarrow> usize \<Rightarrow> string \<Rightarrow> usize \<Rightarrow> cursor \<Rightarrow> (bytes \<Rightarrow> (component, tft_error) result)
     \<Rightarrow> (component \<times> cursor, tft_error) result" where
  "fixed_component code n field offset cur f =
     and_then (take_component code n cur) (\<lambda>(raw, cur1).
     and_then (copy_array n raw field offset) (\<lambda>b.
     and_then (f b) (\<lambda>c. Ok (c, cur1))))"

definition decode_ipv6_mask :: "u8 \<Rightarrow> usize \<Rightarrow> cursor \<Rightarrow> (component \<times> cursor, tft_error) result" where
  "decode_ipv6_mask code offset cur =
     and_then (take_component code 32 cur) (\<lambda>(raw, cur1).
     if length raw < 16 then tft_fail_at (InvalidComponentLength code 32 (length raw)) offset
     else
     and_then (copy_array 16 (take 16 raw) ''IPv6 remote address'' offset) (\<lambda>address.
     and_then (copy_array 16 (drop 16 raw) ''IPv6 remote mask'' offset) (\<lambda>msk.
     Ok (Ipv6RemoteAddress (Ipv6Addr address) (Ipv6Addr msk), cur1))))"

definition decode_ipv6_prefix ::
  "component_kind \<Rightarrow> u8 \<Rightarrow> usize \<Rightarrow> cursor \<Rightarrow> (component \<times> cursor, tft_error) result" where
  "decode_ipv6_prefix k code offset cur =
     and_then (take_component code 17 cur) (\<lambda>(raw, cur1).
     if length raw < 17 then tft_fail_at (InvalidComponentLength code 17 (length raw)) offset
     else
     and_then (copy_array 16 (take 16 raw) ''IPv6 address'' offset) (\<lambda>address.
     and_then (map_err (error_at offset) (ipv6_address_prefix_new (Ipv6Addr address) (raw ! 16))) (\<lambda>v.
     Ok (if k = KIpv6RemoteAddressPrefix then Ipv6RemoteAddressPrefix v else Ipv6LocalAddressPrefix v, cur1))))"

definition decode_vlan_priority ::
  "component_kind \<Rightarrow> u8 \<Rightarrow> usize \<Rightarrow> cursor \<Rightarrow> (component \<times> cursor, tft_error) result" where
  "decode_vlan_priority k code offset cur =
     and_then (read_component_u8 code cur) (\<lambda>(v, cur1).
     if v AND 0xf0 \<noteq> 0 then tft_fail_at (NonZeroSpareBits ''VLAN PCP/DEI'') offset
     else
     and_then (map_err (error_at offset)
       (vlan_priority_new (drop_bit 1 v AND 0x07) (v AND 0x01 \<noteq> 0))) (\<lambda>p.
     Ok (if k = KCustomerVlanPriority then CustomerVlanPriority p else ServiceVlanPriority p, cur1)))"

definition decode_component_value ::
  "component_kind \<Rightarrow> u8 \<Rightarrow> usize \<Rightarrow> cursor \<Rightarrow> (component \<times> cursor, tft_error) result" where
  "decode_component_value k code offset cur =
     (if k \<in> {KIpv4RemoteAddress, KIpv4LocalAddress}
      then fixed_component code 8 ''IPv4 address and mask'' offset cur (\<lambda>b.
        let address = Ipv4Addr (b ! 0) (b ! 1) (b ! 2) (b ! 3);
            msk = Ipv4Addr (b ! 4) (b ! 5) (b ! 6) (b ! 7)
        in Ok (if k = KIpv4RemoteAddress then Ipv4RemoteAddress address msk else Ipv4LocalAddress address msk))
      else if k = KIpv6RemoteAddress then decode_ipv6_mask code offset cur
      else if k \<in> {KIpv6RemoteAddressPrefix, KIpv6LocalAddressPrefix}
      then decode_ipv6_prefix k code offset cur
      else if k = KProtocolIdentifierNextHeader
      then and_then (read_component_u8 code cur) (\<lambda>(v, cur1). Ok (ProtocolIdentifierNextHeader v, cur1))
      else if k \<in> {KSingleLocalPort, KSingleRemotePort}
      then fixed_component code 2 ''single port'' offset cur (\<lambda>b.
        let v = be16 (b ! 0) (b ! 1)
        in Ok (if k = KSingleLocalPort then SingleLocalPort v else SingleRemotePort v))
      else if k \<in> {KLocalPortRange, KRemotePortRange}
      then fixed_component code 4 ''port range'' offset cur (\<lambda>b.
        and_then (map_err (error_at offset) (port_range_new (be16 (b ! 0) (b ! 1)) (be16 (b ! 2) (b ! 3)))) (\<lambda>r.
        Ok (if k = KLocalPortRange then LocalPortRange r else RemotePortRange r)))
      else if k = KSecurityParameterIndex
      then fixed_component code 4 ''security parameter index'' offset cur (\<lambda>b.
        Ok (SecurityParameterIndex (be32 (b ! 0) (b ! 1) (b ! 2) (b ! 3))))
      else if k = KTypeOfServiceTrafficClass
      then fixed_component code 2 ''type of service or traffic class'' offset cur (\<lambda>b.
        Ok (TypeOfServiceTrafficClass (b ! 0) (b ! 1)))
      else if k = KFlowLabel
      then fixed_component code 3 ''IPv6 flow label'' offset cur (\<lambda>b.
        if (b ! 0) AND 0xf0 \<noteq> 0 then tft_fail_at (NonZeroSpareBits ''IPv6 flow label'') offset
        else
        and_then (map_err (error_at offset) (ipv6_flow_label_new (be32 0 (b ! 0) (b ! 1) (b ! 2)))) (\<lambda>v.
        Ok (FlowLabel v)))
      else if k \<in> {KDestinationMacAddress, KSourceMacAddress}
      then fixed_component code 6 ''MAC address'' offset cur (\<lambda>b.
        Ok (if k = KDestinationMacAddress then DestinationMacAddress b else SourceMacAddress b))
      else if k \<in> {KCustomerVlanId, KServiceVlanId}
      then fixed_component code 2 ''VLAN identifier'' offset cur (\<lambda>b.
        if (b ! 0) AND 0xf0 \<noteq> 0 then tft_fail_at (NonZeroSpareBits ''VLAN identifier'') offset
        else
        and_then (map_err (error_at offset) (vlan_identifier_new (be16 (b ! 0) (b ! 1)))) (\<lambda>v.
        Ok (if k = KCustomerVlanId then CustomerVlanId v else ServiceVlanId v)))
      else if k \<in> {KCustomerVlanPriority, KServiceVlanPriority}
      then decode_vlan_priority k code offset cur
      else fixed_component code 2 ''EtherType'' offset cur (\<lambda>b. Ok (EtherType (be16 (b ! 0) (b ! 1)))))"

definition decode_component ::
  "cursor \<Rightarrow> element_budget \<Rightarrow> (component \<times> cursor \<times> element_budget, tft_error) result" where
  "decode_component cur bud =
     (let offset = cur_offset cur in
      and_then (consume offset bud) (\<lambda>bud1.
      and_then (read_u8 ''packet filter component type'' cur) (\<lambda>(code, cur1).
      and_then (map_err (error_at offset) (kind_from_type_code code)) (\<lambda>k.
      and_then (decode_component_value k code offset cur1) (\<lambda>(c, cur2).
      Ok (c, cur2, bud1))))))"

fun encode_component_value :: "component \<Rightarrow> bytes" where
  "encode_component_value (Ipv4RemoteAddress address msk) = ipv4_octets address @ ipv4_octets msk"
| "encode_component_value (Ipv4LocalAddress address msk) = ipv4_octets address @ ipv4_octets msk"
| "encode_component_value (Ipv6RemoteAddress address msk) = ipv6_octets address @ ipv6_octets msk"
| "encode_component_value (Ipv6RemoteAddressPrefix v) = ipv6_octets (prefix_address v) @ [prefix_length v]"
| "encode_component_value (Ipv6LocalAddressPrefix v) = ipv6_octets (prefix_address v) @ [prefix_length v]"
| "encode_component_value (ProtocolIdentifierNextHeader v) = [v]"
| "encode_component_value (SingleLocalPort v) = u16_bytes v"
| "encode_component_value (SingleRemotePort v) = u16_bytes v"
| "encode_component_value (LocalPortRange r) = u16_bytes (range_low r) @ u16_bytes (range_high r)"
| "encode_component_value (RemotePortRange r) = u16_bytes (range_low r) @ u16_bytes (range_high r)"
| "encode_component_value (SecurityParameterIndex v) = u32_bytes v"
| "encode_component_value (TypeOfServiceTrafficClass v msk) = [v, msk]"
| "encode_component_value (FlowLabel v) = drop 1 (u32_bytes (flow_label_value v))"
| "encode_component_value (DestinationMacAddress b) = b"
| "encode_component_value (SourceMacAddress b) = b"
| "encode_component_value (CustomerVlanId v) = u16_bytes (vlan_value v)"
| "encode_component_value (ServiceVlanId v) = u16_bytes (vlan_value v)"
| "encode_component_value (CustomerVlanPriority v) =
     [push_bit 1 (vlan_pcp v) OR (if drop_eligible v then 1 else 0)]"
| "encode_component_value (ServiceVlanPriority v) =
     [push_bit 1 (vlan_pcp v) OR (if drop_eligible v then 1 else 0)]"
| "encode_component_value (EtherType v) = u16_bytes v"

definition encode_component :: "component \<Rightarrow> bytes" where
  "encode_component c = type_code (kind_of c) # encode_component_value c"

section \<open>The length of a decoded component\<close>

lemma consume_Ok_iff:
  "consume offset bud = Ok bud' \<longleftrightarrow>
     eb_used bud + 1 \<le> max_u64 \<and> eb_used bud + 1 \<le> eb_limit bud \<and> bud' = bud\<lparr>eb_used := eb_used bud + 1\<rparr>"
  by (auto simp: consume_def outcome_simps)

lemma read_u8_Ok_iff:
  "read_u8 field cur = Ok (v, cur') \<longleftrightarrow>
     cur_offset cur + 1 \<le> max_u64 \<and> cur_input cur = v # cur_input cur' \<and> cur_offset cur' = cur_offset cur + 1"
  by (cases cur') (auto simp: read_u8_def outcome_simps split: list.splits)

lemma split_at_iff: "n \<le> length xs \<and> ys = take n xs \<and> zs = drop n xs \<longleftrightarrow> xs = ys @ zs \<and> length ys = n"
  by auto

lemma cursor_take_Ok_iff:
  "cursor_take n field cur = Ok (raw, cur') \<longleftrightarrow>
     cur_offset cur + n \<le> max_u64 \<and> cur_input cur = raw @ cur_input cur' \<and> length raw = n \<and>
     cur_offset cur' = cur_offset cur + n"
  using split_at_iff [of n "cur_input cur" raw "cur_input cur'"]
  by (cases cur') (auto simp: cursor_take_def outcome_simps)

lemma take_component_Ok_iff:
  "take_component code n cur = Ok (raw, cur') \<longleftrightarrow>
     cur_offset cur + n \<le> max_u64 \<and> cur_input cur = raw @ cur_input cur' \<and> length raw = n \<and>
     cur_offset cur' = cur_offset cur + n"
  by (auto simp: take_component_def cursor_take_Ok_iff)

lemma copy_array_Ok_iff: "copy_array n input field offset = Ok b \<longleftrightarrow> length input = n \<and> b = input"
  by (auto simp: copy_array_def)

lemma read_component_u8_Ok_iff:
  "read_component_u8 code cur = Ok (v, cur') \<longleftrightarrow>
     cur_offset cur + 1 \<le> max_u64 \<and> cur_input cur = v # cur_input cur' \<and> cur_offset cur' = cur_offset cur + 1"
proof -
  have "read_component_u8 code cur = Ok (v, cur') \<longleftrightarrow> take_component code 1 cur = Ok ([v], cur')"
  proof (cases "take_component code 1 cur")
    case (Ok x)
    then obtain raw cur1 where x: "x = (raw, cur1)" "length raw = 1"
      by (cases x) (auto simp: take_component_Ok_iff)
    then obtain w where "raw = [w]" by (cases raw) auto
    with x(1) Ok show ?thesis by (auto simp: read_component_u8_def simp del: One_nat_def)
  qed (simp_all add: read_component_u8_def)
  then show ?thesis by (simp add: take_component_Ok_iff)
qed

lemmas cursor_simps = read_component_u8_Ok_iff
  consume_Ok_iff read_u8_Ok_iff cursor_take_Ok_iff take_component_Ok_iff copy_array_Ok_iff

lemma decode_component_value_shorter:
  assumes "decode_component_value k code offset cur = Ok (c, cur')"
  shows "length (cur_input cur') \<le> length (cur_input cur)"
proof -
  have fixed: "length (cur_input cur') \<le> length (cur_input cur)"
    if "fixed_component code n field offset cur f = Ok (c, cur')" for n field f
    using that by (auto simp: fixed_component_def outcome_simps cursor_simps)
  show ?thesis
    using assms fixed
    by (auto simp: decode_component_value_def decode_ipv6_mask_def decode_ipv6_prefix_def
        decode_vlan_priority_def outcome_simps cursor_simps split: if_splits)
qed

lemma decode_component_shorter:
  "decode_component cur bud = Ok (c, cur', bud') \<Longrightarrow> length (cur_input cur') < length (cur_input cur)"
  by (auto simp: decode_component_def Let_def outcome_simps cursor_simps dest!: decode_component_value_shorter)

section \<open>Filters and parameters\<close>

function decode_components ::
  "cursor \<Rightarrow> element_budget \<Rightarrow> (component list \<times> element_budget, tft_error) result" where
  "decode_components cur bud =
     (if cur_input cur = [] then Ok ([], bud)
      else
      and_then (decode_component cur bud) (\<lambda>(c, cur1, bud1).
      and_then (decode_components cur1 bud1) (\<lambda>(cs, bud2).
      Ok (c # cs, bud2))))"
  by pat_completeness auto
termination
  by (relation "measure (\<lambda>(cur, bud). length (cur_input cur))") (auto dest: decode_component_shorter)

declare decode_components.simps [simp del]

definition decode_full_filter ::
  "cursor \<Rightarrow> element_budget \<Rightarrow> (packet_filter \<times> cursor \<times> element_budget, tft_error) result" where
  "decode_full_filter cur bud =
     (let offset = cur_offset cur in
      and_then (consume offset bud) (\<lambda>bud1.
      and_then (read_u8 ''packet filter identifier and direction'' cur) (\<lambda>(head, cur1).
      if head AND 0xc0 \<noteq> 0
      then tft_fail_at (NonZeroSpareBits ''packet filter identifier and direction'') offset
      else
      and_then (map_err (error_at offset) (packet_filter_identifier_new (head AND 0x0f))) (\<lambda>identifier.
      let direction = direction_from_code (drop_bit 4 head AND 0x03) in
      and_then (read_u8 ''packet filter evaluation precedence'' cur1) (\<lambda>(precedence, cur2).
      and_then (read_u8 ''packet filter contents length'' cur2) (\<lambda>(len, cur3).
      if len = 0 then tft_fail_at EmptyPacketFilterContents (cur_offset cur3)
      else
      and_then (cursor_take (unat len) ''packet filter contents'' cur3) (\<lambda>(contents, cur4).
      and_then (decode_components \<lparr>cur_input = contents, cur_offset = cur_offset cur3\<rparr> bud1) (\<lambda>(cs, bud2).
      and_then (map_err (error_at offset) (packet_filter_new identifier direction precedence cs)) (\<lambda>f.
      Ok (f, cur4, bud2))))))))))"

fun decode_filters ::
  "nat \<Rightarrow> cursor \<Rightarrow> element_budget \<Rightarrow> (packet_filter list \<times> cursor \<times> element_budget, tft_error) result" where
  "decode_filters 0 cur bud = Ok ([], cur, bud)"
| "decode_filters (Suc n) cur bud =
     and_then (decode_full_filter cur bud) (\<lambda>(f, cur1, bud1).
     and_then (decode_filters n cur1 bud1) (\<lambda>(fs, cur2, bud2).
     Ok (f # fs, cur2, bud2)))"

definition decode_identifier :: "string \<Rightarrow> usize \<Rightarrow> u8 \<Rightarrow> (packet_filter_identifier, tft_error) result" where
  "decode_identifier field offset octet =
     (if octet AND 0xf0 \<noteq> 0 then tft_fail_at (NonZeroSpareBits field) offset
      else map_err (error_at offset) (packet_filter_identifier_new (octet AND 0x0f)))"

fun decode_identifiers ::
  "nat \<Rightarrow> cursor \<Rightarrow> element_budget
     \<Rightarrow> (packet_filter_identifier list \<times> cursor \<times> element_budget, tft_error) result" where
  "decode_identifiers 0 cur bud = Ok ([], cur, bud)"
| "decode_identifiers (Suc n) cur bud =
     (let offset = cur_offset cur in
      and_then (consume offset bud) (\<lambda>bud1.
      and_then (read_u8 ''packet filter identifier'' cur) (\<lambda>(octet, cur1).
      and_then (decode_identifier ''packet filter identifier'' offset octet) (\<lambda>i.
      and_then (decode_identifiers n cur1 bud1) (\<lambda>(is, cur2, bud2).
      Ok (i # is, cur2, bud2))))))"

fun parameter_identifiers ::
  "usize \<Rightarrow> usize \<Rightarrow> bytes \<Rightarrow> element_budget
     \<Rightarrow> (packet_filter_identifier list \<times> element_budget, tft_error) result" where
  "parameter_identifiers start index [] bud = Ok ([], bud)"
| "parameter_identifiers start index (octet # octets) bud =
     and_then (ok_or (tft_error_new TftLengthOverflow) (checked_add start index)) (\<lambda>offset.
     and_then (consume offset bud) (\<lambda>bud1.
     and_then (decode_identifier ''packet-filter-identifier parameter'' offset octet) (\<lambda>i.
     and_then (parameter_identifiers start (index + 1) octets bud1) (\<lambda>(is, bud2).
     Ok (i # is, bud2)))))"

definition parameter_value ::
  "u8 \<Rightarrow> bytes \<Rightarrow> usize \<Rightarrow> element_budget \<Rightarrow> (tft_parameter \<times> element_budget, tft_error) result" where
  "parameter_value identifier contents start bud =
     (if identifier = AUTHORIZATION_TOKEN_PARAMETER
      then and_then (map_err (error_at start) (authorization_token_new contents)) (\<lambda>t.
           Ok (AuthorizationToken t, bud))
      else if identifier = FLOW_IDENTIFIER_PARAMETER
      then if length contents \<noteq> 4
           then tft_fail_at (InvalidParameterLength identifier (length contents) 4 4) start
           else
           and_then (copy_array 4 contents ''flow identifier'' start) (\<lambda>b.
           Ok (FlowIdentifier \<lparr>media_component_number = be16 (b ! 0) (b ! 1),
                               ip_flow_number = be16 (b ! 2) (b ! 3)\<rparr>, bud))
      else if identifier = PACKET_FILTER_IDENTIFIER_PARAMETER
      then if contents = [] then tft_fail_at (InvalidParameterLength identifier 0 1 255) start
           else
           and_then (parameter_identifiers start 0 contents bud) (\<lambda>(is, bud1).
           and_then (map_err (error_at start) (identifier_list_new is)) (\<lambda>l.
           Ok (PacketFilterIdentifiers l, bud1)))
      else and_then (map_err (error_at start) (unknown_parameter_new identifier contents)) (\<lambda>u.
           Ok (UnknownParameter u, bud)))"

definition decode_parameter ::
  "cursor \<Rightarrow> element_budget \<Rightarrow> (tft_parameter \<times> cursor \<times> element_budget, tft_error) result" where
  "decode_parameter cur bud =
     and_then (consume (cur_offset cur) bud) (\<lambda>bud1.
     and_then (read_u8 ''TFT parameter identifier'' cur) (\<lambda>(identifier, cur1).
     and_then (read_u8 ''TFT parameter length'' cur1) (\<lambda>(len, cur2).
     and_then (cursor_take (unat len) ''TFT parameter contents'' cur2) (\<lambda>(contents, cur3).
     and_then (parameter_value identifier contents (cur_offset cur2) bud1) (\<lambda>(p, bud2).
     Ok (p, cur3, bud2))))))"

lemma decode_parameter_shorter:
  "decode_parameter cur bud = Ok (p, cur', bud') \<Longrightarrow> length (cur_input cur') < length (cur_input cur)"
  by (auto simp: decode_parameter_def outcome_simps cursor_simps)

function decode_parameters ::
  "cursor \<Rightarrow> element_budget \<Rightarrow> (tft_parameter list \<times> element_budget, tft_error) result" where
  "decode_parameters cur bud =
     (if cur_input cur = [] then Ok ([], bud)
      else
      and_then (decode_parameter cur bud) (\<lambda>(p, cur1, bud1).
      and_then (decode_parameters cur1 bud1) (\<lambda>(ps, bud2).
      Ok (p # ps, bud2))))"
  by pat_completeness auto
termination
  by (relation "measure (\<lambda>(cur, bud). length (cur_input cur))") (auto dest: decode_parameter_shorter)

declare decode_parameters.simps [simp del]

section \<open>Templates\<close>

definition validate_wire_filter_count :: "tft_operation \<Rightarrow> usize \<Rightarrow> (unit, tft_error) result" where
  "validate_wire_filter_count operation count =
     (if \<not> (1 \<le> count \<and> count \<le> 15)
      then tft_fail_at (InvalidPacketFilterCount (operation_code operation) count) 0 else Ok ())"

definition decode_filter_list ::
  "tft_operation \<Rightarrow> usize \<Rightarrow> cursor \<Rightarrow> element_budget
     \<Rightarrow> (packet_filter_list \<times> cursor \<times> element_budget, tft_error) result" where
  "decode_filter_list operation count cur bud =
     (if operation \<in> {CreateNew, AddPacketFilters, ReplacePacketFilters}
      then and_then (validate_wire_filter_count operation count) (\<lambda>_.
           and_then (decode_filters count cur bud) (\<lambda>(fs, cur1, bud1).
           Ok (Filters fs, cur1, bud1)))
      else if operation = DeletePacketFilters
      then and_then (validate_wire_filter_count operation count) (\<lambda>_.
           and_then (decode_identifiers count cur bud) (\<lambda>(is, cur1, bud1).
           Ok (Identifiers is, cur1, bud1)))
      else if operation \<in> {DeleteExisting, NoOperation}
      then if count \<noteq> 0 then tft_fail_at (InvalidOperationHeader (operation_code operation)) 0
           else Ok (NoFilters, cur, bud)
      else Ok (NoFilters, cur, bud))"

definition decode_parameter_list ::
  "bool \<Rightarrow> cursor \<Rightarrow> element_budget \<Rightarrow> (tft_parameter list, tft_error) result" where
  "decode_parameter_list present cur bud =
     (if present
      then if cur_input cur = [] then tft_fail_at EmptyParameterList (cur_offset cur)
           else and_then (decode_parameters cur bud) (\<lambda>(ps, bud1). Ok ps)
      else if cur_input cur \<noteq> [] then tft_fail_at UnexpectedTrailingData (cur_offset cur)
           else Ok [])"

definition decode_value_with_context ::
  "bytes \<Rightarrow> decode_context \<Rightarrow> (traffic_flow_template, tft_error) result" where
  "decode_value_with_context input ctx =
     (if \<not> (TFT_MIN_VALUE_LEN \<le> length input \<and> length input \<le> TFT_MAX_VALUE_LEN)
      then tft_fail_at (InvalidValueLength (length input) TFT_MIN_VALUE_LEN TFT_MAX_VALUE_LEN) 0
      else if length input > dc_max_message_len ctx
      then tft_fail_at (InvalidValueLength (length input) 0 (dc_max_message_len ctx)) 0
      else
      and_then (read_u8 ''TFT operation header'' (cursor_new input)) (\<lambda>(octet, cur).
      and_then (map_err (error_at 0) (operation_from_code (drop_bit 5 octet))) (\<lambda>operation.
      let parameters_present = octet AND 0x10 \<noteq> 0;
          count = unat (octet AND 0x0f)
      in
      if operation = IgnoreIe
      then if parameters_present \<or> count \<noteq> 0
           then tft_fail_at (InvalidOperationHeader (operation_code operation)) 0
           else
           and_then (cursor_take (length (cur_input cur)) ''ignored TFT contents'' cur) (\<lambda>(ignored, _).
           map_err (error_at 0) (ignore_with_contents ignored))
      else
      and_then (decode_filter_list operation count cur (element_budget_new (dc_max_ies ctx))) (\<lambda>(filters, cur1, bud1).
      and_then (decode_parameter_list parameters_present cur1 bud1) (\<lambda>parameters.
      map_err (error_at 0) (tft_new operation filters parameters))))))"

definition decode_value :: "bytes \<Rightarrow> (traffic_flow_template, tft_error) result" where
  "decode_value input =
     decode_value_with_context input
       (decode_context_conservative\<lparr>dc_max_message_len := TFT_MAX_VALUE_LEN, dc_max_ies := TFT_MAX_VALUE_LEN\<rparr>)"

definition tft_encoded_value_len :: "traffic_flow_template \<Rightarrow> (usize, tft_error) result" where
  "tft_encoded_value_len t = and_then (tft_validate t) (\<lambda>_. encoded_value_len_internal t)"

text \<open>The conversion \<^verbatim>\<open>u8::try_from\<close> of a length.\<close>

definition u8_try_from :: "usize \<Rightarrow> (u8, tft_error) result" where
  "u8_try_from n = (if n \<le> 255 then Ok (word_of_nat n) else tft_fail TftLengthOverflow)"

fun encode_filters :: "packet_filter list \<Rightarrow> (bytes, tft_error) result" where
  "encode_filters [] = Ok []"
| "encode_filters (f # fs) =
     and_then (and_then (filter_contents_len f) u8_try_from) (\<lambda>len.
     and_then (encode_filters fs) (\<lambda>rest.
     Ok ([push_bit 4 (direction_code (pf_direction f)) OR identifier_value (pf_identifier f), pf_precedence f, len]
         @ concat (map encode_component (pf_components f)) @ rest)))"

fun parameter_contents :: "tft_parameter \<Rightarrow> bytes" where
  "parameter_contents (AuthorizationToken t) = token_bytes t"
| "parameter_contents (FlowIdentifier f) = u16_bytes (media_component_number f) @ u16_bytes (ip_flow_number f)"
| "parameter_contents (PacketFilterIdentifiers l) = map identifier_value (list_identifiers l)"
| "parameter_contents (UnknownParameter u) = unknown_contents u"

fun encode_parameters :: "tft_parameter list \<Rightarrow> (bytes, tft_error) result" where
  "encode_parameters [] = Ok []"
| "encode_parameters (p # ps) =
     and_then (u8_try_from (parameter_contents_len p)) (\<lambda>len.
     and_then (encode_parameters ps) (\<lambda>rest.
     Ok ([parameter_identifier p, len] @ parameter_contents p @ rest)))"

definition operation_octet :: "traffic_flow_template \<Rightarrow> u8 \<Rightarrow> u8" where
  "operation_octet t count =
     (push_bit 5 (operation_code (tft_op t)) OR (if tft_parameters t \<noteq> [] then 0x10 else 0)) OR count"

definition encode_value_inner :: "traffic_flow_template \<Rightarrow> (bytes, tft_error) result" where
  "encode_value_inner t =
     and_then (u8_try_from (filter_list_len (tft_filters t))) (\<lambda>count.
     and_then (case tft_filters t of
         NoFilters \<Rightarrow> Ok []
       | Identifiers is \<Rightarrow> Ok (map identifier_value is)
       | Filters fs \<Rightarrow> encode_filters fs) (\<lambda>filters.
     and_then (encode_parameters (tft_parameters t)) (\<lambda>parameters.
     Ok ([operation_octet t count] @ filters @ parameters @ tft_ignored t))))"

text \<open>\<open>encode_value\<close> appends to the buffer it is given; the result is the new buffer.\<close>

definition encode_value :: "traffic_flow_template \<Rightarrow> bytes \<Rightarrow> (bytes, tft_error) result" where
  "encode_value t dst =
     and_then (tft_validate t) (\<lambda>_.
     and_then (encoded_value_len_internal t) (\<lambda>expected.
     and_then (encode_value_inner t) (\<lambda>encoded.
     if length encoded \<noteq> expected then tft_fail EncodedLengthMismatch
     else Ok (dst @ encoded))))"

section \<open>Codec traits\<close>

definition protocol_decode_error :: "tft_error \<Rightarrow> decode_error" where
  "protocol_decode_error e =
     decode_with_spec_ref tft_spec_ref (decode_error_new
       (case te_kind e of
          TftTruncated _ \<Rightarrow> Truncated
        | TftLengthOverflow \<Rightarrow> LengthOverflow
        | ElementLimitExceeded _ \<Rightarrow> IeCountExceeded
        | InvalidValueLength actual _ maximum \<Rightarrow>
            if actual > maximum then MessageLengthExceeded else InvalidLength ''invalid TFT length''
        | InvalidComponentLength _ _ _ \<Rightarrow> InvalidLength ''invalid TFT length''
        | InvalidParameterLength _ _ _ _ \<Rightarrow> InvalidLength ''invalid TFT length''
        | ReservedOperation v \<Rightarrow> InvalidEnumValue ''tft_operation'' (unat v)
        | ReservedComponentType c \<Rightarrow> InvalidEnumValue ''tft_component_type'' (unat c)
        | _ \<Rightarrow> Structural ''invalid traffic flow template'')
       (case te_offset e of None \<Rightarrow> 0 | Some offset \<Rightarrow> offset))"

definition protocol_encode_error :: "tft_error \<Rightarrow> encode_error" where
  "protocol_encode_error e =
     encode_with_spec_ref tft_spec_ref (encode_error_new
       (case te_kind e of
          TftLengthOverflow \<Rightarrow> EncodeLengthOverflow
        | _ \<Rightarrow> EncodeStructural ''invalid traffic flow template''))"

definition tft_decode ::
  "bytes \<Rightarrow> decode_context \<Rightarrow> (bytes \<times> traffic_flow_template, decode_error) result" where
  "tft_decode input ctx =
     and_then (map_err protocol_decode_error (decode_value_with_context input ctx)) (\<lambda>t. Ok ([], t))"

definition tft_decode_owned :: "bytes \<Rightarrow> decode_context \<Rightarrow> (traffic_flow_template, decode_error) result" where
  "tft_decode_owned input ctx = map_err protocol_decode_error (decode_value_with_context input ctx)"

definition tft_wire_len :: "traffic_flow_template \<Rightarrow> encode_context \<Rightarrow> (usize, encode_error) result" where
  "tft_wire_len t ctx =
     and_then (map_err protocol_encode_error (tft_encoded_value_len t)) (\<lambda>len.
     and_then (check_capacity ctx len) (\<lambda>_. Ok len))"

definition tft_encode ::
  "traffic_flow_template \<Rightarrow> bytes \<Rightarrow> encode_context \<Rightarrow> (bytes, encode_error) result" where
  "tft_encode t dst ctx =
     and_then (map_err protocol_encode_error (tft_encoded_value_len t)) (\<lambda>len.
     and_then (check_capacity ctx len) (\<lambda>_.
     map_err protocol_encode_error (encode_value t dst)))"

end
