(* ===== verification/Tft_Roundtrip.thy ===== *)
theory Tft_Roundtrip
  imports Tft_Codec
begin

text \<open>
  The traffic flow template codec is exact: every reader accepts precisely the bytes its writer
  produces, so the decoder and the encoder are inverse on well-formed templates, and the caller's
  limits act as bounds on the length and on the number of elements.
\<close>

section \<open>Fields\<close>

lemma spare_nibble: "(x :: u8) AND 0xf0 = 0 \<longleftrightarrow> x \<le> 15"
proof -
  have "x \<le> 15 \<longleftrightarrow> take_bit 4 x = x"
  proof -
    have "unat (take_bit 4 x) = unat x mod 16" by (simp add: take_bit_eq_mod unat_mod_distrib)
    then show ?thesis
      by (simp add: word_le_nat_alt word_unat_eq_iff mod_eq_self_iff_div_eq_0 less_Suc_eq_le [symmetric] div_eq_0_iff)
  qed
  also have "\<dots> \<longleftrightarrow> x AND 0xf0 = 0" by (auto simp: octet_bits)
  finally show ?thesis by simp
qed

lemma low_nibble: "(x :: u8) \<le> 15 \<Longrightarrow> x AND 0x0f = x"
  unfolding spare_nibble [symmetric] by (simp add: octet_bits)

lemma low_nibble_le: "(x :: u8) AND 0x0f \<le> 15"
  unfolding spare_nibble [symmetric] by (simp add: octet_bits)

lemma top_digits:
  fixes a h m l :: nat
  assumes "((a * 256 + h) * 256 + m) * 256 + l \<le> 0xfffff"
  shows "a = 0" "h \<le> 15"
  using assms by auto

lemma flow_label_octets:
  "h \<le> 15 \<Longrightarrow> be32 0 h m l \<le> 0xfffff"
  "v \<le> 0xfffff \<Longrightarrow> \<exists>h m l. drop 1 (u32_bytes v) = [h, m, l] \<and> h \<le> 15 \<and> be32 0 h m l = v"
proof -
  show "h \<le> 15 \<Longrightarrow> be32 0 h m l \<le> 0xfffff"
    using unat_u8_less [of m] unat_u8_less [of l] by (simp add: word_le_nat_alt unat_be32)
  assume v: "v \<le> 0xfffff"
  obtain a h m l where b: "u32_bytes v = [a, h, m, l]" "be32 a h m l = v" using u32_bytes_cases by blast
  have "((unat a * 256 + unat h) * 256 + unat m) * 256 + unat l \<le> 0xfffff"
    using v by (simp add: word_le_nat_alt b(2) [symmetric] unat_be32)
  note top = top_digits [OF this]
  have "a = 0" using top(1) by (simp add: unsigned_eq_0_iff)
  moreover have "h \<le> 15" using top(2) by (simp add: word_le_nat_alt)
  moreover note b
  ultimately show "\<exists>h m l. drop 1 (u32_bytes v) = [h, m, l] \<and> h \<le> 15 \<and> be32 0 h m l = v" by simp
qed

lemma vlan_octets: "be16 h l \<le> 0xfff \<longleftrightarrow> h \<le> 15"
  using unat_u8_less [of l] by (auto simp: word_le_nat_alt unat_be16)

lemma vlan_priority_octet:
  "x \<le> 15 \<Longrightarrow> push_bit 1 (drop_bit 1 x AND 7) OR (if x AND 1 \<noteq> 0 then 1 else 0) = (x :: u8)"
  "drop_bit 1 (x :: u8) AND 7 \<le> 7"
  "(p :: u8) \<le> 7 \<Longrightarrow> push_bit 1 p OR (if d then 1 else 0) \<le> 15"
  "(p :: u8) \<le> 7 \<Longrightarrow> drop_bit 1 (push_bit 1 p OR (if d then 1 else 0)) AND 7 = p"
  "(push_bit 1 (p :: u8) OR (if d then 1 else 0)) AND 1 \<noteq> 0 \<longleftrightarrow> d"
  unfolding spare_nibble [symmetric] le_7_bits by (auto simp: octet_bits simp del: push_bit_Suc simp flip: numeral_2_eq_2)

section \<open>Components read exactly what the encoder writes\<close>

fun component_wf :: "component \<Rightarrow> bool" where
  "component_wf (Ipv6RemoteAddress a m) = (length (ipv6_octets a) = 16 \<and> length (ipv6_octets m) = 16)"
| "component_wf (Ipv6RemoteAddressPrefix p) = (length (ipv6_octets (prefix_address p)) = 16 \<and> prefix_length p \<le> 128)"
| "component_wf (Ipv6LocalAddressPrefix p) = (length (ipv6_octets (prefix_address p)) = 16 \<and> prefix_length p \<le> 128)"
| "component_wf (LocalPortRange r) = (range_low r \<le> range_high r)"
| "component_wf (RemotePortRange r) = (range_low r \<le> range_high r)"
| "component_wf (FlowLabel v) = (flow_label_value v \<le> 0xfffff)"
| "component_wf (DestinationMacAddress b) = (length b = 6)"
| "component_wf (SourceMacAddress b) = (length b = 6)"
| "component_wf (CustomerVlanId v) = (vlan_value v \<le> 0xfff)"
| "component_wf (ServiceVlanId v) = (vlan_value v \<le> 0xfff)"
| "component_wf (CustomerVlanPriority p) = (vlan_pcp p \<le> 7)"
| "component_wf (ServiceVlanPriority p) = (vlan_pcp p \<le> 7)"
| "component_wf _ = True"

lemma length_ipv4_octets [simp]: "length (ipv4_octets a) = 4"
  by (cases a) simp

lemma encode_component_length: "component_wf c \<Longrightarrow> length (encode_component c) = component_len c"
  by (cases c rule: component_wf.cases) (auto simp: encode_component_def)

lemma fixed_component_Ok_iff:
  assumes "cur_offset cur + length (cur_input cur) \<le> 255"
  shows "fixed_component code n field offset cur f = Ok (c, cur') \<longleftrightarrow>
    (\<exists>b. length b = n \<and> f b = Ok c \<and> cur_input cur = b @ cur_input cur' \<and> cur_offset cur' = cur_offset cur + n)"
  using assms by (auto simp: fixed_component_def outcome_simps cursor_simps max_u64_def)

lemma length_octets:
  "length b = 2 \<longleftrightarrow> (\<exists>b0 b1. b = [b0, b1])"
  "length b = 3 \<longleftrightarrow> (\<exists>b0 b1 b2. b = [b0, b1, b2])"
  "length b = 4 \<longleftrightarrow> (\<exists>b0 b1 b2 b3. b = [b0, b1, b2, b3])"
  "length b = 8 \<longleftrightarrow> (\<exists>b0 b1 b2 b3 b4 b5 b6 b7. b = [b0, b1, b2, b3, b4, b5, b6, b7])"
  by (auto simp: numeral_eq_Suc length_Suc_conv)

definition reads_component :: "component_kind \<Rightarrow> component \<Rightarrow> cursor \<Rightarrow> cursor \<Rightarrow> bool" where
  "reads_component k c cur cur' \<longleftrightarrow>
     kind_of c = k \<and> component_wf c \<and> cur_input cur = encode_component_value c @ cur_input cur' \<and>
     cur_offset cur' = cur_offset cur + length (encode_component_value c)"

lemma fixed_component_exact:
  assumes "cur_offset cur + length (cur_input cur) \<le> 255"
    and "\<And>b. length b = n \<and> f b = Ok c \<longleftrightarrow> kind_of c = k \<and> component_wf c \<and> b = encode_component_value c"
  shows "fixed_component code n field offset cur f = Ok (c, cur') \<longleftrightarrow> reads_component k c cur cur'"
  unfolding fixed_component_Ok_iff [OF assms(1)] reads_component_def using assms(2) by metis

text \<open>The octets a field is written as, read as an equation for the field.\<close>

lemma octets_iff:
  "b = u16_bytes v \<longleftrightarrow> (\<exists>b0 b1. b = [b0, b1] \<and> v = be16 b0 b1)"
  "b = u16_bytes v @ u16_bytes w \<longleftrightarrow>
     (\<exists>b0 b1 b2 b3. b = [b0, b1, b2, b3] \<and> v = be16 b0 b1 \<and> w = be16 b2 b3)"
  "b = u32_bytes x \<longleftrightarrow> (\<exists>b0 b1 b2 b3. b = [b0, b1, b2, b3] \<and> x = be32 b0 b1 b2 b3)"
proof -
  have u16: "b = u16_bytes v \<longleftrightarrow> (\<exists>b0 b1. b = [b0, b1] \<and> v = be16 b0 b1)" for b v
    by (metis u16_bytes_cases u16_bytes_be16)
  show "b = u16_bytes v \<longleftrightarrow> (\<exists>b0 b1. b = [b0, b1] \<and> v = be16 b0 b1)" by (rule u16)
  show "b = u32_bytes x \<longleftrightarrow> (\<exists>b0 b1 b2 b3. b = [b0, b1, b2, b3] \<and> x = be32 b0 b1 b2 b3)"
    by (metis u32_bytes_cases u32_bytes_be32)
  obtain v0 v1 w0 w1 where "u16_bytes v = [v0, v1]" "v = be16 v0 v1" "u16_bytes w = [w0, w1]" "w = be16 w0 w1"
    using u16_bytes_cases [of v] u16_bytes_cases [of w] by metis
  moreover have "be16 a b = be16 a' b' \<longleftrightarrow> a = a' \<and> b = b'" for a b a' b'
    by (metis u16_bytes_be16 list.inject)
  ultimately show "b = u16_bytes v @ u16_bytes w \<longleftrightarrow>
      (\<exists>b0 b1 b2 b3. b = [b0, b1, b2, b3] \<and> v = be16 b0 b1 \<and> w = be16 b2 b3)"
    by auto
qed

lemma ipv4_iff:
  "b = ipv4_octets a @ ipv4_octets m \<longleftrightarrow> (\<exists>b0 b1 b2 b3 b4 b5 b6 b7. b = [b0, b1, b2, b3, b4, b5, b6, b7] \<and>
     a = Ipv4Addr b0 b1 b2 b3 \<and> m = Ipv4Addr b4 b5 b6 b7)"
  by (cases a; cases m) auto

lemma ipv4_value:
  "length b = 8 \<and> (let address = Ipv4Addr (b ! 0) (b ! 1) (b ! 2) (b ! 3);
       msk = Ipv4Addr (b ! 4) (b ! 5) (b ! 6) (b ! 7)
     in Ok (if k = KIpv4RemoteAddress then Ipv4RemoteAddress address msk else Ipv4LocalAddress address msk)) = Ok c \<longleftrightarrow>
   kind_of c = k \<and> component_wf c \<and> b = encode_component_value c"
  if "k = KIpv4RemoteAddress \<or> k = KIpv4LocalAddress"
  using that by (cases c) (auto simp: length_octets ipv4_iff)

lemma port_value:
  "length b = 2 \<and> (let v = be16 (b ! 0) (b ! 1)
     in Ok (if k = KSingleLocalPort then SingleLocalPort v else SingleRemotePort v)) = Ok c \<longleftrightarrow>
   kind_of c = k \<and> component_wf c \<and> b = encode_component_value c"
  if "k = KSingleLocalPort \<or> k = KSingleRemotePort"
  using that by (cases c) (auto simp: length_octets octets_iff)

lemma ether_value:
  "length b = 2 \<and> Ok (EtherType (be16 (b ! 0) (b ! 1))) = Ok c \<longleftrightarrow>
   kind_of c = KEtherType \<and> component_wf c \<and> b = encode_component_value c"
  by (cases c) (auto simp: length_octets octets_iff)

lemma range_value:
  "length b = 4 \<and> and_then (map_err (error_at offset) (port_range_new (be16 (b ! 0) (b ! 1)) (be16 (b ! 2) (b ! 3)))) (\<lambda>r.
     Ok (if k = KLocalPortRange then LocalPortRange r else RemotePortRange r)) = Ok c \<longleftrightarrow>
   kind_of c = k \<and> component_wf c \<and> b = encode_component_value c"
  if "k = KLocalPortRange \<or> k = KRemotePortRange"
proof -
  have r: "port_range_new low high = Ok r \<longleftrightarrow> low \<le> high \<and> range_low r = low \<and> range_high r = high" for low high r
    by (cases r) (auto simp: port_range_new_def not_less)
  show ?thesis using that by (cases c) (auto simp: length_octets octets_iff outcome_simps r)
qed

lemma word_values:
  "length b = 4 \<and> Ok (SecurityParameterIndex (be32 (b ! 0) (b ! 1) (b ! 2) (b ! 3))) = Ok c \<longleftrightarrow>
     kind_of c = KSecurityParameterIndex \<and> component_wf c \<and> b = encode_component_value c"
  "length b = 2 \<and> Ok (TypeOfServiceTrafficClass (b ! 0) (b ! 1)) = Ok c \<longleftrightarrow>
     kind_of c = KTypeOfServiceTrafficClass \<and> component_wf c \<and> b = encode_component_value c"
  by (cases c; force simp: length_octets octets_iff)+

lemma mac_value:
  "length b = 6 \<and> Ok (if k = KDestinationMacAddress then DestinationMacAddress b else SourceMacAddress b) = Ok c \<longleftrightarrow>
   kind_of c = k \<and> component_wf c \<and> b = encode_component_value c"
  if "k = KDestinationMacAddress \<or> k = KSourceMacAddress"
  using that by (cases c) auto

lemma flow_label_iff:
  "v \<le> 0xfffff \<and> b = drop 1 (u32_bytes v) \<longleftrightarrow> (\<exists>h m l. b = [h, m, l] \<and> h \<le> 15 \<and> v = be32 0 h m l)"
proof
  assume "v \<le> 0xfffff \<and> b = drop 1 (u32_bytes v)"
  then show "\<exists>h m l. b = [h, m, l] \<and> h \<le> 15 \<and> v = be32 0 h m l" using flow_label_octets(2) by metis
next
  assume "\<exists>h m l. b = [h, m, l] \<and> h \<le> 15 \<and> v = be32 0 h m l"
  then show "v \<le> 0xfffff \<and> b = drop 1 (u32_bytes v)" using flow_label_octets(1) by auto
qed

lemma flow_label_value:
  "length b = 3 \<and> (if (b ! 0) AND 0xf0 \<noteq> 0 then tft_fail_at (NonZeroSpareBits field) offset
     else and_then (map_err (error_at offset) (ipv6_flow_label_new (be32 0 (b ! 0) (b ! 1) (b ! 2)))) (\<lambda>v.
     Ok (FlowLabel v))) = Ok c \<longleftrightarrow>
   kind_of c = KFlowLabel \<and> component_wf c \<and> b = encode_component_value c"
proof -
  have v: "ipv6_flow_label_new x = Ok v \<longleftrightarrow> x \<le> 0xfffff \<and> v = Ipv6FlowLabel x" for x v
    by (auto simp: ipv6_flow_label_new_def not_less)
  show ?thesis
  proof (cases c)
    case (FlowLabel w)
    then obtain x where c: "c = FlowLabel (Ipv6FlowLabel x)" by (cases w) simp
    have "length b = 3 \<and> (if (b ! 0) AND 0xf0 \<noteq> 0 then tft_fail_at (NonZeroSpareBits field) offset
       else and_then (map_err (error_at offset) (ipv6_flow_label_new (be32 0 (b ! 0) (b ! 1) (b ! 2)))) (\<lambda>v.
       Ok (FlowLabel v))) = Ok c \<longleftrightarrow> (\<exists>h m l. b = [h, m, l] \<and> h \<le> 15 \<and> x = be32 0 h m l)"
      by (auto simp: c length_octets outcome_simps v spare_nibble flow_label_octets(1))
    also have "\<dots> \<longleftrightarrow> kind_of c = KFlowLabel \<and> component_wf c \<and> b = encode_component_value c"
      unfolding flow_label_iff [symmetric] by (simp add: c)
    finally show ?thesis .
  qed (auto simp: outcome_simps)
qed

lemma vlan_value:
  "length b = 2 \<and> (if (b ! 0) AND 0xf0 \<noteq> 0 then tft_fail_at (NonZeroSpareBits field) offset
     else and_then (map_err (error_at offset) (vlan_identifier_new (be16 (b ! 0) (b ! 1)))) (\<lambda>v.
     Ok (if k = KCustomerVlanId then CustomerVlanId v else ServiceVlanId v))) = Ok c \<longleftrightarrow>
   kind_of c = k \<and> component_wf c \<and> b = encode_component_value c"
  if "k = KCustomerVlanId \<or> k = KServiceVlanId"
proof -
  have v: "vlan_identifier_new x = Ok v \<longleftrightarrow> x \<le> 0xfff \<and> v = VlanIdentifier x" for x v
    by (auto simp: vlan_identifier_new_def not_less)
  have inj: "v = VlanIdentifier (be16 x y) \<longleftrightarrow> vlan_value v = be16 x y" for v x y by (cases v) auto
  show ?thesis
    using that by (cases c) (auto simp: length_octets octets_iff outcome_simps v spare_nibble vlan_octets inj)
qed

lemma ipv6_mask_exact:
  assumes "cur_offset cur + length (cur_input cur) \<le> 255"
  shows "decode_ipv6_mask code offset cur = Ok (c, cur') \<longleftrightarrow> reads_component KIpv6RemoteAddress c cur cur'"
proof -
  have "decode_ipv6_mask code offset cur = Ok (c, cur') \<longleftrightarrow>
    (\<exists>raw. length raw = 32 \<and> cur_input cur = raw @ cur_input cur' \<and> cur_offset cur' = cur_offset cur + 32 \<and>
       c = Ipv6RemoteAddress (Ipv6Addr (take 16 raw)) (Ipv6Addr (drop 16 raw)))"
    using assms by (auto simp: decode_ipv6_mask_def outcome_simps cursor_simps max_u64_def)
  also have "\<dots> \<longleftrightarrow> reads_component KIpv6RemoteAddress c cur cur'"
  proof (cases c)
    case (Ipv6RemoteAddress a m)
    obtain x y where "a = Ipv6Addr x" "m = Ipv6Addr y" by (cases a; cases m) blast
    moreover have "length raw = 32 \<and> x = take 16 raw \<and> y = drop 16 raw \<longleftrightarrow>
        raw = x @ y \<and> length x = 16 \<and> length y = 16" for raw by auto
    ultimately show ?thesis using Ipv6RemoteAddress by (auto simp: reads_component_def)
  qed (auto simp: reads_component_def)
  finally show ?thesis .
qed

lemma ipv6_prefix_exact:
  assumes "cur_offset cur + length (cur_input cur) \<le> 255"
    and "k = KIpv6RemoteAddressPrefix \<or> k = KIpv6LocalAddressPrefix"
  shows "decode_ipv6_prefix k code offset cur = Ok (c, cur') \<longleftrightarrow> reads_component k c cur cur'"
proof -
  have v: "ipv6_address_prefix_new a n = Ok p \<longleftrightarrow> n \<le> 128 \<and> p = \<lparr>prefix_address = a, prefix_length = n\<rparr>" for a n p
    by (auto simp: ipv6_address_prefix_new_def not_less)
  have raw: "length raw = 17 \<longleftrightarrow> (\<exists>x n. raw = x @ [n] \<and> length x = 16)" for raw :: bytes
    by (cases raw rule: rev_cases) auto
  have "decode_ipv6_prefix k code offset cur = Ok (c, cur') \<longleftrightarrow>
    (\<exists>x n. length x = 16 \<and> n \<le> 128 \<and> cur_input cur = x @ n # cur_input cur' \<and> cur_offset cur' = cur_offset cur + 17 \<and>
       c = (let p = \<lparr>prefix_address = Ipv6Addr x, prefix_length = n\<rparr> in
         if k = KIpv6RemoteAddressPrefix then Ipv6RemoteAddressPrefix p else Ipv6LocalAddressPrefix p))"
    using assms(1)
    by (auto simp: decode_ipv6_prefix_def outcome_simps cursor_simps max_u64_def v raw nth_append Let_def)
  also have "\<dots> \<longleftrightarrow> reads_component k c cur cur'"
  proof -
    have p: "\<lparr>prefix_address = Ipv6Addr x, prefix_length = n\<rparr> = p \<longleftrightarrow>
        x = ipv6_octets (prefix_address p) \<and> n = prefix_length p" for x n and p :: ipv6_address_prefix
      by (cases p; cases "prefix_address p") auto
    show ?thesis
      using assms(2) by (cases c) (auto simp: reads_component_def Let_def p [symmetric])
  qed
  finally show ?thesis .
qed

lemma vlan_priority_exact:
  assumes "cur_offset cur + length (cur_input cur) \<le> 255"
    and "k = KCustomerVlanPriority \<or> k = KServiceVlanPriority"
  shows "decode_vlan_priority k code offset cur = Ok (c, cur') \<longleftrightarrow> reads_component k c cur cur'"
proof -
  let ?octet = "\<lambda>p. push_bit 1 (vlan_pcp p) OR (if drop_eligible p then 1 else 0)"
  have v: "vlan_priority_new a d = Ok p \<longleftrightarrow> a \<le> 7 \<and> p = \<lparr>vlan_pcp = a, drop_eligible = d\<rparr>" for a d p
    by (auto simp: vlan_priority_new_def not_less)
  have octet: "x \<le> 15 \<and> vlan_priority_new (drop_bit 1 x AND 7) (x AND 1 \<noteq> 0) = Ok p \<longleftrightarrow>
      vlan_pcp p \<le> 7 \<and> x = ?octet p" for x p
  proof
    assume "x \<le> 15 \<and> vlan_priority_new (drop_bit 1 x AND 7) (x AND 1 \<noteq> 0) = Ok p"
    then have "x \<le> 15" "vlan_pcp p = drop_bit 1 x AND 7" "drop_eligible p = (x AND 1 \<noteq> 0)"
      by (simp_all only: v vlan_priority.select_convs)
    then show "vlan_pcp p \<le> 7 \<and> x = ?octet p"
      using vlan_priority_octet(1) [of x] vlan_priority_octet(2) [of x] by (simp only: simp_thms)
  next
    assume p: "vlan_pcp p \<le> 7 \<and> x = ?octet p"
    then have "x \<le> 15" "drop_bit 1 x AND 7 = vlan_pcp p" "(x AND 1 \<noteq> 0) = drop_eligible p"
      using vlan_priority_octet(3-5) [of "vlan_pcp p" "drop_eligible p"] by (simp_all only: simp_thms)
    then show "x \<le> 15 \<and> vlan_priority_new (drop_bit 1 x AND 7) (x AND 1 \<noteq> 0) = Ok p"
      using p by (simp only: v) (cases p, simp)
  qed
  have "decode_vlan_priority k code offset cur = Ok (c, cur') \<longleftrightarrow>
    (\<exists>x p. (x \<le> 15 \<and> vlan_priority_new (drop_bit 1 x AND 7) (x AND 1 \<noteq> 0) = Ok p) \<and>
      cur_input cur = x # cur_input cur' \<and> cur_offset cur' = cur_offset cur + 1 \<and>
      c = (if k = KCustomerVlanPriority then CustomerVlanPriority p else ServiceVlanPriority p))"
    using assms(1)
    by (auto simp: decode_vlan_priority_def outcome_simps cursor_simps max_u64_def spare_nibble)
  also have "\<dots> \<longleftrightarrow> reads_component k c cur cur'"
    unfolding octet using assms(2) by (cases c) (auto simp: reads_component_def)
  finally show ?thesis .
qed

lemma octet_component_exact:
  assumes "cur_offset cur + length (cur_input cur) \<le> 255"
  shows "and_then (read_component_u8 code cur) (\<lambda>(v, cur1). Ok (ProtocolIdentifierNextHeader v, cur1)) = Ok (c, cur') \<longleftrightarrow>
    reads_component KProtocolIdentifierNextHeader c cur cur'"
  using assms by (cases c) (auto simp: outcome_simps cursor_simps max_u64_def reads_component_def)

lemma decode_component_value_exact:
  assumes R: "cur_offset cur + length (cur_input cur) \<le> 255"
  shows "decode_component_value k code offset cur = Ok (c, cur') \<longleftrightarrow> reads_component k c cur cur'"
proof -
  note fixed = fixed_component_exact [OF R]
  have "decode_component_value k code offset cur = Ok (c, cur') \<longleftrightarrow> reads_component k c cur cur'"
    if "k = KIpv4RemoteAddress \<or> k = KIpv4LocalAddress"
    using fixed [OF ipv4_value [OF that]] that unfolding decode_component_value_def by (elim disjE) simp_all
  moreover have "decode_component_value k code offset cur = Ok (c, cur') \<longleftrightarrow> reads_component k c cur cur'"
    if "k = KSingleLocalPort \<or> k = KSingleRemotePort"
    using fixed [OF port_value [OF that]] that unfolding decode_component_value_def by (elim disjE) simp_all
  moreover have "decode_component_value k code offset cur = Ok (c, cur') \<longleftrightarrow> reads_component k c cur cur'"
    if "k = KLocalPortRange \<or> k = KRemotePortRange"
    using fixed [OF range_value [OF that]] that unfolding decode_component_value_def by (elim disjE) simp_all
  moreover have "decode_component_value k code offset cur = Ok (c, cur') \<longleftrightarrow> reads_component k c cur cur'"
    if "k = KDestinationMacAddress \<or> k = KSourceMacAddress"
    using fixed [OF mac_value [OF that]] that unfolding decode_component_value_def by (elim disjE) simp_all
  moreover have "decode_component_value k code offset cur = Ok (c, cur') \<longleftrightarrow> reads_component k c cur cur'"
    if "k = KCustomerVlanId \<or> k = KServiceVlanId"
    using fixed [OF vlan_value [OF that]] that unfolding decode_component_value_def by (elim disjE) simp_all
  moreover have "decode_component_value k code offset cur = Ok (c, cur') \<longleftrightarrow> reads_component k c cur cur'"
    if "k \<in> {KSecurityParameterIndex, KTypeOfServiceTrafficClass, KFlowLabel, KEtherType}"
    using fixed [OF word_values(1)] fixed [OF word_values(2)] fixed [OF flow_label_value] fixed [OF ether_value] that
    unfolding decode_component_value_def by (elim insertE emptyE) simp_all
  moreover have "decode_component_value k code offset cur = Ok (c, cur') \<longleftrightarrow> reads_component k c cur cur'"
    if "k \<in> {KIpv6RemoteAddress, KIpv6RemoteAddressPrefix, KIpv6LocalAddressPrefix,
      KProtocolIdentifierNextHeader, KCustomerVlanPriority, KServiceVlanPriority}"
    using that ipv6_mask_exact [OF R] ipv6_prefix_exact [OF R] vlan_priority_exact [OF R] octet_component_exact [OF R]
    unfolding decode_component_value_def by (elim insertE emptyE) simp_all
  ultimately show ?thesis by (cases k) simp_all
qed

section \<open>Composition of readers\<close>

text \<open>A reader that consumes the bytes \<open>w\<close> and \<open>n\<close> elements of the budget.\<close>

definition parses :: "cursor \<Rightarrow> element_budget \<Rightarrow> bytes \<Rightarrow> nat \<Rightarrow> cursor \<Rightarrow> element_budget \<Rightarrow> bool" where
  "parses cur bud w n cur' bud' \<longleftrightarrow>
     cur_input cur = w @ cur_input cur' \<and> cur_offset cur' = cur_offset cur + length w \<and>
     eb_used bud + n \<le> eb_limit bud \<and> bud' = bud\<lparr>eb_used := eb_used bud + n\<rparr>"

definition roomy :: "cursor \<Rightarrow> element_budget \<Rightarrow> bool" where
  "roomy cur bud \<longleftrightarrow>
     eb_used bud \<le> cur_offset cur \<and> cur_offset cur + length (cur_input cur) \<le> 255 \<and> eb_used bud \<le> eb_limit bud"

lemma parses_append:
  "(\<exists>cur1 bud1. parses cur bud w n cur1 bud1 \<and> parses cur1 bud1 w' n' cur' bud') \<longleftrightarrow>
     parses cur bud (w @ w') (n + n') cur' bud'"
proof
  assume p: "parses cur bud (w @ w') (n + n') cur' bud'"
  let ?cur = "\<lparr>cur_input = w' @ cur_input cur', cur_offset = cur_offset cur + length w\<rparr>"
  have "parses cur bud w n ?cur (bud\<lparr>eb_used := eb_used bud + n\<rparr>)"
    "parses ?cur (bud\<lparr>eb_used := eb_used bud + n\<rparr>) w' n' cur' bud'"
    using p by (simp_all add: parses_def)
  then show "\<exists>cur1 bud1. parses cur bud w n cur1 bud1 \<and> parses cur1 bud1 w' n' cur' bud'" by blast
qed (auto simp: parses_def)

lemma parses_roomy: "parses cur bud w n cur' bud' \<Longrightarrow> n \<le> length w \<Longrightarrow> roomy cur bud \<Longrightarrow> roomy cur' bud'"
  by (auto simp: parses_def roomy_def)

lemma parses_none [simp]: "roomy cur bud \<Longrightarrow> parses cur bud [] 0 cur' bud' \<longleftrightarrow> cur' = cur \<and> bud' = bud"
  by (cases cur; cases cur') (auto simp: parses_def roomy_def)

lemma kind_from_type_code_iff: "kind_from_type_code code = Ok k \<longleftrightarrow> code = type_code k"
proof
  show "kind_from_type_code code = Ok k \<Longrightarrow> code = type_code k"
    by (auto simp: kind_from_type_code_def split: if_splits)
  show "code = type_code k \<Longrightarrow> kind_from_type_code code = Ok k"
    by (cases k) (simp_all add: kind_from_type_code_def)
qed

lemma decode_component_exact:
  assumes "roomy cur bud"
  shows "decode_component cur bud = Ok (c, cur', bud') \<longleftrightarrow>
    component_wf c \<and> parses cur bud (encode_component c) 1 cur' bud'"
proof -
  have "decode_component cur bud = Ok (c, cur', bud') \<longleftrightarrow>
    eb_used bud + 1 \<le> eb_limit bud \<and> bud' = bud\<lparr>eb_used := eb_used bud + 1\<rparr> \<and>
    (\<exists>code cur1. cur_input cur = code # cur_input cur1 \<and> cur_offset cur1 = cur_offset cur + 1 \<and>
       (\<exists>k. code = type_code k \<and> decode_component_value k code (cur_offset cur) cur1 = Ok (c, cur')))"
    using assms
    by (auto simp: decode_component_def Let_def outcome_simps cursor_simps kind_from_type_code_iff roomy_def max_u64_def)
  also have "\<dots> \<longleftrightarrow> eb_used bud + 1 \<le> eb_limit bud \<and> bud' = bud\<lparr>eb_used := eb_used bud + 1\<rparr> \<and>
    (\<exists>cur1. cur_input cur = type_code (kind_of c) # cur_input cur1 \<and> cur_offset cur1 = cur_offset cur + 1 \<and>
       reads_component (kind_of c) c cur1 cur')"
  proof -
    have "decode_component_value k code offset cur1 = Ok (c, cur') \<longleftrightarrow> reads_component k c cur1 cur'"
      if "cur_input cur = code # cur_input cur1" "cur_offset cur1 = cur_offset cur + 1" for k code offset cur1
      using decode_component_value_exact [of cur1] assms that by (simp add: roomy_def)
    moreover have "reads_component k c cur1 cur' \<Longrightarrow> kind_of c = k" for k cur1 by (simp add: reads_component_def)
    ultimately show ?thesis by blast
  qed
  also have "\<dots> \<longleftrightarrow> component_wf c \<and> parses cur bud (encode_component c) 1 cur' bud'"
    by (auto simp: reads_component_def parses_def encode_component_def
        intro!: exI [of _ "\<lparr>cur_input = encode_component_value c @ cur_input cur', cur_offset = cur_offset cur + 1\<rparr>"])
  finally show ?thesis .
qed

lemma encode_component_pos: "1 \<le> length (encode_component c)"
  by (simp add: encode_component_def)

lemma decode_components_exact:
  assumes "roomy cur bud"
  shows "decode_components cur bud = Ok (cs, bud') \<longleftrightarrow>
    list_all component_wf cs \<and> cur_input cur = concat (map encode_component cs) \<and>
    eb_used bud + length cs \<le> eb_limit bud \<and> bud' = bud\<lparr>eb_used := eb_used bud + length cs\<rparr>"
  using assms
proof (induction cs arbitrary: cur bud)
  case Nil
  then show ?case
    by (subst decode_components.simps) (auto simp: outcome_simps roomy_def encode_component_def)
next
  case (Cons c cs)
  have "decode_components cur bud = Ok (c # cs, bud') \<longleftrightarrow>
    (\<exists>cur1 bud1. decode_component cur bud = Ok (c, cur1, bud1) \<and> decode_components cur1 bud1 = Ok (cs, bud'))"
    by (subst decode_components.simps) (auto simp: outcome_simps dest: decode_component_shorter)
  also have "\<dots> \<longleftrightarrow> component_wf c \<and> list_all component_wf cs \<and>
    (\<exists>cur1 bud1. parses cur bud (encode_component c) 1 cur1 bud1 \<and>
      cur_input cur1 = concat (map encode_component cs) \<and> eb_used bud1 + length cs \<le> eb_limit bud1 \<and>
      bud' = bud1\<lparr>eb_used := eb_used bud1 + length cs\<rparr>)"
    using Cons.IH parses_roomy [OF _ encode_component_pos Cons.prems] decode_component_exact [OF Cons.prems] by blast
  also have "\<dots> \<longleftrightarrow> list_all component_wf (c # cs) \<and> cur_input cur = concat (map encode_component (c # cs)) \<and>
    eb_used bud + length (c # cs) \<le> eb_limit bud \<and> bud' = bud\<lparr>eb_used := eb_used bud + length (c # cs)\<rparr>"
    by (auto simp: parses_def intro!: exI [of _ "\<lparr>cur_input = concat (map encode_component cs),
      cur_offset = cur_offset cur + length (encode_component c)\<rparr>"])
  finally show ?case .
qed

section \<open>Filters\<close>

lemma decode_identifier_exact:
  "decode_identifier field offset octet = Ok i \<longleftrightarrow> octet \<le> 15 \<and> i = PacketFilterIdentifier octet"
  by (auto simp: decode_identifier_def packet_filter_identifier_new_def outcome_simps spare_nibble low_nibble)

definition identifier_wf :: "packet_filter_identifier \<Rightarrow> bool" where
  "identifier_wf i \<longleftrightarrow> identifier_value i \<le> 15"

lemma decode_identifiers_exact:
  assumes "roomy cur bud"
  shows "decode_identifiers n cur bud = Ok (is, cur', bud') \<longleftrightarrow>
    length is = n \<and> list_all identifier_wf is \<and> parses cur bud (map identifier_value is) n cur' bud'"
  using assms
proof (induction n arbitrary: cur bud "is")
  case 0
  then show ?case by auto
next
  case (Suc n)
  show ?case
  proof (cases "is")
    case Nil
    then show ?thesis by (auto simp: Let_def outcome_simps)
  next
    case (Cons i js)
    obtain v where i: "i = PacketFilterIdentifier v" by (cases i)
    have "decode_identifiers (Suc n) cur bud = Ok (is, cur', bud') \<longleftrightarrow> identifier_wf i \<and>
      (\<exists>cur1 bud1. parses cur bud [v] 1 cur1 bud1 \<and> decode_identifiers n cur1 bud1 = Ok (js, cur', bud'))"
      using Suc.prems
      by (auto simp: Cons i Let_def outcome_simps cursor_simps decode_identifier_exact parses_def roomy_def max_u64_def
          identifier_wf_def)
    also have "\<dots> \<longleftrightarrow> identifier_wf i \<and> length js = n \<and> list_all identifier_wf js \<and>
      (\<exists>cur1 bud1. parses cur bud [v] 1 cur1 bud1 \<and> parses cur1 bud1 (map identifier_value js) n cur' bud')"
      using Suc.IH parses_roomy [OF _ _ Suc.prems, of "[v]" 1] by simp blast
    finally show ?thesis unfolding parses_append by (auto simp: Cons i)
  qed
qed

lemma contents_sum_Ok: "contents_sum t cs = Ok n \<Longrightarrow> n = t + sum_list (map component_len cs)"
  by (induction cs arbitrary: t) (fastforce simp: outcome_simps)+

lemma contents_sum_small:
  "t + sum_list (map component_len cs) \<le> max_u64 \<Longrightarrow> contents_sum t cs = Ok (t + sum_list (map component_len cs))"
  by (induction cs arbitrary: t) (auto simp: checked_add_def)

definition filter_len :: "packet_filter \<Rightarrow> nat" where
  "filter_len f = sum_list (map component_len (pf_components f))"

lemma filter_contents_len_iff: "filter_contents_len f = Ok n \<longleftrightarrow> n = filter_len f \<and> filter_len f \<le> max_u64"
proof -
  have "filter_contents_len f = Ok n \<Longrightarrow> n = filter_len f"
    using contents_sum_Ok [of 0] by (simp add: filter_contents_len_def filter_len_def)
  moreover have "contents_sum t cs = Ok n \<Longrightarrow> t \<le> max_u64 \<Longrightarrow> n \<le> max_u64" for t cs
    by (induction cs arbitrary: t) (auto simp: outcome_simps)
  ultimately show ?thesis
    using contents_sum_small [of 0 "pf_components f"]
    by (auto simp: filter_contents_len_def filter_len_def max_u64_def)
qed

definition filter_wf :: "packet_filter \<Rightarrow> bool" where
  "filter_wf f \<longleftrightarrow> identifier_wf (pf_identifier f) \<and> list_all component_wf (pf_components f)"

lemma filter_validate_len: "filter_validate f = Ok () \<Longrightarrow> pf_components f \<noteq> [] \<and> filter_len f \<le> 255"
  by (auto simp: filter_validate_def outcome_simps filter_contents_len_iff)

definition filter_head :: "packet_filter \<Rightarrow> u8" where
  "filter_head f = push_bit 4 (direction_code (pf_direction f)) OR identifier_value (pf_identifier f)"

definition filter_bytes :: "packet_filter \<Rightarrow> bytes" where
  "filter_bytes f =
     [filter_head f, pf_precedence f, word_of_nat (filter_len f)] @ concat (map encode_component (pf_components f))"

lemma encode_filters_bytes:
  "list_all (\<lambda>f. filter_validate f = Ok ()) fs \<Longrightarrow> encode_filters fs = Ok (concat (map filter_bytes fs))"
proof (induction fs)
  case (Cons f fs)
  then have "filter_len f \<le> 255" using filter_validate_len by simp
  then have "filter_contents_len f = Ok (filter_len f)" by (simp add: filter_contents_len_iff max_u64_def)
  with Cons \<open>filter_len f \<le> 255\<close> show ?case by (simp add: u8_try_from_def filter_bytes_def filter_head_def)
qed simp

lemma direction_from_code_bits:
  "direction_from_code x =
     (if bit x 1 then if bit x 0 then Bidirectional else UplinkOnly
      else if bit x 0 then DownlinkOnly else PreRelease7)"
  by (simp add: direction_from_code_def Let_def octet_bits)

lemma filter_head_iff:
  "head AND 0xc0 = 0 \<and> i = PacketFilterIdentifier (head AND 0x0f) \<and> d = direction_from_code (drop_bit 4 head AND 3) \<longleftrightarrow>
     identifier_wf i \<and> head = push_bit 4 (direction_code d) OR identifier_value i"
  unfolding identifier_wf_def spare_nibble [symmetric]
  by (cases i; cases d) (auto simp: direction_from_code_bits octet_bits)

lemma read_u8_Cons:
  "cur_input cur = v # rest \<Longrightarrow> cur_offset cur + 1 \<le> max_u64 \<Longrightarrow>
   read_u8 field cur = Ok (v, \<lparr>cur_input = rest, cur_offset = cur_offset cur + 1\<rparr>)"
  by (simp add: read_u8_def checked_add_def)

lemma cursor_take_append:
  "cur_input cur = raw @ rest \<Longrightarrow> cur_offset cur + length raw \<le> max_u64 \<Longrightarrow> n = length raw \<Longrightarrow>
   cursor_take n field cur = Ok (raw, \<lparr>cur_input = rest, cur_offset = cur_offset cur + length raw\<rparr>)"
  by (simp add: cursor_take_def checked_add_def)

lemma components_length:
  "list_all component_wf cs \<Longrightarrow> length (concat (map encode_component cs)) = sum_list (map component_len cs)"
  by (induction cs) (simp_all add: encode_component_length)

lemma components_le: "length cs \<le> length (concat (map encode_component cs))"
  by (induction cs) (simp_all add: encode_component_def)

lemma component_len_pos: "0 < component_len c"
  by (cases c) simp_all

lemma filter_len_pos: "pf_components f \<noteq> [] \<Longrightarrow> 0 < filter_len f"
  using component_len_pos by (cases "pf_components f") (auto simp: filter_len_def)

lemma filter_bytes_length:
  "filter_wf f \<Longrightarrow> length (filter_bytes f) = 3 + filter_len f"
  by (simp add: filter_bytes_def filter_wf_def filter_len_def components_length)

definition filter_elements :: "packet_filter \<Rightarrow> nat" where
  "filter_elements f = 1 + length (pf_components f)"

lemma filter_elements_le: "filter_elements f \<le> length (filter_bytes f)"
  using components_le [of "pf_components f"] by (simp add: filter_elements_def filter_bytes_def)

lemma decode_full_filter_reads:
  assumes R: "roomy cur bud" and f: "decode_full_filter cur bud = Ok (f, cur', bud')"
  shows "filter_wf f \<and> filter_validate f = Ok () \<and> parses cur bud (filter_bytes f) (filter_elements f) cur' bud'"
proof -
  obtain head prec len contents cs idn where
    inp: "cur_input cur = [head, prec, len] @ contents @ cur_input cur'" "length contents = unat len"
      "cur_offset cur' = cur_offset cur + 3 + unat len"
    and h: "head AND 0xc0 = 0" "idn = PacketFilterIdentifier (head AND 0x0f)"
    and u: "eb_used bud + 1 \<le> eb_limit bud"
    and cs: "decode_components \<lparr>cur_input = contents, cur_offset = cur_offset cur + 3\<rparr>
        (bud\<lparr>eb_used := eb_used bud + 1\<rparr>) = Ok (cs, bud')"
    and new: "packet_filter_new idn (direction_from_code (drop_bit 4 head AND 3)) prec cs = Ok f"
    using f by (auto simp: decode_full_filter_def Let_def outcome_simps cursor_simps packet_filter_identifier_new_def numeral_3_eq_3)
  have roomy: "roomy \<lparr>cur_input = contents, cur_offset = cur_offset cur + 3\<rparr> (bud\<lparr>eb_used := eb_used bud + 1\<rparr>)"
    using R inp u by (simp add: roomy_def)
  note c = decode_components_exact [OF roomy, THEN iffD1, OF cs, simplified]
  have f: "f = \<lparr>pf_identifier = idn, pf_direction = direction_from_code (drop_bit 4 head AND 3),
      pf_precedence = prec, pf_components = cs\<rparr>" and v: "filter_validate f = Ok ()"
    using new by (auto simp: packet_filter_new_def Let_def outcome_simps)
  have head: "identifier_wf idn" "head = filter_head f"
    using filter_head_iff [of head idn "pf_direction f"] h by (simp_all add: f filter_head_def)
  have wf: "filter_wf f" using head(1) c by (simp add: filter_wf_def f)
  have "length contents = filter_len f" using c components_length by (simp add: f filter_len_def)
  then have "filter_len f = unat len" using inp(2) by (rule trans [OF sym])
  then have len: "len = word_of_nat (filter_len f)" by (rule word_of_nat_unat [THEN sym])
  have sel: "pf_components f = cs" "pf_precedence f = prec" by (simp_all add: f)
  then have bytes: "filter_bytes f = [head, prec, len] @ contents"
    unfolding filter_bytes_def sel len [symmetric] head(2) [symmetric] using c by simp
  have "parses cur bud (filter_bytes f) (filter_elements f) cur' bud'"
    using inp c by (simp add: bytes parses_def filter_elements_def sel)
  with wf v show ?thesis by simp
qed

lemma decode_full_filter_written:
  assumes R: "roomy cur bud" and wf: "filter_wf f" and v: "filter_validate f = Ok ()"
    and p: "parses cur bud (filter_bytes f) (filter_elements f) cur' bud'"
  shows "decode_full_filter cur bud = Ok (f, cur', bud')"
proof -
  let ?contents = "concat (map encode_component (pf_components f))"
  note len = filter_validate_len [OF v]
  have "length ?contents = filter_len f" using wf components_length by (simp add: filter_wf_def filter_len_def)
  moreover have unat: "unat (word_of_nat (filter_len f) :: u8) = filter_len f" using len by (simp add: unat_of_nat8)
  moreover have "(word_of_nat (filter_len f) :: u8) \<noteq> 0"
    using unat filter_len_pos len by (metis less_irrefl unsigned_0)
  moreover have inp: "cur_input cur = filter_head f # pf_precedence f # word_of_nat (filter_len f) # ?contents @ cur_input cur'"
    using p by (simp add: parses_def filter_bytes_def)
  moreover have "cur_offset cur + 3 + length ?contents + length (cur_input cur') \<le> 255"
    using R inp by (simp add: roomy_def)
  moreover have "decode_components \<lparr>cur_input = ?contents, cur_offset = cur_offset cur + 3\<rparr>
      (bud\<lparr>eb_used := eb_used bud + 1\<rparr>) = Ok (pf_components f, bud')"
    using R inp p wf by (subst decode_components_exact) (auto simp: roomy_def parses_def filter_elements_def filter_wf_def)
  moreover have head: "filter_head f AND 0xc0 = 0" "pf_identifier f = PacketFilterIdentifier (filter_head f AND 0x0f)"
    "pf_direction f = direction_from_code (drop_bit 4 (filter_head f) AND 3)"
    using filter_head_iff [of "filter_head f" "pf_identifier f" "pf_direction f"] wf
    by (simp_all add: filter_wf_def filter_head_def)
  moreover have "packet_filter_identifier_new (filter_head f AND 0x0f) = Ok (pf_identifier f)"
    using head(2) low_nibble_le [of "filter_head f"] by (simp add: packet_filter_identifier_new_def)
  moreover have "consume (cur_offset cur) bud = Ok (bud\<lparr>eb_used := eb_used bud + 1\<rparr>)"
    using R p by (simp add: consume_Ok_iff roomy_def parses_def filter_elements_def max_u64_def)
  moreover have "packet_filter_new (pf_identifier f) (pf_direction f) (pf_precedence f) (pf_components f) = Ok f"
    using v by (cases f) (simp add: packet_filter_new_def)
  moreover have "cur' = \<lparr>cur_input = cur_input cur', cur_offset = cur_offset cur + 3 + length ?contents\<rparr>"
    using p by (simp add: parses_def filter_bytes_def)
  ultimately show ?thesis
    by (simp add: decode_full_filter_def Let_def read_u8_Cons cursor_take_append max_u64_def numeral_3_eq_3)
qed

definition filter_ok :: "packet_filter \<Rightarrow> bool" where
  "filter_ok f \<longleftrightarrow> filter_wf f \<and> filter_validate f = Ok ()"

lemma decode_full_filter_exact:
  "roomy cur bud \<Longrightarrow> decode_full_filter cur bud = Ok (f, cur', bud') \<longleftrightarrow>
     filter_ok f \<and> parses cur bud (filter_bytes f) (filter_elements f) cur' bud'"
  unfolding filter_ok_def using decode_full_filter_reads decode_full_filter_written by metis

lemma decode_filters_exact:
  assumes "roomy cur bud"
  shows "decode_filters n cur bud = Ok (fs, cur', bud') \<longleftrightarrow> length fs = n \<and> list_all filter_ok fs \<and>
    parses cur bud (concat (map filter_bytes fs)) (sum_list (map filter_elements fs)) cur' bud'"
  using assms
proof (induction n arbitrary: cur bud fs)
  case 0
  then show ?case by auto
next
  case (Suc n)
  show ?case
  proof (cases fs)
    case Nil
    then show ?thesis by (auto simp: outcome_simps)
  next
    case (Cons f gs)
    have "decode_filters (Suc n) cur bud = Ok (fs, cur', bud') \<longleftrightarrow>
      (\<exists>cur1 bud1. decode_full_filter cur bud = Ok (f, cur1, bud1) \<and> decode_filters n cur1 bud1 = Ok (gs, cur', bud'))"
      by (auto simp: Cons outcome_simps)
    also have "\<dots> \<longleftrightarrow> filter_ok f \<and> length gs = n \<and> list_all filter_ok gs \<and>
      (\<exists>cur1 bud1. parses cur bud (filter_bytes f) (filter_elements f) cur1 bud1 \<and>
        parses cur1 bud1 (concat (map filter_bytes gs)) (sum_list (map filter_elements gs)) cur' bud')"
      using Suc.IH parses_roomy [OF _ filter_elements_le Suc.prems] decode_full_filter_exact [OF Suc.prems] by blast
    finally show ?thesis unfolding parses_append by (auto simp: Cons)
  qed
qed

section \<open>Parameters\<close>

fun parameter_wf :: "tft_parameter \<Rightarrow> bool" where
  "parameter_wf (AuthorizationToken t) = (token_bytes t \<noteq> [] \<and> length (token_bytes t) \<le> 255)"
| "parameter_wf (FlowIdentifier _) = True"
| "parameter_wf (PacketFilterIdentifiers l) =
     (list_identifiers l \<noteq> [] \<and> length (list_identifiers l) \<le> 255 \<and> list_all identifier_wf (list_identifiers l) \<and>
      validate_unique_identifiers (list_identifiers l) True = Ok ())"
| "parameter_wf (UnknownParameter u) =
     (\<not> (1 \<le> unknown_identifier u \<and> unknown_identifier u \<le> 3) \<and> length (unknown_contents u) \<le> 255)"

fun listed_elements :: "tft_parameter \<Rightarrow> nat" where
  "listed_elements (PacketFilterIdentifiers l) = length (list_identifiers l)"
| "listed_elements _ = 0"

definition parameter_elements :: "tft_parameter \<Rightarrow> nat" where
  "parameter_elements p = 1 + listed_elements p"

definition parameter_bytes :: "tft_parameter \<Rightarrow> bytes" where
  "parameter_bytes p = [parameter_identifier p, word_of_nat (parameter_contents_len p)] @ parameter_contents p"

lemma parameter_contents_length: "length (parameter_contents p) = parameter_contents_len p"
  by (cases p) simp_all

lemma parameter_wf_len: "parameter_wf p \<Longrightarrow> parameter_contents_len p \<le> 255"
  by (cases p) simp_all

lemma listed_elements_le: "listed_elements p \<le> length (parameter_contents p)"
  by (cases p) simp_all

lemma parameter_elements_le: "parameter_elements p \<le> length (parameter_bytes p)"
  using listed_elements_le [of p] by (simp add: parameter_elements_def parameter_bytes_def)

lemma encode_parameters_bytes:
  "list_all parameter_wf ps \<Longrightarrow> encode_parameters ps = Ok (concat (map parameter_bytes ps))"
  by (induction ps) (simp_all add: u8_try_from_def parameter_wf_len parameter_bytes_def)

lemma parameter_identifiers_exact:
  assumes "start + index + length octets \<le> max_u64" "eb_used bud + length octets \<le> max_u64"
    "eb_used bud \<le> eb_limit bud"
  shows "parameter_identifiers start index octets bud = Ok (is, bud') \<longleftrightarrow>
    list_all identifier_wf is \<and> octets = map identifier_value is \<and> eb_used bud + length is \<le> eb_limit bud \<and>
    bud' = bud\<lparr>eb_used := eb_used bud + length is\<rparr>"
  using assms
proof (induction octets arbitrary: index bud "is")
  case Nil
  then show ?case by auto
next
  case (Cons b bs)
  show ?case
  proof (cases "is")
    case Nil
    then show ?thesis by (auto simp: outcome_simps)
  next
    fix i js assume eq: "is = i # js"
    obtain v where i: "i = PacketFilterIdentifier v" by (cases i)
    have "parameter_identifiers start index (b # bs) bud = Ok (is, bud') \<longleftrightarrow>
      identifier_wf i \<and> b = v \<and> eb_used bud + 1 \<le> eb_limit bud \<and>
      parameter_identifiers start (index + 1) bs (bud\<lparr>eb_used := eb_used bud + 1\<rparr>) = Ok (js, bud')"
      using Cons.prems
      by (auto simp: eq i outcome_simps consume_Ok_iff decode_identifier_exact identifier_wf_def)
    also have "\<dots> \<longleftrightarrow> identifier_wf i \<and> b = v \<and> eb_used bud + 1 \<le> eb_limit bud \<and> list_all identifier_wf js \<and>
      bs = map identifier_value js \<and> eb_used bud + 1 + length js \<le> eb_limit bud \<and>
      bud' = bud\<lparr>eb_used := eb_used bud + 1 + length js\<rparr>"
      using Cons.IH [of "index + 1" "bud\<lparr>eb_used := eb_used bud + 1\<rparr>" js] Cons.prems by auto
    finally show ?thesis by (auto simp: eq i)
  qed
qed

lemma parameter_value_exact:
  assumes "length contents \<le> 255" "start + length contents \<le> max_u64" "eb_used bud + length contents \<le> max_u64"
    "eb_used bud \<le> eb_limit bud"
  shows "parameter_value idn contents start bud = Ok (p, bud') \<longleftrightarrow>
    parameter_wf p \<and> parameter_identifier p = idn \<and> parameter_contents p = contents \<and>
    eb_used bud + listed_elements p \<le> eb_limit bud \<and> bud' = bud\<lparr>eb_used := eb_used bud + listed_elements p\<rparr>"
proof (cases p)
  case (AuthorizationToken t)
  then show ?thesis using assms
    by (cases t) (auto simp: parameter_value_def outcome_simps AUTHORIZATION_TOKEN_PARAMETER_def
        FLOW_IDENTIFIER_PARAMETER_def PACKET_FILTER_IDENTIFIER_PARAMETER_def authorization_token_new_def
        validate_parameter_length_def Suc_le_eq split: if_splits)
next
  case (FlowIdentifier fi)
  have "contents = u16_bytes (media_component_number fi) @ u16_bytes (ip_flow_number fi) \<longleftrightarrow>
    length contents = 4 \<and> fi = \<lparr>media_component_number = be16 (contents ! 0) (contents ! 1),
      ip_flow_number = be16 (contents ! 2) (contents ! 3)\<rparr>"
    unfolding octets_iff by (cases fi) (auto simp: length_octets)
  then show ?thesis using assms FlowIdentifier
    by (auto simp: parameter_value_def outcome_simps AUTHORIZATION_TOKEN_PARAMETER_def copy_array_Ok_iff
        FLOW_IDENTIFIER_PARAMETER_def PACKET_FILTER_IDENTIFIER_PARAMETER_def split: if_splits)
next
  case (PacketFilterIdentifiers l)
  obtain "is" where l: "l = IdentifierList is" by (cases l)
  have new: "identifier_list_new js = Ok (IdentifierList is) \<longleftrightarrow> js = is \<and> is \<noteq> [] \<and> length is \<le> 255 \<and>
      validate_unique_identifiers is True = Ok ()" for js
    by (auto simp: identifier_list_new_def outcome_simps validate_parameter_length_def Suc_le_eq)
  show ?thesis using assms PacketFilterIdentifiers parameter_identifiers_exact [of start 0 contents bud]
    by (auto simp: parameter_value_def outcome_simps AUTHORIZATION_TOKEN_PARAMETER_def new l
        FLOW_IDENTIFIER_PARAMETER_def PACKET_FILTER_IDENTIFIER_PARAMETER_def split: if_splits)
next
  case (UnknownParameter u)
  have "1 \<le> idn \<and> idn \<le> 3 \<longleftrightarrow> idn = 1 \<or> idn = 2 \<or> idn = 3"
    by (auto simp: word_le_nat_alt word_unat_eq_iff)
  then show ?thesis using assms UnknownParameter
    by (cases u) (auto simp: parameter_value_def outcome_simps AUTHORIZATION_TOKEN_PARAMETER_def
        FLOW_IDENTIFIER_PARAMETER_def PACKET_FILTER_IDENTIFIER_PARAMETER_def unknown_parameter_new_def
        validate_parameter_length_def split: if_splits)
qed

lemma decode_parameter_reads:
  assumes R: "roomy cur bud" and d: "decode_parameter cur bud = Ok (p, cur', bud')"
  shows "parameter_wf p \<and> parses cur bud (parameter_bytes p) (parameter_elements p) cur' bud'"
proof -
  obtain idn len contents where
    inp: "cur_input cur = [idn, len] @ contents @ cur_input cur'" "length contents = unat len"
      "cur_offset cur' = cur_offset cur + 2 + unat len"
    and u: "eb_used bud + 1 \<le> eb_limit bud"
    and v: "parameter_value idn contents (cur_offset cur + 2) (bud\<lparr>eb_used := eb_used bud + 1\<rparr>) = Ok (p, bud')"
    using d by (auto simp: decode_parameter_def outcome_simps cursor_simps numeral_2_eq_2)
  have room: "length contents \<le> 255" "cur_offset cur + 2 + length contents \<le> max_u64"
    "eb_used bud + 1 + length contents \<le> max_u64"
    using R inp by (simp_all add: roomy_def max_u64_def)
  have p: "parameter_wf p \<and> parameter_identifier p = idn \<and> parameter_contents p = contents \<and>
      eb_used bud + 1 + listed_elements p \<le> eb_limit bud \<and> bud' = bud\<lparr>eb_used := eb_used bud + 1 + listed_elements p\<rparr>"
    using parameter_value_exact [of contents "cur_offset cur + 2" "bud\<lparr>eb_used := eb_used bud + 1\<rparr>" idn p bud'] v room u
    by simp
  then have "parameter_contents_len p = unat len" using inp(2) parameter_contents_length by metis
  then have len: "len = word_of_nat (parameter_contents_len p)" by (rule word_of_nat_unat [THEN sym])
  have "parameter_bytes p = [idn, len] @ contents"
    unfolding parameter_bytes_def len [symmetric] using p by simp
  then show ?thesis using p inp by (simp add: parses_def parameter_elements_def)
qed

lemma decode_parameter_written:
  assumes R: "roomy cur bud" and wf: "parameter_wf p"
    and p: "parses cur bud (parameter_bytes p) (parameter_elements p) cur' bud'"
  shows "decode_parameter cur bud = Ok (p, cur', bud')"
proof -
  have unat: "unat (word_of_nat (parameter_contents_len p) :: u8) = length (parameter_contents p)"
    using parameter_wf_len [OF wf] by (simp add: unat_of_nat8 parameter_contents_length)
  have inp: "cur_input cur =
      parameter_identifier p # word_of_nat (parameter_contents_len p) # parameter_contents p @ cur_input cur'"
    using p by (simp add: parses_def parameter_bytes_def)
  have room: "cur_offset cur + 2 + length (parameter_contents p) \<le> 255" "eb_used bud \<le> cur_offset cur"
    "eb_used bud + 1 \<le> eb_limit bud" "length (parameter_contents p) \<le> 255"
    using R inp p by (simp_all add: roomy_def parses_def parameter_elements_def)
  have "parameter_value (parameter_identifier p) (parameter_contents p) (cur_offset cur + 2)
      (bud\<lparr>eb_used := eb_used bud + 1\<rparr>) = Ok (p, bud')"
    using room wf p by (subst parameter_value_exact) (auto simp: max_u64_def parses_def parameter_elements_def)
  moreover have "consume (cur_offset cur) bud = Ok (bud\<lparr>eb_used := eb_used bud + 1\<rparr>)"
    using room by (simp add: consume_Ok_iff max_u64_def)
  moreover have "cur' = \<lparr>cur_input = cur_input cur', cur_offset = cur_offset cur + 2 + length (parameter_contents p)\<rparr>"
    using p by (simp add: parses_def parameter_bytes_def)
  ultimately show ?thesis
    using inp room unat
    by (simp add: decode_parameter_def read_u8_Cons cursor_take_append max_u64_def add_2_eq_Suc')
qed

lemma decode_parameter_exact:
  "roomy cur bud \<Longrightarrow> decode_parameter cur bud = Ok (p, cur', bud') \<longleftrightarrow>
     parameter_wf p \<and> parses cur bud (parameter_bytes p) (parameter_elements p) cur' bud'"
  using decode_parameter_reads decode_parameter_written by metis

lemma decode_parameters_exact:
  assumes "roomy cur bud"
  shows "decode_parameters cur bud = Ok (ps, bud') \<longleftrightarrow> list_all parameter_wf ps \<and>
    cur_input cur = concat (map parameter_bytes ps) \<and>
    eb_used bud + sum_list (map parameter_elements ps) \<le> eb_limit bud \<and>
    bud' = bud\<lparr>eb_used := eb_used bud + sum_list (map parameter_elements ps)\<rparr>"
  using assms
proof (induction ps arbitrary: cur bud)
  case Nil
  then show ?case
    by (subst decode_parameters.simps) (auto simp: outcome_simps roomy_def)
next
  case (Cons p ps)
  have "decode_parameters cur bud = Ok (p # ps, bud') \<longleftrightarrow>
    (\<exists>cur1 bud1. decode_parameter cur bud = Ok (p, cur1, bud1) \<and> decode_parameters cur1 bud1 = Ok (ps, bud'))"
    by (subst decode_parameters.simps) (auto simp: outcome_simps dest: decode_parameter_shorter)
  also have "\<dots> \<longleftrightarrow> parameter_wf p \<and> list_all parameter_wf ps \<and>
    (\<exists>cur1 bud1. parses cur bud (parameter_bytes p) (parameter_elements p) cur1 bud1 \<and>
      cur_input cur1 = concat (map parameter_bytes ps) \<and>
      eb_used bud1 + sum_list (map parameter_elements ps) \<le> eb_limit bud1 \<and>
      bud' = bud1\<lparr>eb_used := eb_used bud1 + sum_list (map parameter_elements ps)\<rparr>)"
    using Cons.IH parses_roomy [OF _ parameter_elements_le Cons.prems] decode_parameter_exact [OF Cons.prems] by blast
  also have "\<dots> \<longleftrightarrow> list_all parameter_wf (p # ps) \<and> cur_input cur = concat (map parameter_bytes (p # ps)) \<and>
    eb_used bud + sum_list (map parameter_elements (p # ps)) \<le> eb_limit bud \<and>
    bud' = bud\<lparr>eb_used := eb_used bud + sum_list (map parameter_elements (p # ps))\<rparr>"
    by (auto simp: parses_def add.assoc intro!: exI [of _ "\<lparr>cur_input = concat (map parameter_bytes ps),
      cur_offset = cur_offset cur + length (parameter_bytes p)\<rparr>"])
  finally show ?case .
qed

section \<open>Templates\<close>

fun list_bytes :: "packet_filter_list \<Rightarrow> bytes" where
  "list_bytes NoFilters = []"
| "list_bytes (Identifiers is) = map identifier_value is"
| "list_bytes (Filters fs) = concat (map filter_bytes fs)"

fun list_elements :: "packet_filter_list \<Rightarrow> nat" where
  "list_elements NoFilters = 0"
| "list_elements (Identifiers is) = length is"
| "list_elements (Filters fs) = sum_list (map filter_elements fs)"

fun list_wf :: "packet_filter_list \<Rightarrow> bool" where
  "list_wf NoFilters = True"
| "list_wf (Identifiers is) = list_all identifier_wf is"
| "list_wf (Filters fs) = list_all filter_wf fs"

fun list_valid :: "packet_filter_list \<Rightarrow> bool" where
  "list_valid (Filters fs) = list_all (\<lambda>f. filter_validate f = Ok ()) fs"
| "list_valid _ = True"

text \<open>The form of the list an operation carries, with its count.\<close>

definition list_form :: "tft_operation \<Rightarrow> packet_filter_list \<Rightarrow> bool" where
  "list_form op l \<longleftrightarrow>
     (case l of
        NoFilters \<Rightarrow> op \<in> {IgnoreIe, DeleteExisting, NoOperation}
      | Identifiers is \<Rightarrow> op = DeletePacketFilters \<and> 1 \<le> length is \<and> length is \<le> 15
      | Filters fs \<Rightarrow> op \<in> {CreateNew, AddPacketFilters, ReplacePacketFilters} \<and> 1 \<le> length fs \<and> length fs \<le> 15)"

definition tft_wf :: "traffic_flow_template \<Rightarrow> bool" where
  "tft_wf t \<longleftrightarrow> list_wf (tft_filters t) \<and> list_all parameter_wf (tft_parameters t)"

definition tft_bytes :: "traffic_flow_template \<Rightarrow> bytes" where
  "tft_bytes t =
     [operation_octet t (word_of_nat (filter_list_len (tft_filters t)))] @ list_bytes (tft_filters t)
       @ concat (map parameter_bytes (tft_parameters t)) @ tft_ignored t"

definition tft_elements :: "traffic_flow_template \<Rightarrow> nat" where
  "tft_elements t = list_elements (tft_filters t) + sum_list (map parameter_elements (tft_parameters t))"

lemma list_elements_le: "list_elements l \<le> length (list_bytes l)"
proof (cases l)
  case (Filters fs)
  have "sum_list (map filter_elements fs) \<le> length (concat (map filter_bytes fs))"
    by (induction fs) (auto intro: add_mono filter_elements_le)
  then show ?thesis by (simp add: Filters)
qed simp_all

lemma parameters_elements_le: "sum_list (map parameter_elements ps) \<le> length (concat (map parameter_bytes ps))"
  by (induction ps) (auto intro: add_mono parameter_elements_le)

lemma tft_elements_less: "tft_elements t < length (tft_bytes t)"
  using list_elements_le [of "tft_filters t"] parameters_elements_le [of "tft_parameters t"]
  by (simp add: tft_elements_def tft_bytes_def)

lemma validate_filters_iff: "validate_filters fs = Ok () \<longleftrightarrow> list_all (\<lambda>f. filter_validate f = Ok ()) fs"
  by (induction fs) (auto simp: outcome_simps)

lemma validate_operation_shape:
  "validate_operation t = Ok () \<Longrightarrow> list_form (tft_op t) (tft_filters t) \<and>
     (if tft_op t = IgnoreIe then tft_parameters t = [] else tft_ignored t = [])"
  by (auto simp: validate_operation_def list_form_def validate_filter_count_def TFT_MAX_PACKET_FILTERS_def
      outcome_simps split: tft_operation.splits packet_filter_list.splits if_splits)

lemma filters_len_Ok:
  "filters_len n fs = Ok m \<Longrightarrow> list_all filter_wf fs \<Longrightarrow> m = n + length (concat (map filter_bytes fs))"
proof (induction fs arbitrary: n)
  case (Cons f fs)
  from Cons.prems show ?case
    by (auto simp: outcome_simps filter_contents_len_iff filter_bytes_length bind_eq_Some_conv dest!: Cons.IH)
qed simp

lemma parameters_len_Ok:
  "parameters_len n ps = Ok m \<Longrightarrow> m = n + length (concat (map parameter_bytes ps))"
proof (induction ps arbitrary: n)
  case (Cons p ps)
  from Cons.prems show ?case
    by (auto simp: outcome_simps bind_eq_Some_conv parameter_bytes_def parameter_contents_length dest!: Cons.IH)
qed simp

lemma encoded_len_bytes:
  "encoded_value_len_internal t = Ok n \<Longrightarrow> tft_wf t \<Longrightarrow> n = length (tft_bytes t)"
  by (auto simp: encoded_value_len_internal_def outcome_simps tft_wf_def tft_bytes_def TFT_MIN_VALUE_LEN_def
      split: packet_filter_list.splits dest!: filters_len_Ok parameters_len_Ok)

lemma tft_validate_facts:
  assumes "tft_validate t = Ok ()" "tft_wf t"
  shows "list_form (tft_op t) (tft_filters t)" "list_valid (tft_filters t)"
    "if tft_op t = IgnoreIe then tft_parameters t = [] else tft_ignored t = []"
    "encoded_value_len_internal t = Ok (length (tft_bytes t))" "length (tft_bytes t) \<le> 255"
proof -
  obtain n where n: "encoded_value_len_internal t = Ok n" "n \<le> 255" and op: "validate_operation t = Ok ()"
    and fs: "(case tft_filters t of Filters fs \<Rightarrow> validate_filters fs | _ \<Rightarrow> Ok ()) = Ok ()"
    using assms(1) by (auto simp: tft_validate_def outcome_simps TFT_MAX_VALUE_LEN_def)
  from fs show "list_valid (tft_filters t)" by (cases "tft_filters t") (simp_all add: validate_filters_iff)
  show "list_form (tft_op t) (tft_filters t)"
    "if tft_op t = IgnoreIe then tft_parameters t = [] else tft_ignored t = []"
    using validate_operation_shape [OF op] by simp_all
  show "encoded_value_len_internal t = Ok (length (tft_bytes t))" "length (tft_bytes t) \<le> 255"
    using n encoded_len_bytes [OF n(1) assms(2)] by simp_all
qed

lemma encode_inner_bytes:
  assumes "tft_validate t = Ok ()" "tft_wf t"
  shows "encode_value_inner t = Ok (tft_bytes t)"
proof -
  note v = tft_validate_facts [OF assms]
  have "filter_list_len (tft_filters t) \<le> 15"
    using v(1) by (cases "tft_filters t") (simp_all add: list_form_def)
  moreover have "(case tft_filters t of NoFilters \<Rightarrow> Ok [] | Identifiers is \<Rightarrow> Ok (map identifier_value is)
      | Filters fs \<Rightarrow> encode_filters fs) = Ok (list_bytes (tft_filters t))"
    using v(2) by (cases "tft_filters t") (simp_all add: encode_filters_bytes)
  moreover have "encode_parameters (tft_parameters t) = Ok (concat (map parameter_bytes (tft_parameters t)))"
    using assms(2) by (simp add: tft_wf_def encode_parameters_bytes)
  ultimately show ?thesis by (simp add: encode_value_inner_def u8_try_from_def tft_bytes_def)
qed

lemma encode_value_bytes:
  assumes "tft_wf t"
  shows "encode_value t dst = Ok w \<longleftrightarrow> tft_validate t = Ok () \<and> w = dst @ tft_bytes t"
  using encode_inner_bytes [OF _ assms] tft_validate_facts(4) [OF _ assms]
  by (auto simp: encode_value_def outcome_simps)

section \<open>The operation octet\<close>

lemma operation_from_code_iff: "operation_from_code c = Ok op \<longleftrightarrow> c = operation_code op"
proof
  show "operation_from_code c = Ok op \<Longrightarrow> c = operation_code op"
    by (auto simp: operation_from_code_def split: if_splits)
  show "c = operation_code op \<Longrightarrow> operation_from_code c = Ok op"
    by (cases op) (simp_all add: operation_from_code_def)
qed

lemma octet_beyond: "8 \<le> n \<Longrightarrow> \<not> bit (w :: u8) n"
  using bit_imp_le_length [of w n] by auto

lemma operation_octet_iff:
  "drop_bit 5 octet = operation_code op \<and> (octet AND 0x10 \<noteq> 0) = present \<and> octet AND 0x0f = count \<longleftrightarrow>
     count \<le> 15 \<and> octet = (push_bit 5 (operation_code op) OR (if present then 0x10 else 0)) OR (count :: u8)"
proof
  assume "drop_bit 5 octet = operation_code op \<and> (octet AND 0x10 \<noteq> 0) = present \<and> octet AND 0x0f = count"
  then have eq: "operation_code op = drop_bit 5 octet" "present = (octet AND 0x10 \<noteq> 0)" "count = octet AND 0x0f" by auto
  show "count \<le> 15 \<and> octet = (push_bit 5 (operation_code op) OR (if present then 0x10 else 0)) OR count"
    unfolding eq spare_nibble [symmetric] by (auto simp: octet_bits)
next
  have code: "operation_code op \<le> 7" by (cases op) simp_all
  assume "count \<le> 15 \<and> octet = (push_bit 5 (operation_code op) OR (if present then 0x10 else 0)) OR count"
  then have count: "count \<le> 15"
    and octet: "octet = (push_bit 5 (operation_code op) OR (if present then 0x10 else 0)) OR count" by simp_all
  have "\<not> bit count 4 \<and> \<not> bit count 5 \<and> \<not> bit count 6 \<and> \<not> bit count 7"
    using count unfolding spare_nibble [symmetric] by (simp add: octet_bits)
  then show "drop_bit 5 octet = operation_code op \<and> (octet AND 0x10 \<noteq> 0) = present \<and> octet AND 0x0f = count"
    using code unfolding le_7_bits octet by (simp add: octet_bits octet_beyond)
qed

lemma filter_list_exact:
  assumes R: "roomy cur bud" and op: "op \<noteq> IgnoreIe"
  shows "decode_filter_list op count cur bud = Ok (l, cur', bud') \<longleftrightarrow>
    list_form op l \<and> filter_list_len l = count \<and> list_wf l \<and> list_valid l \<and>
    parses cur bud (list_bytes l) (list_elements l) cur' bud'"
proof (cases l)
  case NoFilters
  then show ?thesis using R op
    by (cases op) (auto simp: decode_filter_list_def list_form_def outcome_simps)
next
  case (Filters fs)
  have "list_all filter_ok fs \<longleftrightarrow> list_all filter_wf fs \<and> list_all (\<lambda>f. filter_validate f = Ok ()) fs"
    by (auto simp: filter_ok_def list_all_iff)
  then show ?thesis using Filters op decode_filters_exact [OF R]
    by (cases op) (auto simp: decode_filter_list_def list_form_def outcome_simps validate_wire_filter_count_def)
next
  case (Identifiers "is")
  then show ?thesis using op decode_identifiers_exact [OF R]
    by (cases op) (auto simp: decode_filter_list_def list_form_def outcome_simps validate_wire_filter_count_def)
qed

lemma parameter_list_exact:
  assumes "roomy cur bud"
  shows "decode_parameter_list present cur bud = Ok ps \<longleftrightarrow>
    present = (ps \<noteq> []) \<and> list_all parameter_wf ps \<and> cur_input cur = concat (map parameter_bytes ps) \<and>
    eb_used bud + sum_list (map parameter_elements ps) \<le> eb_limit bud"
proof -
  have "concat (map parameter_bytes ps) = [] \<longleftrightarrow> ps = []" by (cases ps) (simp_all add: parameter_bytes_def)
  then show ?thesis
    using assms by (auto simp: decode_parameter_list_def outcome_simps decode_parameters_exact roomy_def)
qed

section \<open>Exactness of the decoder\<close>

text \<open>What follows the operation octet of a template that is not an ignored one.\<close>

definition tail_of :: "traffic_flow_template \<Rightarrow> bytes" where
  "tail_of t = list_bytes (tft_filters t) @ concat (map parameter_bytes (tft_parameters t)) @ tft_ignored t"

lemma tft_bytes_Cons:
  "tft_bytes t = operation_octet t (word_of_nat (filter_list_len (tft_filters t))) # tail_of t"
  by (simp add: tft_bytes_def tail_of_def)

lemma tft_new_iff:
  "tft_new op l ps = Ok t \<longleftrightarrow>
     tft_op t = op \<and> tft_filters t = l \<and> tft_parameters t = ps \<and> tft_ignored t = [] \<and> tft_validate t = Ok ()"
  by (cases t) (auto simp: tft_new_def Let_def outcome_simps)

lemma ignore_with_contents_iff:
  "ignore_with_contents b = Ok t \<longleftrightarrow>
     tft_op t = IgnoreIe \<and> tft_filters t = NoFilters \<and> tft_parameters t = [] \<and> tft_ignored t = b \<and>
     tft_validate t = Ok ()"
  by (cases t) (auto simp: ignore_with_contents_def Let_def outcome_simps)

text \<open>The two lists are read one after the other, from the octet after the header.\<close>

lemma lists_exact:
  assumes "length rest \<le> 254" "op \<noteq> IgnoreIe"
  shows "(\<exists>cur bud. decode_filter_list op count \<lparr>cur_input = rest, cur_offset = 1\<rparr> (element_budget_new limit) = Ok (l, cur, bud) \<and>
            decode_parameter_list present cur bud = Ok ps) \<longleftrightarrow>
     list_form op l \<and> filter_list_len l = count \<and> list_wf l \<and> list_valid l \<and> present = (ps \<noteq> []) \<and>
     list_all parameter_wf ps \<and> rest = list_bytes l @ concat (map parameter_bytes ps) \<and>
     list_elements l + sum_list (map parameter_elements ps) \<le> limit"
proof -
  let ?cur = "\<lparr>cur_input = rest, cur_offset = 1\<rparr>" and ?bud = "element_budget_new limit"
  have R: "roomy ?cur ?bud" using assms by (simp add: roomy_def element_budget_new_def)
  have next_roomy: "roomy cur bud" if "parses ?cur ?bud (list_bytes l) (list_elements l) cur bud" for cur bud
    using that assms list_elements_le [of l] by (auto simp: parses_def roomy_def element_budget_new_def)
  have "(\<exists>cur bud. parses ?cur ?bud (list_bytes l) (list_elements l) cur bud \<and>
          decode_parameter_list present cur bud = Ok ps) \<longleftrightarrow>
     (\<exists>cur bud. parses ?cur ?bud (list_bytes l) (list_elements l) cur bud \<and> present = (ps \<noteq> []) \<and>
          list_all parameter_wf ps \<and> cur_input cur = concat (map parameter_bytes ps) \<and>
          eb_used bud + sum_list (map parameter_elements ps) \<le> eb_limit bud)"
    using parameter_list_exact [OF next_roomy] by (intro ex_cong1 conj_cong refl)
  also have "\<dots> \<longleftrightarrow> present = (ps \<noteq> []) \<and> list_all parameter_wf ps \<and>
      rest = list_bytes l @ concat (map parameter_bytes ps) \<and>
      list_elements l + sum_list (map parameter_elements ps) \<le> limit"
    by (auto simp: parses_def element_budget_new_def
        intro!: exI [of _ "\<lparr>cur_input = concat (map parameter_bytes ps), cur_offset = 1 + length (list_bytes l)\<rparr>"])
  finally have tail: "(\<exists>cur bud. parses ?cur ?bud (list_bytes l) (list_elements l) cur bud \<and>
      decode_parameter_list present cur bud = Ok ps) \<longleftrightarrow> \<dots>" .
  show ?thesis unfolding filter_list_exact [OF R assms(2)] conj_assoc ex_simps tail ..
qed

lemma decode_header:
  assumes "length rest \<le> 254"
  shows "decode_value_with_context (octet # rest) ctx = Ok t \<longleftrightarrow>
     length (octet # rest) \<le> dc_max_message_len ctx \<and>
     (\<exists>op. drop_bit 5 octet = operation_code op \<and>
        (if op = IgnoreIe then octet AND 0x10 = 0 \<and> octet AND 0x0f = 0 \<and> ignore_with_contents rest = Ok t
         else \<exists>l cur bud. decode_filter_list op (unat (octet AND 0x0f)) \<lparr>cur_input = rest, cur_offset = 1\<rparr>
              (element_budget_new (dc_max_ies ctx)) = Ok (l, cur, bud) \<and>
            (\<exists>ps. decode_parameter_list (octet AND 0x10 \<noteq> 0) cur bud = Ok ps \<and> tft_new op l ps = Ok t)))"
proof -
  have "read_u8 field (cursor_new (octet # rest)) = Ok (octet, \<lparr>cur_input = rest, cur_offset = 1\<rparr>)" for field
    by (simp add: cursor_new_def cursor_simps outcome_simps max_u64_def)
  moreover have "cursor_take (length rest) field \<lparr>cur_input = rest, cur_offset = 1\<rparr> =
      Ok (rest, \<lparr>cur_input = [], cur_offset = 1 + length rest\<rparr>)" for field
    using assms by (simp add: cursor_simps outcome_simps max_u64_def)
  ultimately show ?thesis using assms
    by (cases "octet AND 0x10 = 0"; cases "octet AND 0x0f = 0")
      (simp_all add: decode_value_with_context_def TFT_MAX_VALUE_LEN_def TFT_MIN_VALUE_LEN_def outcome_simps Let_def
        operation_from_code_iff unat_gt_0 not_less split_paired_Ex cong: conj_cong)
qed

text \<open>The operation octet together with the two lists is the template.\<close>

lemma template_body:
  assumes len: "length rest \<le> 254"
  shows "(drop_bit 5 octet = operation_code (tft_op t) \<and>
    (if tft_op t = IgnoreIe
     then octet AND 0x10 = 0 \<and> octet AND 0x0f = 0 \<and> ignore_with_contents rest = Ok t
     else tft_validate t = Ok () \<and> tft_ignored t = [] \<and>
      (\<exists>cur bud. decode_filter_list (tft_op t) (unat (octet AND 0x0f)) \<lparr>cur_input = rest, cur_offset = 1\<rparr>
         (element_budget_new limit) = Ok (tft_filters t, cur, bud) \<and>
         decode_parameter_list (octet AND 0x10 \<noteq> 0) cur bud = Ok (tft_parameters t)))) \<longleftrightarrow>
    tft_wf t \<and> tft_validate t = Ok () \<and> octet # rest = tft_bytes t \<and> tft_elements t \<le> limit"
proof -
  let ?n = "filter_list_len (tft_filters t)"
  have octet: "octet = operation_octet t (word_of_nat ?n) \<longleftrightarrow>
      drop_bit 5 octet = operation_code (tft_op t) \<and> (octet AND 0x10 \<noteq> 0) = (tft_parameters t \<noteq> []) \<and>
      octet AND 0x0f = word_of_nat ?n" if "?n \<le> 15"
  proof -
    have "(word_of_nat ?n :: u8) \<le> 15" using that by (simp add: word_le_nat_alt unat_of_nat)
    then show ?thesis unfolding operation_octet_def operation_octet_iff by blast
  qed
  have count: "?n = unat (octet AND 0x0f) \<longleftrightarrow> octet AND 0x0f = word_of_nat ?n" if "?n \<le> 15"
    using that by (auto simp: word_unat_eq_iff unat_of_nat)
  show ?thesis
  proof (cases "tft_op t = IgnoreIe")
    case True
    have shape: "tft_filters t = NoFilters \<and> tft_parameters t = []" if "tft_wf t" "tft_validate t = Ok ()"
      using tft_validate_facts(1,3) [OF that(2,1)] True by (auto simp: list_form_def split: packet_filter_list.splits)
    show ?thesis
    proof (cases "tft_filters t = NoFilters \<and> tft_parameters t = []")
      case shape: True
      then show ?thesis using True octet
        by (auto simp: ignore_with_contents_iff tft_bytes_Cons tail_of_def tft_wf_def tft_elements_def)
    qed (use True shape in \<open>auto simp: ignore_with_contents_iff\<close>)
  next
    case False
    have form: "tft_ignored t = [] \<and> list_form (tft_op t) (tft_filters t) \<and> list_valid (tft_filters t)"
      if "tft_wf t" "tft_validate t = Ok ()"
      using tft_validate_facts(1-3) [OF that(2,1)] False by simp
    show ?thesis
    proof (cases "list_form (tft_op t) (tft_filters t)")
      case True
      then have "?n \<le> 15" by (cases "tft_filters t") (simp_all add: list_form_def)
      then show ?thesis
        unfolding tft_bytes_Cons list.inject octet [OF \<open>?n \<le> 15\<close>] lists_exact [OF len False]
          count [OF \<open>?n \<le> 15\<close>]
        using False form True by (auto simp: tail_of_def tft_wf_def tft_elements_def)
    next
      case no_form: False
      then show ?thesis unfolding lists_exact [OF len False] using False form by auto
    qed
  qed
qed

lemma decode_context_bytes:
  "decode_value_with_context input ctx = Ok t \<longleftrightarrow>
     tft_wf t \<and> tft_validate t = Ok () \<and> input = tft_bytes t \<and> length input \<le> dc_max_message_len ctx \<and>
     tft_elements t \<le> dc_max_ies ctx"
proof (cases "length input \<in> {1..255}")
  case False
  have "length (tft_bytes t) \<in> {1..255}" if "tft_validate t = Ok ()" "tft_wf t"
    using tft_validate_facts(5) [OF that] by (simp add: tft_bytes_def)
  moreover have "decode_value_with_context input ctx \<noteq> Ok t"
    using False by (auto simp: decode_value_with_context_def TFT_MIN_VALUE_LEN_def TFT_MAX_VALUE_LEN_def outcome_simps)
  ultimately show ?thesis using False by blast
next
  case True
  then obtain octet rest where input: "input = octet # rest" and len: "length rest \<le> 254"
    by (cases input) auto
  let ?body = "if tft_op t = IgnoreIe
    then octet AND 0x10 = 0 \<and> octet AND 0x0f = 0 \<and> ignore_with_contents rest = Ok t
    else tft_validate t = Ok () \<and> tft_ignored t = [] \<and>
      (\<exists>cur bud. decode_filter_list (tft_op t) (unat (octet AND 0x0f)) \<lparr>cur_input = rest, cur_offset = 1\<rparr>
         (element_budget_new (dc_max_ies ctx)) = Ok (tft_filters t, cur, bud) \<and>
         decode_parameter_list (octet AND 0x10 \<noteq> 0) cur bud = Ok (tft_parameters t))"
  have "decode_value_with_context input ctx = Ok t \<longleftrightarrow>
      length input \<le> dc_max_message_len ctx \<and> drop_bit 5 octet = operation_code (tft_op t) \<and> ?body"
    unfolding input decode_header [OF len] tft_new_iff ignore_with_contents_iff by (auto split: if_splits)
  also have "drop_bit 5 octet = operation_code (tft_op t) \<and> ?body \<longleftrightarrow>
      tft_wf t \<and> tft_validate t = Ok () \<and> input = tft_bytes t \<and> tft_elements t \<le> dc_max_ies ctx"
    unfolding input using template_body [OF len] by simp
  finally show ?thesis by blast
qed

lemma decode_value_bytes: "decode_value w = Ok t \<longleftrightarrow> tft_wf t \<and> tft_validate t = Ok () \<and> w = tft_bytes t"
  using tft_elements_less [of t] tft_validate_facts(5) [of t]
  by (auto simp: decode_value_def decode_context_bytes TFT_MAX_VALUE_LEN_def)

text \<open>A template behind the private fields of the source keeps the laws of a datagram codec.\<close>

interpretation tft_codec: datagram_codec "\<lambda>t. encode_value t []" decode_value "\<lambda>t. tft_wf t \<and> tft_validate t = Ok ()"
  by unfold_locales (auto simp: encode_value_bytes decode_value_bytes)

end
