(* ===== verification/Tft_Filters.thy ===== *)
theory Tft_Filters
  imports Tft_Roundtrip
begin

text \<open>
  The validation loop of a packet filter against a pairwise specification of its components, and the
  properties of the traffic flow template codec (\<^verbatim>\<open>crates/opc-proto-tft\<close>): exactness, the limits of a
  decoding context, and the codec traits.
\<close>

section \<open>Which components may stand together\<close>

datatype exclusive = RemoteAddress | LocalAddress | LocalPort | RemotePort

fun exclusive_class :: "component_kind \<Rightarrow> exclusive option" where
  "exclusive_class KIpv4RemoteAddress = Some RemoteAddress"
| "exclusive_class KIpv6RemoteAddress = Some RemoteAddress"
| "exclusive_class KIpv6RemoteAddressPrefix = Some RemoteAddress"
| "exclusive_class KIpv4LocalAddress = Some LocalAddress"
| "exclusive_class KIpv6LocalAddressPrefix = Some LocalAddress"
| "exclusive_class KSingleLocalPort = Some LocalPort"
| "exclusive_class KLocalPortRange = Some LocalPort"
| "exclusive_class KSingleRemotePort = Some RemotePort"
| "exclusive_class KRemotePortRange = Some RemotePort"
| "exclusive_class _ = None"

definition is_port :: "component_kind \<Rightarrow> bool" where
  "is_port k \<longleftrightarrow> exclusive_class k \<in> {Some LocalPort, Some RemotePort}"

text \<open>The kinds that fix the IP version, and those of the link layer, which need no IP packet.\<close>

definition v4_kinds :: "component_kind set" where
  "v4_kinds = {KIpv4RemoteAddress, KIpv4LocalAddress}"

definition v6_kinds :: "component_kind set" where
  "v6_kinds = {KIpv6RemoteAddress, KIpv6RemoteAddressPrefix, KIpv6LocalAddressPrefix, KFlowLabel}"

definition link_kinds :: "component_kind set" where
  "link_kinds = {KDestinationMacAddress, KSourceMacAddress, KCustomerVlanId, KServiceVlanId,
     KCustomerVlanPriority, KServiceVlanPriority, KEtherType}"

text \<open>What the loop rejects when it meets two components in either order.\<close>

definition loop_clash :: "component_kind \<Rightarrow> component_kind \<Rightarrow> bool" where
  "loop_clash j k \<longleftrightarrow>
     j = k \<or>
     (j \<in> v4_kinds \<and> k \<in> v6_kinds) \<or> (j \<in> v6_kinds \<and> k \<in> v4_kinds) \<or>
     (exclusive_class j \<noteq> None \<and> exclusive_class j = exclusive_class k)"

text \<open>What the checks after the loop reject: the first component excludes the second.\<close>

definition excludes :: "component \<Rightarrow> component_kind \<Rightarrow> bool" where
  "excludes c k \<longleftrightarrow>
     (kind_of c = KSecurityParameterIndex \<and> is_port k) \<or>
     (kind_of c = KFlowLabel \<and> (is_port k \<or> k \<in> {KProtocolIdentifierNextHeader, KSecurityParameterIndex})) \<or>
     (case c of
        EtherType v \<Rightarrow>
          if v = 0x0800 then k \<in> v6_kinds
          else if v = 0x86dd then k \<in> v4_kinds
          else k \<notin> link_kinds
      | _ \<Rightarrow> False)"

definition compatible :: "component \<Rightarrow> component \<Rightarrow> bool" where
  "compatible c d \<longleftrightarrow>
     \<not> loop_clash (kind_of c) (kind_of d) \<and> \<not> excludes c (kind_of d) \<and> \<not> excludes d (kind_of c)"

section \<open>The validation loop\<close>

lemma kind_family_iff: "kind_family k = Some V4 \<longleftrightarrow> k \<in> v4_kinds" "kind_family k = Some V6 \<longleftrightarrow> k \<in> v6_kinds"
  by (cases k; simp add: v4_kinds_def v6_kinds_def)+

lemma is_ip_component_iff: "is_ip_component k \<longleftrightarrow> k \<notin> link_kinds"
  by (cases k; simp add: is_ip_component_def link_kinds_def)

lemma family_clash_iff:
  "kind_family j \<noteq> None \<and> kind_family k \<noteq> None \<and> kind_family j \<noteq> kind_family k \<longleftrightarrow>
     (j \<in> v4_kinds \<and> k \<in> v6_kinds) \<or> (j \<in> v6_kinds \<and> k \<in> v4_kinds)"
proof -
  have "x \<noteq> None \<longleftrightarrow> x = Some V4 \<or> x = Some V6" for x by (cases x) (auto intro: ip_family.exhaust)
  then show ?thesis unfolding kind_family_iff [symmetric] by auto
qed

text \<open>One step of the loop, field by field.\<close>

definition mark :: "bool \<Rightarrow> 'a \<Rightarrow> 'a option \<Rightarrow> 'a option" where
  "mark b x slot = (if b \<and> slot = None then Some x else slot)"

definition family_ok :: "component_kind \<Rightarrow> filter_scan \<Rightarrow> bool" where
  "family_ok k s \<longleftrightarrow>
     kind_family k = None \<or> sc_ip_family s = None \<or> kind_family k = map_option fst (sc_ip_family s)"

definition family_mark :: "component_kind \<Rightarrow> filter_scan \<Rightarrow> (ip_family \<times> u8) option" where
  "family_mark k s =
     (case kind_family k of None \<Rightarrow> sc_ip_family s | Some fam \<Rightarrow> mark True (fam, type_code k) (sc_ip_family s))"

definition class_ok :: "component_kind \<Rightarrow> filter_scan \<Rightarrow> bool" where
  "class_ok k s \<longleftrightarrow>
     (case exclusive_class k of
        None \<Rightarrow> True
      | Some RemoteAddress \<Rightarrow> sc_remote_address s = None
      | Some LocalAddress \<Rightarrow> sc_local_address s = None
      | Some LocalPort \<Rightarrow> sc_local_port s = None
      | Some RemotePort \<Rightarrow> sc_remote_port s = None)"

definition class_marks :: "component \<Rightarrow> filter_scan \<Rightarrow> filter_scan" where
  "class_marks c s =
     (let k = kind_of c; code = type_code k in
      s\<lparr>sc_remote_address := mark (exclusive_class k = Some RemoteAddress) code (sc_remote_address s),
        sc_local_address := mark (exclusive_class k = Some LocalAddress) code (sc_local_address s),
        sc_local_port := mark (exclusive_class k = Some LocalPort) code (sc_local_port s),
        sc_remote_port := mark (exclusive_class k = Some RemotePort) code (sc_remote_port s),
        sc_protocol := (if k = KProtocolIdentifierNextHeader then Some code else sc_protocol s),
        sc_any_port := mark (is_port k) code (sc_any_port s),
        sc_spi := (if k = KSecurityParameterIndex then Some code else sc_spi s),
        sc_flow_label := (if k = KFlowLabel then Some code else sc_flow_label s),
        sc_ether_type := (case c of EtherType v \<Rightarrow> Some (v, code) | _ \<Rightarrow> sc_ether_type s)\<rparr>)"

lemma type_code_256: "unat (type_code k) < 256"
  using unsigned_less [of "type_code k"] by simp

lemma scan_family_eq: "scan_family k s = Ok s' \<longleftrightarrow> family_ok k s \<and> s' = s\<lparr>sc_ip_family := family_mark k s\<rparr>"
  by (auto simp: scan_family_def family_ok_def family_mark_def mark_def conflicting_def split: option.splits)

lemma set_exclusive_eq: "set_exclusive slot code = Ok slot' \<longleftrightarrow> slot = None \<and> slot' = Some code"
  by (auto simp: set_exclusive_def conflicting_def split: option.splits)

lemma scan_marks_eq: "scan_marks c s = Ok s' \<longleftrightarrow> class_ok (kind_of c) s \<and> s' = class_marks c s"
  by (cases c)
    (auto simp: scan_marks_def class_ok_def class_marks_def is_port_def mark_def get_or_insert_def outcome_simps
      set_exclusive_eq Let_def split: option.splits)

lemma scan_component_eq:
  assumes "length (sc_seen s) = 256"
  shows "scan_component c s = Ok s' \<longleftrightarrow>
    \<not> sc_seen s ! unat (type_code (kind_of c)) \<and> family_ok (kind_of c) s \<and> class_ok (kind_of c) s \<and>
    s' = class_marks c (s\<lparr>sc_seen := (sc_seen s)[unat (type_code (kind_of c)) := True],
      sc_ip_family := family_mark (kind_of c) s,
      sc_first_ip := mark (is_ip_component (kind_of c)) (type_code (kind_of c)) (sc_first_ip s)\<rparr>)"
proof -
  have first: "(if is_ip_component k \<and> sc_first_ip r = None then r\<lparr>sc_first_ip := Some code\<rparr> else r) =
      r\<lparr>sc_first_ip := mark (is_ip_component k) code (sc_first_ip r)\<rparr>" for k r code
    by (simp add: mark_def)
  have cong: "family_ok k (s\<lparr>sc_seen := b\<rparr>) = family_ok k s" "family_mark k (s\<lparr>sc_seen := b\<rparr>) = family_mark k s"
    "class_ok k (s\<lparr>sc_seen := b, sc_ip_family := f, sc_first_ip := i\<rparr>) = class_ok k s" for k b f i
    by (simp_all add: family_ok_def family_mark_def class_ok_def split: option.splits exclusive.splits)
  show ?thesis
    using assms type_code_256 [of "kind_of c"]
    by (auto simp: scan_component_def Let_def outcome_simps scan_family_eq scan_marks_eq first cong)
qed

lemma set_exclusive_not_Panic [simp]: "set_exclusive slot code \<noteq> Panic"
  by (simp add: set_exclusive_def conflicting_def split: option.splits)

lemma scan_marks_not_Panic [simp]: "scan_marks c s \<noteq> Panic"
  by (cases c) (simp_all add: scan_marks_def Let_def outcome_simps)

lemma scan_component_not_Panic: "length (sc_seen s) = 256 \<Longrightarrow> scan_component c s \<noteq> Panic"
  using type_code_256 [of "kind_of c"]
  by (auto simp: scan_component_def Let_def outcome_simps scan_family_def conflicting_def split: option.splits)

text \<open>The marks say which kinds of components the loop has passed.\<close>

definition met :: "component set \<Rightarrow> (component_kind \<Rightarrow> bool) \<Rightarrow> bool" where
  "met C p \<longleftrightarrow> (\<exists>c\<in>C. p (kind_of c))"

lemma met_simps [simp]: "\<not> met {} p" "met (insert c C) p \<longleftrightarrow> p (kind_of c) \<or> met C p"
  by (simp_all add: met_def)

definition scanned :: "component set \<Rightarrow> filter_scan \<Rightarrow> bool" where
  "scanned C s \<longleftrightarrow>
     length (sc_seen s) = 256 \<and>
     (\<forall>k. sc_seen s ! unat (type_code k) = met C (\<lambda>j. j = k)) \<and>
     (\<forall>fam. map_option fst (sc_ip_family s) = Some fam \<longleftrightarrow> met C (\<lambda>k. kind_family k = Some fam)) \<and>
     (sc_first_ip s = None \<longleftrightarrow> \<not> met C is_ip_component) \<and>
     (sc_remote_address s = None \<longleftrightarrow> \<not> met C (\<lambda>k. exclusive_class k = Some RemoteAddress)) \<and>
     (sc_local_address s = None \<longleftrightarrow> \<not> met C (\<lambda>k. exclusive_class k = Some LocalAddress)) \<and>
     (sc_local_port s = None \<longleftrightarrow> \<not> met C (\<lambda>k. exclusive_class k = Some LocalPort)) \<and>
     (sc_remote_port s = None \<longleftrightarrow> \<not> met C (\<lambda>k. exclusive_class k = Some RemotePort)) \<and>
     (sc_any_port s = None \<longleftrightarrow> \<not> met C is_port) \<and>
     (sc_protocol s = None \<longleftrightarrow> \<not> met C (\<lambda>k. k = KProtocolIdentifierNextHeader)) \<and>
     (sc_spi s = None \<longleftrightarrow> \<not> met C (\<lambda>k. k = KSecurityParameterIndex)) \<and>
     (sc_flow_label s = None \<longleftrightarrow> \<not> met C (\<lambda>k. k = KFlowLabel)) \<and>
     (\<forall>v. map_option fst (sc_ether_type s) = Some v \<longleftrightarrow> EtherType v \<in> C)"

lemma scannedD:
  assumes "scanned C s"
  shows "length (sc_seen s) = 256"
    "\<And>k. sc_seen s ! unat (type_code k) = met C (\<lambda>j. j = k)"
    "\<And>fam. map_option fst (sc_ip_family s) = Some fam \<longleftrightarrow> met C (\<lambda>k. kind_family k = Some fam)"
    "sc_first_ip s = None \<longleftrightarrow> \<not> met C is_ip_component"
    "sc_remote_address s = None \<longleftrightarrow> \<not> met C (\<lambda>k. exclusive_class k = Some RemoteAddress)"
    "sc_local_address s = None \<longleftrightarrow> \<not> met C (\<lambda>k. exclusive_class k = Some LocalAddress)"
    "sc_local_port s = None \<longleftrightarrow> \<not> met C (\<lambda>k. exclusive_class k = Some LocalPort)"
    "sc_remote_port s = None \<longleftrightarrow> \<not> met C (\<lambda>k. exclusive_class k = Some RemotePort)"
    "sc_any_port s = None \<longleftrightarrow> \<not> met C is_port"
    "sc_protocol s = None \<longleftrightarrow> \<not> met C (\<lambda>k. k = KProtocolIdentifierNextHeader)"
    "sc_spi s = None \<longleftrightarrow> \<not> met C (\<lambda>k. k = KSecurityParameterIndex)"
    "sc_flow_label s = None \<longleftrightarrow> \<not> met C (\<lambda>k. k = KFlowLabel)"
    "\<And>v. map_option fst (sc_ether_type s) = Some v \<longleftrightarrow> EtherType v \<in> C"
  using assms unfolding scanned_def by blast+

lemma scanned_family:
  assumes "scanned C s"
  shows "c \<in> C \<Longrightarrow> kind_family (kind_of c) \<noteq> None \<Longrightarrow> kind_family (kind_of c) = map_option fst (sc_ip_family s)"
    "sc_ip_family s \<noteq> None \<Longrightarrow> \<exists>c\<in>C. kind_family (kind_of c) = map_option fst (sc_ip_family s)"
proof -
  have fam: "map_option fst (sc_ip_family s) = Some fam \<longleftrightarrow> (\<exists>c\<in>C. kind_family (kind_of c) = Some fam)" for fam
    using scannedD(3) [OF assms] by (simp only: met_def)
  show "kind_family (kind_of c) = map_option fst (sc_ip_family s)" if "c \<in> C" "kind_family (kind_of c) \<noteq> None"
    using that fam by (metis option.exhaust)
  show "\<exists>c\<in>C. kind_family (kind_of c) = map_option fst (sc_ip_family s)" if "sc_ip_family s \<noteq> None"
    using that fam [of "fst (the (sc_ip_family s))"] by auto
qed

lemma type_code_inject: "unat (type_code j) = unat (type_code k) \<longleftrightarrow> j = k"
  by (cases j; cases k) simp_all

lemma scanned_start: "scanned {} scan_start"
  using type_code_256 by (simp add: scanned_def scan_start_def)

lemma mark_None [simp]: "mark b x slot = None \<longleftrightarrow> \<not> b \<and> slot = None"
  by (auto simp: mark_def)

lemma step_ok_iff:
  assumes "scanned C s"
  shows "\<not> sc_seen s ! unat (type_code k) \<and> family_ok k s \<and> class_ok k s \<longleftrightarrow>
    \<not> met C (\<lambda>j. loop_clash j k)"
proof -
  have split: "met C (\<lambda>j. loop_clash j k) \<longleftrightarrow>
      met C (\<lambda>j. j = k) \<or>
      (kind_family k \<noteq> None \<and> met C (\<lambda>j. kind_family j \<noteq> None \<and> kind_family j \<noteq> kind_family k)) \<or>
      (exclusive_class k \<noteq> None \<and> met C (\<lambda>j. exclusive_class j = exclusive_class k))"
  proof -
    have "loop_clash j k \<longleftrightarrow> j = k \<or> (kind_family k \<noteq> None \<and> (kind_family j \<noteq> None \<and> kind_family j \<noteq> kind_family k)) \<or>
        (exclusive_class k \<noteq> None \<and> exclusive_class j = exclusive_class k)" for j
      unfolding loop_clash_def using family_clash_iff [of j k] by auto
    then show ?thesis by (simp only: met_def bex_disj_distrib bex_simps)
  qed
  have family: "family_ok k s \<longleftrightarrow>
      \<not> (kind_family k \<noteq> None \<and> met C (\<lambda>j. kind_family j \<noteq> None \<and> kind_family j \<noteq> kind_family k))"
  proof (cases "sc_ip_family s = None")
    case True
    have "kind_family (kind_of c) = None" if "c \<in> C" for c
      using scanned_family(1) [OF assms that] True by fastforce
    then show ?thesis using True by (auto simp: family_ok_def met_def)
  next
    case False
    then obtain fam where fam: "map_option fst (sc_ip_family s) = Some fam" by auto
    obtain d where d: "d \<in> C" "kind_family (kind_of d) = Some fam" using scanned_family(2) [OF assms False] fam by auto
    have all: "kind_family (kind_of c) = None \<or> kind_family (kind_of c) = Some fam" if "c \<in> C" for c
      using scanned_family(1) [OF assms that] fam by fastforce
    have "kind_family k = Some fam \<longleftrightarrow> \<not> met C (\<lambda>j. kind_family j \<noteq> None \<and> kind_family j \<noteq> kind_family k)"
      if "kind_family k \<noteq> None"
    proof
      show "kind_family k = Some fam \<Longrightarrow> \<not> met C (\<lambda>j. kind_family j \<noteq> None \<and> kind_family j \<noteq> kind_family k)"
        using all by (fastforce simp: met_def)
      show "\<not> met C (\<lambda>j. kind_family j \<noteq> None \<and> kind_family j \<noteq> kind_family k) \<Longrightarrow> kind_family k = Some fam"
        using d by (force simp: met_def)
    qed
    then show ?thesis using False unfolding family_ok_def fam by (cases "kind_family k") auto
  qed
  have "class_ok k s \<longleftrightarrow> \<not> (exclusive_class k \<noteq> None \<and> met C (\<lambda>j. exclusive_class j = exclusive_class k))"
    by (cases "exclusive_class k") (simp_all add: class_ok_def scannedD(5-8) [OF assms] split: exclusive.splits)
  then show ?thesis unfolding scannedD(2) [OF assms] family split by blast
qed

lemma scanned_step:
  assumes S: "scanned C s" and ok: "scan_component c s = Ok s'"
  shows "scanned (insert c C) s'"
proof -
  note D = scannedD [OF S]
  note step = ok [unfolded scan_component_eq [OF D(1)]]
  have ether: "map_option fst (case c of EtherType w \<Rightarrow> Some (w, type_code (kind_of c)) | _ \<Rightarrow> sc_ether_type s) = Some v \<longleftrightarrow>
      EtherType v \<in> insert c C" for v
  proof (cases c)
    case (EtherType w)
    have "EtherType u \<notin> C" for u using step D(2) [of "kind_of c"] EtherType by (auto simp: met_def)
    then show ?thesis using EtherType by auto
  qed (use D(13) [of v] in simp_all)
  have family: "map_option fst (family_mark (kind_of c) s) = Some fam \<longleftrightarrow> met (insert c C) (\<lambda>k. kind_family k = Some fam)" for fam
  proof (cases "kind_family (kind_of c)")
    case (Some g)
    then show ?thesis
      using step D(3) [of fam] by (cases "sc_ip_family s") (auto simp: family_mark_def family_ok_def mark_def)
  qed (use D(3) [of fam] in \<open>simp add: family_mark_def\<close>)
  have seen: "(sc_seen s)[unat (type_code (kind_of c)) := True] ! unat (type_code k) = met (insert c C) (\<lambda>j. j = k)" for k
    using D(1,2) type_code_256 by (auto simp: nth_list_update type_code_inject)
  have s': "s' = class_marks c (s\<lparr>sc_seen := (sc_seen s)[unat (type_code (kind_of c)) := True],
      sc_ip_family := family_mark (kind_of c) s,
      sc_first_ip := mark (is_ip_component (kind_of c)) (type_code (kind_of c)) (sc_first_ip s)\<rparr>)"
    using step by blast
  show ?thesis
    unfolding s' scanned_def class_marks_def Let_def
    using D(1) ether family seen by (simp add: D(4-12) cong: component.case_cong)
qed


lemma scan_components_iff:
  assumes "scanned C s"
  shows "(\<exists>s'. scan_components cs s = Ok s') \<longleftrightarrow>
      sorted_wrt (\<lambda>c d. \<not> loop_clash (kind_of c) (kind_of d)) cs \<and>
      (\<forall>c\<in>C. \<forall>d\<in>set cs. \<not> loop_clash (kind_of c) (kind_of d))"
    and "scan_components cs s = Ok s' \<Longrightarrow> scanned (C \<union> set cs) s'"
  using assms
proof (induction cs arbitrary: C s)
  case (Cons c cs)
  {
    case 1
    have ok: "(\<exists>s1. scan_component c s = Ok s1) \<longleftrightarrow> (\<forall>d\<in>C. \<not> loop_clash (kind_of d) (kind_of c))"
      using step_ok_iff [OF 1, of "kind_of c"] scannedD(1) [OF 1] by (auto simp: scan_component_eq met_def)
    show ?case
    proof (cases "\<exists>s1. scan_component c s = Ok s1")
      case True
      then obtain s1 where s1: "scan_component c s = Ok s1" by blast
      show ?thesis using Cons.IH(1) [OF scanned_step [OF 1 s1]] s1 True ok by (auto simp: ball_Un)
    next
      case False
      then show ?thesis using ok by (auto simp: outcome_simps)
    qed
  next
    case 2
    then obtain s1 where s1: "scan_component c s = Ok s1" "scan_components cs s1 = Ok s'" by (auto simp: outcome_simps)
    from Cons.IH(2) [OF s1(2) scanned_step [OF 2(2) s1(1)]] show ?case by simp
  }
qed auto

lemma scan_components_not_Panic: "scanned C s \<Longrightarrow> scan_components cs s \<noteq> Panic"
proof (induction cs arbitrary: C s)
  case (Cons c cs)
  then show ?case
    using scan_component_not_Panic [OF scannedD(1), of C s c] scanned_step [of C s c]
    by (auto simp: outcome_simps dest: Cons.IH)
qed simp

section \<open>The checks after the loop\<close>

definition final_checks :: "filter_scan \<Rightarrow> (unit, tft_error) result" where
  "final_checks s =
     and_then (case (sc_any_port s, sc_spi s) of (Some port, Some spi) \<Rightarrow> conflicting port spi | _ \<Rightarrow> Ok ()) (\<lambda>_.
     and_then (check_flow_label s) (\<lambda>_. check_ether_type s))"

lemma final_checks_not_Panic [simp]: "final_checks s \<noteq> Panic"
  by (auto simp: final_checks_def outcome_simps check_flow_label_def check_ether_type_def conflicting_def
      split: option.splits ip_family.splits)

lemma port_check_iff:
  assumes "scanned C s"
  shows "(case (sc_any_port s, sc_spi s) of (Some port, Some spi) \<Rightarrow> conflicting port spi | _ \<Rightarrow> Ok ()) = Ok () \<longleftrightarrow>
    \<not> (met C is_port \<and> met C (\<lambda>k. k = KSecurityParameterIndex))"
  using scannedD(9,11) [OF assms] by (cases "sc_any_port s"; cases "sc_spi s") (simp_all add: conflicting_def)

lemma flow_label_check_iff:
  assumes "scanned C s"
  shows "check_flow_label s = Ok () \<longleftrightarrow>
    \<not> (met C (\<lambda>k. k = KFlowLabel) \<and>
       (met C (\<lambda>k. k = KProtocolIdentifierNextHeader) \<or> met C is_port \<or> met C (\<lambda>k. k = KSecurityParameterIndex)))"
  using scannedD(9-12) [OF assms]
  by (cases "sc_flow_label s"; cases "sc_protocol s"; cases "sc_any_port s"; cases "sc_spi s")
    (simp_all add: check_flow_label_def conflicting_def)

lemma ether_type_check_iff:
  assumes "scanned C s"
  shows "check_ether_type s = Ok () \<longleftrightarrow>
    (\<forall>v. EtherType v \<in> C \<longrightarrow>
       \<not> (if v = 0x0800 then met C (\<lambda>k. kind_family k = Some V6)
          else if v = 0x86dd then met C (\<lambda>k. kind_family k = Some V4) else met C is_ip_component))"
proof -
  have fam: "(case sc_ip_family s of Some (V6, t) \<Rightarrow> conflicting code t | _ \<Rightarrow> Ok ()) = Ok () \<longleftrightarrow> \<not> met C (\<lambda>k. kind_family k = Some V6)"
    "(case sc_ip_family s of Some (V4, t) \<Rightarrow> conflicting code t | _ \<Rightarrow> Ok ()) = Ok () \<longleftrightarrow> \<not> met C (\<lambda>k. kind_family k = Some V4)" for code
    unfolding scannedD(3) [OF assms, symmetric]
    by (auto simp: conflicting_def split: option.splits ip_family.splits)
  have first: "(case sc_first_ip s of Some t \<Rightarrow> conflicting code t | None \<Rightarrow> Ok ()) = Ok () \<longleftrightarrow> \<not> met C is_ip_component" for code
    using scannedD(4) [OF assms] by (cases "sc_first_ip s") (simp_all add: conflicting_def)
  have ether: "EtherType v \<in> C \<longleftrightarrow> map_option fst (sc_ether_type s) = Some v" for v
    using scannedD(13) [OF assms] by blast
  show ?thesis
    unfolding ether check_ether_type_def
    by (cases "sc_ether_type s") (auto simp: fam first)
qed

lemma final_checks_iff:
  assumes "scanned C s"
  shows "final_checks s = Ok () \<longleftrightarrow> (\<forall>c\<in>C. \<not> met C (excludes c))"
proof -
  have kind: "met C (\<lambda>k. k = j) \<longleftrightarrow> (\<exists>c\<in>C. kind_of c = j)" for j by (simp add: met_def)
  have ex: "met C (excludes c) \<longleftrightarrow>
      kind_of c = KSecurityParameterIndex \<and> met C is_port \<or>
      kind_of c = KFlowLabel \<and> (met C (\<lambda>k. k = KProtocolIdentifierNextHeader) \<or> met C is_port \<or> met C (\<lambda>k. k = KSecurityParameterIndex)) \<or>
      (\<exists>v. c = EtherType v \<and> (if v = 0x0800 then met C (\<lambda>k. kind_family k = Some V6)
          else if v = 0x86dd then met C (\<lambda>k. kind_family k = Some V4) else met C is_ip_component))" for c
    by (cases c) (auto simp: excludes_def met_def kind_family_iff is_ip_component_iff)
  have "final_checks s = Ok () \<longleftrightarrow>
      \<not> (met C is_port \<and> met C (\<lambda>k. k = KSecurityParameterIndex)) \<and>
      \<not> (met C (\<lambda>k. k = KFlowLabel) \<and>
         (met C (\<lambda>k. k = KProtocolIdentifierNextHeader) \<or> met C is_port \<or> met C (\<lambda>k. k = KSecurityParameterIndex))) \<and>
      (\<forall>v. EtherType v \<in> C \<longrightarrow>
         \<not> (if v = 0x0800 then met C (\<lambda>k. kind_family k = Some V6)
            else if v = 0x86dd then met C (\<lambda>k. kind_family k = Some V4) else met C is_ip_component))"
    unfolding final_checks_def
    using port_check_iff [OF assms] flow_label_check_iff [OF assms] ether_type_check_iff [OF assms]
    by (simp add: outcome_simps)
  also have "\<dots> \<longleftrightarrow> (\<forall>c\<in>C. \<not> met C (excludes c))"
    unfolding ex using kind [of KSecurityParameterIndex] kind [of KFlowLabel] by blast
  finally show ?thesis .
qed

lemma excludes_self: "\<not> excludes c (kind_of c)"
  by (cases c) (simp_all add: excludes_def is_port_def v4_kinds_def v6_kinds_def link_kinds_def)

lemma loop_clash_sym: "loop_clash j k = loop_clash k j"
  by (auto simp: loop_clash_def)

lemma sorted_wrt_sym_iff:
  assumes "\<And>x y. R x y \<Longrightarrow> R y x" "\<And>x. R x x"
  shows "sorted_wrt R xs \<longleftrightarrow> (\<forall>x\<in>set xs. \<forall>y\<in>set xs. R x y)"
  using assms by (induction xs) auto

lemma compatible_pairs:
  "sorted_wrt compatible cs \<longleftrightarrow>
     sorted_wrt (\<lambda>c d. \<not> loop_clash (kind_of c) (kind_of d)) cs \<and> (\<forall>c\<in>set cs. \<not> met (set cs) (excludes c))"
proof -
  have "sorted_wrt (\<lambda>c d. \<not> excludes c (kind_of d) \<and> \<not> excludes d (kind_of c)) cs \<longleftrightarrow>
      (\<forall>c\<in>set cs. \<forall>d\<in>set cs. \<not> excludes c (kind_of d) \<and> \<not> excludes d (kind_of c))"
    by (rule sorted_wrt_sym_iff) (simp_all add: excludes_self)
  also have "\<dots> \<longleftrightarrow> (\<forall>c\<in>set cs. \<not> met (set cs) (excludes c))" by (auto simp: met_def)
  finally have pairs: "sorted_wrt (\<lambda>c d. \<not> excludes c (kind_of d) \<and> \<not> excludes d (kind_of c)) cs \<longleftrightarrow> \<dots>" .
  have "sorted_wrt (\<lambda>c d. P c d \<and> Q c d) xs \<longleftrightarrow> sorted_wrt P xs \<and> sorted_wrt Q xs" for P Q :: "component \<Rightarrow> component \<Rightarrow> bool" and xs
    by (induction xs) auto
  then show ?thesis unfolding pairs [symmetric] by (simp add: compatible_def [abs_def])
qed

lemma filter_validate_iff:
  "filter_validate f = Ok () \<longleftrightarrow>
     pf_components f \<noteq> [] \<and> filter_len f \<le> 255 \<and> sorted_wrt compatible (pf_components f)"
proof -
  have scan: "(\<exists>s. scan_components (pf_components f) scan_start = Ok s \<and> final_checks s = Ok ()) \<longleftrightarrow>
      sorted_wrt compatible (pf_components f)"
    unfolding compatible_pairs
    using scan_components_iff [OF scanned_start, of "pf_components f"] final_checks_iff [of "set (pf_components f)"]
    by auto
  have "filter_validate f = Ok () \<longleftrightarrow> pf_components f \<noteq> [] \<and> filter_len f \<le> max_u64 \<and> filter_len f \<le> 255 \<and>
      (\<exists>s. scan_components (pf_components f) scan_start = Ok s \<and> final_checks s = Ok ())"
    by (auto simp: filter_validate_def outcome_simps filter_contents_len_iff final_checks_def)
  also have "\<dots> \<longleftrightarrow> pf_components f \<noteq> [] \<and> filter_len f \<le> 255 \<and> sorted_wrt compatible (pf_components f)"
    unfolding scan by (auto simp: max_u64_def)
  finally show ?thesis .
qed

lemma contents_sum_not_Panic [simp]: "contents_sum n cs \<noteq> Panic"
  by (induction cs arbitrary: n) (auto simp: outcome_simps)

lemma filter_validate_not_Panic: "filter_validate f \<noteq> Panic"
proof -
  have "and_then (scan_components (pf_components f) scan_start) final_checks \<noteq> Panic"
    using scan_components_not_Panic [OF scanned_start] by (auto simp: outcome_simps)
  then show ?thesis
    by (auto simp: filter_validate_def filter_contents_len_def final_checks_def [abs_def] outcome_simps)
qed

section \<open>Properties\<close>

text \<open>C37. A packet filter validates exactly when it has components, its contents fit one length octet
  and its components are pairwise compatible: no two of the same kind, no two remote addresses, local
  addresses, local ports or remote ports, no mix of IP versions, no port beside a security parameter
  index, no protocol, port or security parameter index beside a flow label, and no IP component that
  contradicts an EtherType. In particular the order of the components does not matter, and validation
  never panics.\<close>

theorem filter_validate_exact:
  "filter_validate f \<noteq> Panic \<and>
   (filter_validate f = Ok () \<longleftrightarrow>
      pf_components f \<noteq> [] \<and> sum_list (map component_len (pf_components f)) \<le> 255 \<and>
      sorted_wrt compatible (pf_components f))"
  using filter_validate_iff [of f] filter_validate_not_Panic by (simp add: filter_len_def)

text \<open>C36. The TFT codec is exact: an octet string decodes to a template if and only if the template
  satisfies the invariants of its private fields and encodes to that very string. So decoding what was
  encoded gives the template back, every accepted string is canonical, and no two strings decode to
  the same template.\<close>

theorem tft_codec_exact: "decode_value w = Ok t \<longleftrightarrow> tft_wf t \<and> encode_value t [] = Ok w"
  by (auto simp: decode_value_bytes encode_value_bytes)

text \<open>C38. The limits of a decoding context only ever reject: a decoder with a context accepts exactly
  the strings the plain decoder accepts that are no longer than the message limit and hold no more
  elements (filters, components, identifiers and parameters) than the element limit; the element count
  is below the length in octets, so a limit of 255 never rejects.\<close>

theorem tft_context_exact:
  "(decode_value_with_context w ctx = Ok t \<longleftrightarrow>
      decode_value w = Ok t \<and> length w \<le> dc_max_message_len ctx \<and> tft_elements t \<le> dc_max_ies ctx) \<and>
   (decode_value w = Ok t \<longrightarrow> tft_elements t < length w \<and> length w \<le> 255)"
  using tft_elements_less [of t] tft_validate_facts(5) [of t]
  by (auto simp: decode_context_bytes decode_value_bytes)

definition dns_filter :: packet_filter where
  "dns_filter = \<lparr>pf_identifier = PacketFilterIdentifier 1, pf_direction = Bidirectional, pf_precedence = 10,
     pf_components = [ProtocolIdentifierNextHeader 17, SingleRemotePort 53]\<rparr>"

definition dns_template :: traffic_flow_template where
  "dns_template = \<lparr>tft_op = CreateNew, tft_filters = Filters [dns_filter],
     tft_parameters = [FlowIdentifier \<lparr>media_component_number = 1, ip_flow_number = 2\<rparr>], tft_ignored = []\<rparr>"

definition dns_wire :: bytes where
  "dns_wire = [0x31, 0x31, 10, 5, 0x30, 17, 0x50, 0, 53, 2, 4, 0, 1, 0, 2]"

lemma dns_template_valid:
  "tft_wf dns_template" "tft_validate dns_template = Ok ()" "tft_bytes dns_template = dns_wire"
  "tft_elements dns_template = 4"
proof -
  show "tft_wf dns_template" "tft_bytes dns_template = dns_wire" "tft_elements dns_template = 4" by code_simp+
  have "pf_components dns_filter \<noteq> [] \<and> filter_len dns_filter \<le> 255 \<and> sorted_wrt compatible (pf_components dns_filter)"
    by code_simp
  then have "filter_validate dns_filter = Ok ()" unfolding filter_validate_iff .
  then have "validate_filters [dns_filter] = Ok ()" by simp
  moreover have "validate_parameter_sequence (tft_parameters dns_template) = Ok ()"
    "validate_operation dns_template = Ok ()" by code_simp+
  moreover have "encoded_value_len_internal dns_template = Ok 15"
    by (simp add: encoded_value_len_internal_def dns_template_def dns_filter_def filter_contents_len_def
        checked_add_def max_u64_def TFT_MIN_VALUE_LEN_def)
  ultimately show "tft_validate dns_template = Ok ()"
    by (simp add: tft_validate_def dns_template_def TFT_MIN_VALUE_LEN_def TFT_MAX_VALUE_LEN_def)
qed

theorem tft_context_exact_witness:
  "decode_value dns_wire = Ok dns_template \<and> tft_elements dns_template = 4 \<and>
   decode_value_with_context dns_wire (decode_context_conservative\<lparr>dc_max_message_len := 15, dc_max_ies := 4\<rparr>) = Ok dns_template \<and>
   decode_value_with_context dns_wire (decode_context_conservative\<lparr>dc_max_message_len := 15, dc_max_ies := 3\<rparr>) \<noteq> Ok dns_template"
proof -
  have "decode_value dns_wire = Ok dns_template" "length dns_wire = 15"
    by (simp_all add: decode_value_bytes dns_template_valid dns_wire_def)
  then show ?thesis
    using tft_context_exact [of dns_wire "decode_context_conservative\<lparr>dc_max_message_len := 15, dc_max_ies := 3\<rparr>" dns_template]
      tft_context_exact [of dns_wire "decode_context_conservative\<lparr>dc_max_message_len := 15, dc_max_ies := 4\<rparr>" dns_template]
    by (simp add: dns_template_valid)
qed

text \<open>C39. The codec traits agree with the plain functions. What the trait encoder appends is what the
  trait length announces, and the trait decoder reads it back whenever the context admits its length and
  its elements, consuming the whole value.\<close>

theorem tft_traits_roundtrip:
  assumes "tft_wf t" and "tft_encode t dst ectx = Ok out"
  shows "\<exists>w. out = dst @ w \<and> tft_wire_len t ectx = Ok (length w) \<and> length w \<le> 255 \<and>
    (length w \<le> dc_max_message_len dctx \<and> tft_elements t \<le> dc_max_ies dctx \<longrightarrow>
       tft_decode w dctx = Ok ([], t) \<and> tft_decode_owned w dctx = Ok t)"
proof -
  have v: "tft_validate t = Ok ()" and out: "out = dst @ tft_bytes t"
    and len: "tft_wire_len t ectx = Ok (length (tft_bytes t))"
    using assms tft_validate_facts(4) [OF _ assms(1)]
    by (auto simp: tft_encode_def tft_wire_len_def tft_encoded_value_len_def encode_value_bytes outcome_simps)
  show ?thesis
    using assms(1) v len tft_validate_facts(5) [OF v assms(1)]
    by (auto simp: out tft_decode_def tft_decode_owned_def outcome_simps decode_context_bytes)
qed

theorem tft_traits_roundtrip_witness:
  "tft_encode dns_template [7] encode_context_default = Ok (7 # dns_wire) \<and>
   tft_decode dns_wire (decode_context_conservative\<lparr>dc_max_message_len := 15, dc_max_ies := 4\<rparr>) = Ok ([], dns_template)"
proof -
  let ?ctx = "decode_context_conservative\<lparr>dc_max_message_len := 15, dc_max_ies := 4\<rparr>"
  have len: "length dns_wire = 15" by (simp add: dns_wire_def)
  have "tft_encode dns_template [7] encode_context_default = Ok (7 # dns_wire)"
    using tft_validate_facts(4) [OF dns_template_valid(2,1)] len
    by (simp add: tft_encode_def tft_encoded_value_len_def dns_template_valid encode_value_bytes outcome_simps
        encode_context_default_def)
  with tft_traits_roundtrip [OF dns_template_valid(1) this, of ?ctx] len show ?thesis
    by (auto simp: dns_template_valid)
qed

end
