(* ===== verification/Spec2Isabelle.thy ===== *)
theory Spec2Isabelle
  imports Opc_Protocol Nwu_Gre Nwu_Mapping Gtpu_Codec Nacm_Policy Session_Convergence Tft_Filters
begin

text \<open>
  Verification library for the OpenPacketCore SDK, a Rust workspace of protocol codecs,
  management-plane services and session storage for packet-core network functions. All paths below
  are relative to \<^verbatim>\<open>src/\<close>.

  \<^bold>\<open>Parts and theories.\<close> One group of theories per component, over a common prelude; the definitions
  of a component stand in the order of the source and keep its names.

  \<^item> \<open>Opc_Prelude\<close>: the outcome type \<open>result\<close> with \<open>Ok\<close>, \<open>Err\<close> and \<open>Panic\<close>, its sequencing \<open>and_then\<close>
    (the question mark operator), checked, saturating and panicking arithmetic on 64-bit \<^verbatim>\<open>usize\<close> and
    \<^verbatim>\<open>u64\<close>, byte strings with big-endian fields, and the collections \<open>outcome_simps\<close> and \<open>wire_simps\<close>
    that carry the proofs of the components.
  \<^item> \<open>Opc_Protocol\<close> (\<^verbatim>\<open>crates/opc-protocol\<close>): decode and encode contexts, errors with positions, and the
    interfaces \<open>datagram_codec\<close> and \<open>stream_codec\<close>, which state the round-trip law of \<^verbatim>\<open>traits.rs\<close> for
    codecs of a whole datagram and for codecs that leave a tail.
  \<^item> \<open>Nwu_Gre\<close>, \<open>Nwu_Mapping\<close> (\<^verbatim>\<open>crates/opc-proto-gre\<close>): the directional GRE codec with its checked QFI, and
    the mapping from QFIs to child associations with the bit-set \<^verbatim>\<open>QfiSet\<close> and the candidate iterator.
  \<^item> \<open>Gtpu_Ext\<close>, \<open>Gtpu_Chain\<close>, \<open>Gtpu_Codec\<close> (\<^verbatim>\<open>crates/opc-proto-gtpu\<close>): extension headers with their
    comprehension rules, lazy iterator, typed values and the PDU Session Container; the owned chain
    summary with its upserts; the message decoder and the canonical and raw-preserving encoders.
  \<^item> \<open>Tft_Model\<close>, \<open>Tft_Codec\<close>, \<open>Tft_Roundtrip\<close>, \<open>Tft_Filters\<close> (\<^verbatim>\<open>crates/opc-proto-tft\<close>): the traffic flow
    template of \<^verbatim>\<open>model.rs\<close> with its checked fields and constructors; the cursor, the element budget, the
    decoder and the encoder of \<^verbatim>\<open>codec.rs\<close>; the proof that every reader accepts exactly what its writer
    produces; and the pairwise meaning of the validation loop of a packet filter.
  \<^item> \<open>Nacm_Path\<close>, \<open>Nacm_Trie\<close>, \<open>Nacm_Policy\<close> (\<^verbatim>\<open>crates/opc-nacm\<close>): module registry, YANG paths and rule patterns
    with parsers and printers; the rule trie with its pruned lookup; rule lists scoped to groups, the
    policy builder with its process-wide namespace counter, and the evaluator with its bounded cache.
  \<^item> \<open>Session_Types\<close>, \<open>Session_Retention\<close>, \<open>Session_Log\<close>, \<open>Session_Store\<close>, \<open>Session_Replay\<close>
    (\<^verbatim>\<open>crates/opc-session-store\<close>): time and TTL arithmetic, keys, records, leases and errors; the epochs of
    \<^verbatim>\<open>key_retention.rs\<close> and the policies of \<^verbatim>\<open>replay_policy.rs\<close>; the replication log of \<^verbatim>\<open>backend.rs\<close>; the
    in-memory backend of \<^verbatim>\<open>fake/mod.rs\<close> with its requests; and the replay of committed entries.
    \<open>Session_Invariant\<close>, \<open>Session_Safety\<close>, \<open>Session_Effects\<close> and \<open>Session_Convergence\<close> hold the proofs.

  \<^bold>\<open>State and operations.\<close> A struct is a record and an enum a datatype. A method that takes \<^verbatim>\<open>&mut self\<close>
  returns the new state; a buffer written by an encoder is returned with the outcome, so that what is
  left behind by a failed encode is part of the model. The state of the session backend is
  \<open>fake_state\<close> (records, leases, fences, retention epochs, log) inside \<open>fake_backend\<close>, which adds the time
  of the last writer, the keys hidden by expired reads and the entries handed to watchers; a request of \<open>Session_Safety\<close> carries the reading
  of the wall clock it is served at, and \<open>backend_run\<close> serves any sequence of requests. The source
  holds one mutex across each request, so interleavings are exactly these sequences. The NACM process is a
  list of built policies, the namespace counter and one evaluator, driven by \<open>process_step\<close>.

  \<^bold>\<open>Interfaces.\<close> \<open>datagram_codec\<close> is interpreted on the GRE codec and on the traffic flow template codec,
  \<open>stream_codec\<close> on the GTP-U codec, \<open>id_set\<close> on \<^verbatim>\<open>QfiSet\<close>, \<open>rule_index\<close> on the rule trie, \<open>memo_store\<close> on the
  decision cache, and \<open>fenced_store\<close> on the session backend. The order of keys that the backend iterates
  over is the class instance of \<open>fake_map_key\<close>.

  \<^bold>\<open>What is shown.\<close>

  \<^item> Codecs: the exact set of accepted inputs with the decoded value and the absence of panics (GRE,
    GTP-U, extension chains, templates); round trips in both directions; byte-exact re-encoding in the
    raw-preserving mode; trains of messages; resource bounds; and the state of the buffer after every
    outcome of the GTP-U encoder.
  \<^item> Extension chains: the two upserts on an arbitrary header list, and agreement of the summary with the
    headers on the wire.
  \<^item> Packet filters: the single pass with its twelve marks accepts exactly the pairwise compatible
    component lists.
  \<^item> Access control: the pruned trie is the first match of a linear scan; the caching process refines a
    specification without trie, cache and namespaces; access is granted only by a rule that the groups of
    the principal may see, where visibility is stated by membership and not by the test of the code;
    parsing and printing are inverse, and the parsers never panic.
  \<^item> Session store: the invariant of every reached state and the growth of fences; a superseded guard is
    refused in single requests and in every slot of a batch; leases are exclusive; the exact effect of a
    compare-and-set; the two-epoch window of forgotten keys; capacity finalisation ends after at most two
    rotations; validation of operation trees; and replication: a rebuild from the published log and
    delivery entry by entry both give the state of the serving backend, and redelivery changes nothing.
    The one excluded case, the last fence and the last credential, is shown to fail in replay.

  \<^bold>\<open>Loops and bounds.\<close> No definition uses fuel. Loops over the input are recursive functions with a measure:
  the octets left (extension walk, chain summary, component and parameter loops), the nodes left in the
  work list (operation trees), the retired keys left (capacity finalisation, whose at most two rotations are
  a theorem). The eviction loop of the cache is a partial function into options, and that it returns
  is part of the evaluator invariant. Lengths are natural numbers bounded by \<open>max_u64\<close> where the source
  checks them; some theorems ask for a length well below \<open>max_u64\<close>, which every buffer in memory satisfies.

  \<^bold>\<open>Conventions.\<close> \<^verbatim>\<open>usize\<close> has 64 bits. A plain addition that may overflow is a panic, as in builds with
  overflow checks; such additions remain only in replay (\<^verbatim>\<open>fake/mod.rs\<close>, the counters after a replayed grant
  or renewal, and the recovery floor). Indexing out of range is a panic. Text is a list of characters with
  code points up to 255; validation of other Unicode text is outside the model.

  \<^bold>\<open>Not modelled.\<close> In the session store: the watcher channels (publication is the list of entries), restore
  scans, the payload transformation hooks, the \<^verbatim>\<open>lab-memory\<close> feature, and the durable and consensus
  backends, which are SQL, files and network. In GTP-U: the typed control messages of \<^verbatim>\<open>control.rs\<close>. Debug and
  Display implementations and latency histograms have no effect on the modelled state. The other crates
  of the workspace are transports, kernel interfaces, cryptographic services, generated types, test support,
  further codecs, and management and lifecycle services with their own state. From them the modelled code
  takes only identifier and time types, which the model has as strings and integers, and counters of
  \<^verbatim>\<open>crates/opc-redaction/src/metrics.rs\<close>, which are modelled.
\<close>

end
